(* ===== verification/Cypher_Prelude.thy ===== *)
theory Cypher_Prelude
  imports "HOL-Library.Word"
begin

text \<open>
  Shared vocabulary of the development: machine integers and byte strings, the error type of
  \<^verbatim>\<open>crates/cypher-common/src/error.rs\<close> with the result type every fallible operation returns,
  Rust's slicing, UTF-8 validation and trimming, and the little- and big-endian integer codecs of the
  standard library (\<^verbatim>\<open>to_le_bytes\<close>, \<^verbatim>\<open>from_be_bytes\<close>, ...) with their round-trip laws.
  The locale \<^verbatim>\<open>fixed_codec\<close> is the contract of a fixed-width encoding; every wire format of
  the program is proved correct from it.
\<close>

section \<open>Machine types, errors and results\<close>

type_synonym u8 = "8 word"
type_synonym u16 = "16 word"
type_synonym u32 = "32 word"
type_synonym u64 = "64 word"
type_synonym bytes = "8 word list"

datatype cerror =
    Io string
  | Protocol string
  | Crypto string
  | Transport string
  | Session string
  | Nat string
  | Transfer string
  | Config string
  | ConnectionClosed
  | Timeout
  | PeerNotFound string
  | InvalidData string

datatype 'a result = Ok 'a | Err cerror

text \<open>Rust's \<^verbatim>\<open>?\<close>: continue with the value or return the error.\<close>

primrec and_then :: "'a result \<Rightarrow> ('a \<Rightarrow> 'b result) \<Rightarrow> 'b result" where
  "and_then (Ok x) f = f x"
| "and_then (Err e) f = Err e"

primrec is_ok :: "'a result \<Rightarrow> bool" where
  "is_ok (Ok x) = True"
| "is_ok (Err e) = False"

primrec ok_or :: "'a option \<Rightarrow> cerror \<Rightarrow> 'a result" where
  "ok_or (Some x) e = Ok x"
| "ok_or None e = Err e"

lemma and_then_cong [fundef_cong]:
  "r = r' \<Longrightarrow> (\<And>x. r' = Ok x \<Longrightarrow> f x = g x) \<Longrightarrow> and_then r f = and_then r' g"
  by (cases r') auto

lemma and_then_eq_Ok [simp]: "and_then r f = Ok y \<longleftrightarrow> (\<exists>x. r = Ok x \<and> f x = Ok y)"
  by (cases r) auto

lemma ok_or_eq_Ok [simp]: "ok_or x e = Ok y \<longleftrightarrow> x = Some y"
  by (cases x) auto

section \<open>Slices\<close>

text \<open>\<^verbatim>\<open>&buf[a..b]\<close> for \<^verbatim>\<open>a \<le> b \<le> buf.len()\<close>; the model guards every use as the source does.\<close>

definition slice_of :: "nat \<Rightarrow> nat \<Rightarrow> 'a list \<Rightarrow> 'a list" where
  "slice_of a b xs = take (b - a) (drop a xs)"

named_theorems slice_simps

lemma length_slice [simp]: "length (slice_of a b xs) = min (b - a) (length xs - a)"
  by (simp add: slice_of_def min.commute)

lemma slice_zero [slice_simps]: "slice_of 0 b xs = take b xs"
  by (simp add: slice_of_def)

lemma slice_append_mid [slice_simps]:
  "a = length pre \<Longrightarrow> b = length pre + length xs \<Longrightarrow> slice_of a b (pre @ xs @ suf) = xs"
  by (simp add: slice_of_def)

lemma slice_append_right [slice_simps]:
  "length xs \<le> a \<Longrightarrow> slice_of a b (xs @ ys) = slice_of (a - length xs) (b - length xs) ys"
  by (simp add: slice_of_def)

lemma slice_append_left [slice_simps]:
  "b \<le> length xs \<Longrightarrow> slice_of a b (xs @ ys) = slice_of a b xs"
  by (cases "a \<le> b") (simp_all add: slice_of_def)

lemma slice_full [slice_simps]: "length xs \<le> b \<Longrightarrow> slice_of 0 b xs = xs"
  by (simp add: slice_of_def)

lemma slice_partition: "a \<le> b \<Longrightarrow> b \<le> c \<Longrightarrow> slice_of a b xs @ slice_of b c xs = slice_of a c xs"
proof -
  assume "a \<le> b" "b \<le> c"
  then have "take (c - a) (drop a xs) = take ((b - a) + (c - b)) (drop a xs)" by simp
  also have "\<dots> = take (b - a) (drop a xs) @ take (c - b) (drop (b - a) (drop a xs))"
    by (rule take_add)
  finally show ?thesis using \<open>a \<le> b\<close> by (simp add: slice_of_def)
qed

lemma append_eq_splitI: "length xs = n \<Longrightarrow> take n (xs @ ys) = xs \<and> drop n (xs @ ys) = ys"
  by auto

section \<open>Integers as bytes\<close>

primrec nat_le :: "nat \<Rightarrow> nat \<Rightarrow> bytes" where
  "nat_le 0 k = []"
| "nat_le (Suc n) k = word_of_nat k # nat_le n (k div 256)"

primrec le_nat :: "bytes \<Rightarrow> nat" where
  "le_nat [] = 0"
| "le_nat (b # bs) = unat b + 256 * le_nat bs"

definition to_le :: "nat \<Rightarrow> 'w::len word \<Rightarrow> bytes" where
  "to_le n w = nat_le n (unat w)"

definition from_le :: "bytes \<Rightarrow> 'w::len word" where
  "from_le bs = word_of_nat (le_nat bs)"

definition to_be :: "nat \<Rightarrow> 'w::len word \<Rightarrow> bytes" where
  "to_be n w = rev (nat_le n (unat w))"

definition from_be :: "bytes \<Rightarrow> 'w::len word" where
  "from_be bs = word_of_nat (le_nat (rev bs))"

abbreviation u32_le :: "u32 \<Rightarrow> bytes" where "u32_le \<equiv> to_le 4"
abbreviation u64_le :: "u64 \<Rightarrow> bytes" where "u64_le \<equiv> to_le 8"
abbreviation u16_be :: "u16 \<Rightarrow> bytes" where "u16_be \<equiv> to_be 2"
abbreviation u32_be :: "u32 \<Rightarrow> bytes" where "u32_be \<equiv> to_be 4"
abbreviation u64_be :: "u64 \<Rightarrow> bytes" where "u64_be \<equiv> to_be 8"

named_theorems byte_codec

lemma length_nat_le [simp]: "length (nat_le n k) = n"
  by (induction n arbitrary: k) simp_all

named_theorems byte_eval

lemma nat_le_numeral [byte_eval]:
  "nat_le (numeral n) k = word_of_nat k # nat_le (pred_numeral n) (k div 256)"
  using nat_le.simps(2) [of "pred_numeral n" k] by (simp only: numeral_eq_Suc [of n, symmetric])

lemma unat_u8_of_nat: "unat (word_of_nat k :: u8) = k mod 256"
  by (simp add: unat_of_nat)

lemma le_nat_nat_le: "le_nat (nat_le n k) = k mod 256 ^ n"
proof (induction n arbitrary: k)
  case (Suc n)
  have "k mod (256 * 256 ^ n) = 256 * (k div 256 mod 256 ^ n) + k mod 256"
    by (rule mod_mult2_eq)
  then show ?case using Suc by (simp add: unat_u8_of_nat)
qed simp

lemma unat_of_nat_small: "n < 2 ^ LENGTH('w::len) \<Longrightarrow> unat (word_of_nat n :: 'w word) = n"
  by (simp add: unat_of_nat)

lemma word_of_nat_eq_small:
  assumes "j < 2 ^ LENGTH('w::len)" "k < 2 ^ LENGTH('w)"
  shows "(word_of_nat j :: 'w word) = word_of_nat k \<longleftrightarrow> j = k"
  using unat_of_nat_small [OF assms(1)] unat_of_nat_small [OF assms(2)] by metis

lemma u8_256 [simp]: "(256 :: u8) * x = 0"
proof -
  have "(256 :: u8) = 0" by simp
  then show ?thesis by (simp only: mult_zero_left)
qed

lemma nat_le_le_nat: "nat_le (length bs) (le_nat bs) = bs"
proof (induction bs)
  case (Cons b bs)
  have "unat b < 256" using unsigned_less [of b] by simp
  then have "(unat b + 256 * le_nat bs) div 256 = le_nat bs" by simp
  then show ?case using Cons by simp
qed simp

lemma le_nat_bound: "le_nat bs < 256 ^ length bs"
proof -
  have "le_nat bs = le_nat (nat_le (length bs) (le_nat bs))" by (simp add: nat_le_le_nat)
  then show ?thesis by (metis le_nat_nat_le mod_less_divisor zero_less_power zero_less_numeral)
qed

lemma length_to_le [simp]: "length (to_le n w) = n"
  by (simp add: to_le_def)

lemma length_to_be [simp]: "length (to_be n w) = n"
  by (simp add: to_be_def)

lemma unat_mod_256: "LENGTH('w::len) \<le> 8 * n \<Longrightarrow> unat (w :: 'w word) mod 256 ^ n = unat w"
proof -
  assume "LENGTH('w) \<le> 8 * n"
  then have "(2::nat) ^ LENGTH('w) \<le> 2 ^ (8 * n)" by (rule power_increasing) simp
  also have "\<dots> = 256 ^ n" by (simp add: power_mult)
  finally have "unat w < 256 ^ n" using unsigned_less [of w] by (rule order_less_le_trans [rotated])
  then show ?thesis by simp
qed

lemma from_le_to_le [byte_codec]:
  "LENGTH('w::len) \<le> 8 * n \<Longrightarrow> from_le (to_le n w) = (w :: 'w word)"
  by (simp add: from_le_def to_le_def le_nat_nat_le unat_mod_256)

lemma from_be_to_be [byte_codec]:
  "LENGTH('w::len) \<le> 8 * n \<Longrightarrow> from_be (to_be n w) = (w :: 'w word)"
  by (simp add: from_be_def to_be_def le_nat_nat_le unat_mod_256)

lemma to_le_from_le:
  "8 * length bs \<le> LENGTH('w::len) \<Longrightarrow> to_le (length bs) (from_le bs :: 'w word) = bs"
proof -
  assume "8 * length bs \<le> LENGTH('w)"
  then have "(2::nat) ^ (8 * length bs) \<le> 2 ^ LENGTH('w)" by (rule power_increasing) simp
  then have "le_nat bs < 2 ^ LENGTH('w)"
    using le_nat_bound [of bs] by (simp add: power_mult)
  then show ?thesis by (simp add: from_le_def to_le_def unat_of_nat nat_le_le_nat)
qed

lemma to_be_from_be:
  "8 * length bs \<le> LENGTH('w::len) \<Longrightarrow> to_be (length bs) (from_be bs :: 'w word) = bs"
  using to_le_from_le [of "rev bs", where 'w = 'w]
  by (simp add: to_be_def from_be_def to_le_def from_le_def)

lemmas [byte_eval] = to_le_def from_le_def to_be_def from_be_def

text \<open>Accumulating the differences of zipped bytes, as the constant-time comparisons do.\<close>

lemma or_fold_zero:
  "fold (\<lambda>(x, y) diff. or diff (xor x y)) zs d = (0 :: u8) \<longleftrightarrow> d = 0 \<and> (\<forall>(x, y)\<in>set zs. x = y)"
proof (induction zs arbitrary: d)
  case (Cons z zs)
  have "x = y" if "xor x y = 0" for x y :: u8
  proof -
    have "xor x (xor x y) = y" by (simp flip: xor.assoc)
    then show ?thesis using that by simp
  qed
  then have "or d (xor x y) = 0 \<longleftrightarrow> d = 0 \<and> x = y" for d x y :: u8
    by (auto simp: or_eq_0_iff)
  then show ?case using Cons.IH by (cases z) auto
qed simp

section \<open>The contract of a fixed-width codec\<close>

text \<open>
  A fixed-width encoding: every value takes \<^verbatim>\<open>width\<close> bytes and decoding inverts encoding.  From
  these two laws follow the facts every wire format needs: the encoding is injective, it is
  prefix-free, and a field can be read back at its offset inside a longer message.
\<close>

locale fixed_codec =
  fixes enc :: "'a \<Rightarrow> bytes" and dec :: "bytes \<Rightarrow> 'a" and width :: nat
  assumes length_enc: "length (enc x) = width"
    and dec_enc: "dec (enc x) = x"
begin

lemma enc_inject: "enc x = enc y \<longleftrightarrow> x = y"
  by (metis dec_enc)

lemma enc_append_inject: "enc x @ s = enc y @ t \<longleftrightarrow> x = y \<and> s = t"
  by (metis append_eq_append_conv enc_inject length_enc)

lemma dec_take: "dec (take width (enc x @ s)) = x"
  by (simp add: length_enc dec_enc)

lemma drop_enc: "drop width (enc x @ s) = s"
  by (simp add: length_enc)

lemma dec_slice:
  "a = length pre \<Longrightarrow> b = a + width \<Longrightarrow> dec (slice_of a b (pre @ enc x @ suf)) = x"
  by (simp add: slice_of_def length_enc dec_enc)

end

interpretation u32le: fixed_codec "u32_le" "from_le" 4
  by unfold_locales (simp_all add: from_le_to_le)

interpretation u64le: fixed_codec "u64_le" "from_le" 8
  by unfold_locales (simp_all add: from_le_to_le)

interpretation u16be: fixed_codec "u16_be" "from_be" 2
  by unfold_locales (simp_all add: from_be_to_be)

interpretation u32be: fixed_codec "u32_be" "from_be" 4
  by unfold_locales (simp_all add: from_be_to_be)

interpretation u64be: fixed_codec "u64_be" "from_be" 8
  by unfold_locales (simp_all add: from_be_to_be)

section \<open>UTF-8 validation\<close>

text \<open>
  A Rust \<^verbatim>\<open>String\<close> is a byte sequence that is valid UTF-8.  The model keeps its bytes and the
  validity predicate of \<^verbatim>\<open>String::from_utf8\<close>: no overlong forms, no surrogates, nothing above
  U+10FFFF.
\<close>

type_synonym rstring = bytes

definition utf8_cont :: "u8 \<Rightarrow> bool" where
  "utf8_cont b \<longleftrightarrow> 0x80 \<le> b \<and> b \<le> 0xBF"

fun utf8_valid :: "bytes \<Rightarrow> bool" where
  "utf8_valid [] = True"
| "utf8_valid (b0 # r) =
    (if b0 < 0x80 then utf8_valid r
     else case r of
       [] \<Rightarrow> False
     | b1 # r1 \<Rightarrow>
         if 0xC2 \<le> b0 \<and> b0 \<le> 0xDF then utf8_cont b1 \<and> utf8_valid r1
         else case r1 of
           [] \<Rightarrow> False
         | b2 # r2 \<Rightarrow>
             if (b0 = 0xE0 \<and> 0xA0 \<le> b1 \<and> b1 \<le> 0xBF)
               \<or> ((0xE1 \<le> b0 \<and> b0 \<le> 0xEC \<or> b0 = 0xEE \<or> b0 = 0xEF) \<and> utf8_cont b1)
               \<or> (b0 = 0xED \<and> 0x80 \<le> b1 \<and> b1 \<le> 0x9F)
             then utf8_cont b2 \<and> utf8_valid r2
             else case r2 of
               [] \<Rightarrow> False
             | b3 # r3 \<Rightarrow>
                 ((b0 = 0xF0 \<and> 0x90 \<le> b1 \<and> b1 \<le> 0xBF)
                   \<or> (0xF1 \<le> b0 \<and> b0 \<le> 0xF3 \<and> utf8_cont b1)
                   \<or> (b0 = 0xF4 \<and> 0x80 \<le> b1 \<and> b1 \<le> 0x8F))
                 \<and> utf8_cont b2 \<and> utf8_cont b3 \<and> utf8_valid r3)"

text \<open>The bytes of an ASCII literal of the source.\<close>

definition ascii :: "string \<Rightarrow> bytes" where
  "ascii s = map (\<lambda>c. word_of_nat (of_char c)) s"

lemma length_ascii [simp]: "length (ascii s) = length s"
  by (simp add: ascii_def)

lemma utf8_valid_ascii: "\<forall>b\<in>set bs. b < 0x80 \<Longrightarrow> utf8_valid bs"
  by (induction bs) auto

section \<open>Trimming\<close>

text \<open>\<^verbatim>\<open>str::trim\<close>: the encodings of the code points with the Unicode property White_Space.\<close>

definition white_space :: "bytes list" where
  "white_space =
    [[0x09], [0x0A], [0x0B], [0x0C], [0x0D], [0x20], [0xC2, 0x85], [0xC2, 0xA0], [0xE1, 0x9A, 0x80]]
    @ map (\<lambda>b. [0xE2, 0x80, b]) [0x80, 0x81, 0x82, 0x83, 0x84, 0x85, 0x86, 0x87, 0x88, 0x89, 0x8A, 0xA8, 0xA9, 0xAF]
    @ [[0xE2, 0x81, 0x9F], [0xE3, 0x80, 0x80]]"

definition strip_one :: "bytes list \<Rightarrow> bytes \<Rightarrow> bytes option" where
  "strip_one ws s = map_option (\<lambda>w. drop (length w) s) (List.find (\<lambda>w. take (length w) s = w) ws)"

lemma strip_one_shrinks:
  "[] \<notin> set ws \<Longrightarrow> strip_one ws s = Some s' \<Longrightarrow> length s' < length s"
  by (auto simp: strip_one_def find_Some_iff) (metis diff_less length_greater_0_conv nth_mem take_Nil)

text \<open>The fuel is the length of the string: every stripped character takes at least one byte.\<close>

primrec strip_many :: "bytes list \<Rightarrow> nat \<Rightarrow> bytes \<Rightarrow> bytes" where
  "strip_many ws 0 s = s"
| "strip_many ws (Suc n) s = (case strip_one ws s of None \<Rightarrow> s | Some s' \<Rightarrow> strip_many ws n s')"

definition str_trim :: "rstring \<Rightarrow> rstring" where
  "str_trim s =
    (let s1 = strip_many white_space (length s) s
     in rev (strip_many (map rev white_space) (length s1) (rev s1)))"

lemma strip_many_stops:
  "[] \<notin> set ws \<Longrightarrow> length s \<le> n \<Longrightarrow> strip_one ws (strip_many ws n s) = None"
proof (induction n arbitrary: s)
  case 0
  then show ?case using strip_one_shrinks [of ws s] by (cases "strip_one ws s") auto
next
  case (Suc n)
  show ?case
  proof (cases "strip_one ws s")
    case (Some s')
    then show ?thesis using Suc.IH [of s'] Suc.prems strip_one_shrinks [OF Suc.prems(1) Some] by simp
  qed simp
qed

end
