(* ===== verification/Crypto_Base.thy ===== *)
theory Crypto_Base
  imports Cypher_Prelude
begin

text \<open>
  The cryptographic libraries the program calls (HKDF-SHA256, AES-256-GCM, X25519, Ed25519, SHA-256,
  HMAC-SHA256) are parameters, collected in the record \<^verbatim>\<open>crypto\<close>.  \<^verbatim>\<open>crypto_ok\<close> states what
  their documentation promises and what the program relies on: output sizes, that opening inverts
  sealing, that Diffie-Hellman commutes, that a signature verifies under its own key.  It says
  nothing about secrecy.  \<^verbatim>\<open>demo_crypto\<close> is a concrete instance that meets the laws.
  The theory also holds \<^verbatim>\<open>crates/cypher-crypto/src/aead.rs\<close>.
\<close>

section \<open>Primitives\<close>

record crypto =
  hkdf :: "bytes option \<Rightarrow> bytes \<Rightarrow> bytes \<Rightarrow> nat \<Rightarrow> bytes"
  gcm_seal :: "bytes \<Rightarrow> bytes \<Rightarrow> bytes \<Rightarrow> bytes \<Rightarrow> bytes option"
  gcm_open :: "bytes \<Rightarrow> bytes \<Rightarrow> bytes \<Rightarrow> bytes \<Rightarrow> bytes option"
  x25519 :: "bytes \<Rightarrow> bytes \<Rightarrow> bytes"
  x25519_public :: "bytes \<Rightarrow> bytes"
  ed_public :: "bytes \<Rightarrow> bytes"
  ed_valid_key :: "bytes \<Rightarrow> bool"
  ed_sign :: "bytes \<Rightarrow> bytes \<Rightarrow> bytes"
  ed_verify :: "bytes \<Rightarrow> bytes \<Rightarrow> bytes \<Rightarrow> bool"
  sha256 :: "bytes \<Rightarrow> bytes"
  hmac :: "bytes \<Rightarrow> bytes \<Rightarrow> bytes"

definition crypto_ok :: "crypto \<Rightarrow> bool" where
  "crypto_ok C \<longleftrightarrow>
    (\<forall>salt ikm info n. length (hkdf C salt ikm info n) = n)
    \<and> (\<forall>k n p a. length p \<le> 2 ^ 36 \<longrightarrow> (\<exists>c. gcm_seal C k n p a = Some c))
    \<and> (\<forall>k n p a c. gcm_seal C k n p a = Some c \<longrightarrow> gcm_open C k n c a = Some p \<and> length c = length p + 16)
    \<and> (\<forall>k n p a c. gcm_open C k n c a = Some p \<longrightarrow> gcm_seal C k n p a = Some c)
    \<and> (\<forall>a b. x25519 C a (x25519_public C b) = x25519 C b (x25519_public C a))
    \<and> (\<forall>s p. length (x25519 C s p) = 32)
    \<and> (\<forall>s. length (x25519_public C s) = 32)
    \<and> (\<forall>s. length (ed_public C s) = 32 \<and> ed_valid_key C (ed_public C s))
    \<and> (\<forall>s m. length (ed_sign C s m) = 64 \<and> ed_verify C (ed_public C s) m (ed_sign C s m))
    \<and> (\<forall>m. length (sha256 C m) = 32)
    \<and> (\<forall>k m. length (hmac C k m) = 32)"

lemma crypto_okD:
  assumes "crypto_ok C"
  shows hkdf_length: "length (hkdf C salt ikm info n) = n"
    and gcm_seal_total: "length p \<le> 2 ^ 36 \<Longrightarrow> \<exists>c. gcm_seal C k nc p a = Some c"
    and gcm_open_seal: "gcm_seal C k nc p a = Some c \<Longrightarrow> gcm_open C k nc c a = Some p"
    and gcm_seal_length: "gcm_seal C k nc p a = Some c \<Longrightarrow> length c = length p + 16"
    and gcm_seal_open: "gcm_open C k nc c a = Some p \<Longrightarrow> gcm_seal C k nc p a = Some c"
    and x25519_commute: "x25519 C s (x25519_public C t) = x25519 C t (x25519_public C s)"
    and x25519_length: "length (x25519 C s q) = 32"
    and x25519_public_length: "length (x25519_public C s) = 32"
    and ed_public_length: "length (ed_public C s) = 32"
    and ed_public_valid: "ed_valid_key C (ed_public C s)"
    and ed_sign_length: "length (ed_sign C s m) = 64"
    and ed_verify_sign: "ed_verify C (ed_public C s) m (ed_sign C s m)"
    and sha256_length: "length (sha256 C m) = 32"
    and hmac_length: "length (hmac C k m) = 32"
  using assms unfolding crypto_ok_def by - meson+

text \<open>An instance: exclusive or for the exchange, a tag that repeats key, nonce and associated data.\<close>

definition fit :: "nat \<Rightarrow> bytes \<Rightarrow> bytes" where
  "fit n bs = take n (bs @ replicate n 0)"

definition demo_crypto :: crypto where
  "demo_crypto = \<lparr>
    hkdf = (\<lambda>salt ikm info n. fit n (case salt of None \<Rightarrow> ikm @ info | Some s \<Rightarrow> ikm @ s @ info)),
    gcm_seal = (\<lambda>k n p a. Some (p @ fit 16 (k @ n @ a))),
    gcm_open = (\<lambda>k n c a.
      if 16 \<le> length c \<and> drop (length c - 16) c = fit 16 (k @ n @ a)
      then Some (take (length c - 16) c) else None),
    x25519 = (\<lambda>s p. map2 (+) (fit 32 s) (fit 32 p)),
    x25519_public = fit 32,
    ed_public = fit 32,
    ed_valid_key = (\<lambda>k. length k = 32),
    ed_sign = (\<lambda>s m. fit 64 (fit 32 s @ m)),
    ed_verify = (\<lambda>k m s. s = fit 64 (k @ m)),
    sha256 = fit 32,
    hmac = (\<lambda>k m. fit 32 (fit 16 k @ fit 16 (drop 32 m)))\<rparr>"

lemma length_fit [simp]: "length (fit n bs) = n"
  by (simp add: fit_def)

lemma fit_fit [simp]: "fit n (fit n bs) = fit n bs"
  by (simp add: fit_def)

lemma map2_plus_commute: "map2 (+) xs ys = map2 (+) ys (xs :: u8 list)"
  by (induction xs ys rule: list_induct2') (simp_all add: add.commute)

lemma demo_open_seal:
  "gcm_open demo_crypto k n c a = Some p \<longleftrightarrow> gcm_seal demo_crypto k n p a = Some c"
proof -
  have "(16 \<le> length c \<and> drop (length c - 16) c = t \<and> take (length c - 16) c = p) \<longleftrightarrow> p @ t = c"
    if "length t = 16" for t :: bytes
    using that by (metis append_take_drop_id append_eq_conv_conj diff_add_inverse2 le_add2 length_append)
  from this [of "fit 16 (k @ n @ a)"] show ?thesis by (auto simp: demo_crypto_def)
qed

lemma demo_crypto_ok [simp]: "crypto_ok demo_crypto"
  unfolding crypto_ok_def demo_open_seal
  by (simp add: demo_crypto_def map2_plus_commute)

section \<open>Authenticated encryption\<close>

definition derive_nonce :: "crypto \<Rightarrow> bytes \<Rightarrow> bytes" where
  "derive_nonce C nonce_material
    = hkdf C (Some (ascii ''cypher-aead-nonce'')) nonce_material (ascii ''aes-gcm-nonce'') 12"

definition aead_encrypt :: "crypto \<Rightarrow> bytes \<Rightarrow> bytes \<Rightarrow> bytes \<Rightarrow> bytes \<Rightarrow> bytes result" where
  "aead_encrypt C key nonce_material plaintext aad =
    ok_or (gcm_seal C key (derive_nonce C nonce_material) plaintext aad)
      (Crypto ''AES-GCM encryption failed'')"

definition aead_decrypt :: "crypto \<Rightarrow> bytes \<Rightarrow> bytes \<Rightarrow> bytes \<Rightarrow> bytes \<Rightarrow> bytes result" where
  "aead_decrypt C key nonce_material ciphertext aad =
    ok_or (gcm_open C key (derive_nonce C nonce_material) ciphertext aad)
      (Crypto ''AES-GCM decryption failed'')"

lemma aead_decrypt_encrypt:
  "crypto_ok C \<Longrightarrow> aead_encrypt C k n p a = Ok c \<Longrightarrow> aead_decrypt C k n c a = Ok p"
  by (simp add: aead_encrypt_def aead_decrypt_def gcm_open_seal)

lemma aead_encrypt_decrypt:
  "crypto_ok C \<Longrightarrow> aead_decrypt C k n c a = Ok p \<Longrightarrow> aead_encrypt C k n p a = Ok c"
  by (simp add: aead_encrypt_def aead_decrypt_def gcm_seal_open)

lemma aead_encrypt_total:
  "crypto_ok C \<Longrightarrow> length p \<le> 2 ^ 36 \<Longrightarrow> \<exists>c. aead_encrypt C k n p a = Ok c"
  using gcm_seal_total [of C p k "derive_nonce C n" a] by (auto simp: aead_encrypt_def)

lemma aead_encrypt_length:
  "crypto_ok C \<Longrightarrow> aead_encrypt C k n p a = Ok c \<Longrightarrow> length c = length p + 16"
  by (simp add: aead_encrypt_def gcm_seal_length)

end
