(* ===== verification/Crypto_Identity.thy ===== *)
theory Crypto_Identity
  imports Crypto_Base
begin

text \<open>
  Identities and key agreement: \<^verbatim>\<open>crates/cypher-crypto/src/identity.rs\<close> (seed derivations, key
  pairs, the 160-byte \<^verbatim>\<open>KeyBundle\<close>) and \<^verbatim>\<open>x3dh.rs\<close> (initiator, responder and mutual agreement).
  Both sides of each agreement compute the same secret, a bundle survives its wire format, and a
  bundle built by its owner verifies.
\<close>

section \<open>Identity keys\<close>

record IdentityKeyPair =
  signing_key :: bytes
  dh_secret :: bytes

definition hkdf_info :: "crypto \<Rightarrow> bytes \<Rightarrow> string \<Rightarrow> bytes" where
  "hkdf_info C seed info = hkdf C None seed (ascii info) 32"

definition from_seed :: "crypto \<Rightarrow> bytes \<Rightarrow> IdentityKeyPair" where
  "from_seed C seed = \<lparr>signing_key = hkdf_info C seed ''cypher-ed25519'',
                       dh_secret = hkdf_info C seed ''cypher-x25519''\<rparr>"

definition derive_identity :: "crypto \<Rightarrow> bytes \<Rightarrow> IdentityKeyPair" where
  "derive_identity C seed = from_seed C seed"

definition derive_storage_key :: "crypto \<Rightarrow> bytes \<Rightarrow> bytes" where
  "derive_storage_key C seed = hkdf_info C seed ''cypher-storage-key''"

definition derive_inbox_id :: "crypto \<Rightarrow> bytes \<Rightarrow> bytes" where
  "derive_inbox_id C seed = hkdf_info C seed ''cypher-inbox''"

text \<open>The mnemonic codec is a library: \<^verbatim>\<open>parse\<close> yields the entropy of a phrase, if it is valid.\<close>

definition from_mnemonic :: "('p \<Rightarrow> bytes option) \<Rightarrow> 'p \<Rightarrow> bytes result" where
  "from_mnemonic parse phrase =
    and_then (ok_or (parse phrase) (Crypto ''invalid mnemonic'')) (\<lambda>entropy.
      if length entropy \<noteq> 32 then Err (Crypto ''expected 32-byte entropy'') else Ok entropy)"

definition verifying_key :: "crypto \<Rightarrow> IdentityKeyPair \<Rightarrow> bytes" where
  "verifying_key C i = ed_public C (signing_key i)"

definition dh_public_key :: "crypto \<Rightarrow> IdentityKeyPair \<Rightarrow> bytes" where
  "dh_public_key C i = x25519_public C (dh_secret i)"

definition peer_id :: "crypto \<Rightarrow> IdentityKeyPair \<Rightarrow> bytes" where
  "peer_id C i = verifying_key C i"

definition sign :: "crypto \<Rightarrow> IdentityKeyPair \<Rightarrow> bytes \<Rightarrow> bytes" where
  "sign C i data = ed_sign C (signing_key i) data"

definition verify_with_key :: "crypto \<Rightarrow> bytes \<Rightarrow> bytes \<Rightarrow> bytes \<Rightarrow> unit result" where
  "verify_with_key C vk data sig =
    (if ed_verify C vk data sig then Ok () else Err (Crypto ''Signature verification failed''))"

definition verify :: "crypto \<Rightarrow> IdentityKeyPair \<Rightarrow> bytes \<Rightarrow> bytes \<Rightarrow> unit result" where
  "verify C i data sig =
    (if ed_verify C (verifying_key C i) data sig then Ok ()
     else Err (Crypto ''Signature verification failed''))"

text \<open>\<^verbatim>\<open>SignedPreKey\<close> and \<^verbatim>\<open>EphemeralKeyPair\<close> wrap an X25519 secret.\<close>

record x25519_pair =
  secret :: bytes

definition public_key :: "crypto \<Rightarrow> x25519_pair \<Rightarrow> bytes" where
  "public_key C k = x25519_public C (secret k)"

section \<open>Key bundles\<close>

record KeyBundle =
  identity_key :: bytes
  identity_dh_key :: bytes
  signed_prekey :: bytes
  prekey_signature :: bytes

definition KEY_BUNDLE_BYTES :: nat where "KEY_BUNDLE_BYTES = 160"

definition to_bytes :: "KeyBundle \<Rightarrow> bytes" where
  "to_bytes b = identity_key b @ identity_dh_key b @ signed_prekey b @ prekey_signature b"

definition from_bytes :: "crypto \<Rightarrow> bytes \<Rightarrow> KeyBundle result" where
  "from_bytes C data =
    (if length data < KEY_BUNDLE_BYTES then Err (Crypto ''KeyBundle too short'')
     else
       let ik = slice_of 0 32 data; ik_dh = slice_of 32 64 data;
           spk = slice_of 64 96 data; sig = slice_of 96 160 data
       in if \<not> ed_valid_key C ik then Err (Crypto ''invalid identity key'')
          else Ok \<lparr>identity_key = ik, identity_dh_key = ik_dh, signed_prekey = spk,
                   prekey_signature = sig\<rparr>)"

definition bundle_new :: "crypto \<Rightarrow> IdentityKeyPair \<Rightarrow> x25519_pair \<Rightarrow> KeyBundle" where
  "bundle_new C i spk =
    \<lparr>identity_key = verifying_key C i, identity_dh_key = dh_public_key C i,
     signed_prekey = public_key C spk, prekey_signature = sign C i (public_key C spk)\<rparr>"

definition bundle_verify :: "crypto \<Rightarrow> KeyBundle \<Rightarrow> unit result" where
  "bundle_verify C b = verify_with_key C (identity_key b) (signed_prekey b) (prekey_signature b)"

text \<open>The sizes the fixed arrays of the struct have, and a key that is a curve point.\<close>

definition bundle_wf :: "crypto \<Rightarrow> KeyBundle \<Rightarrow> bool" where
  "bundle_wf C b \<longleftrightarrow> length (identity_key b) = 32 \<and> length (identity_dh_key b) = 32
     \<and> length (signed_prekey b) = 32 \<and> length (prekey_signature b) = 64
     \<and> ed_valid_key C (identity_key b)"

lemma length_to_bytes: "bundle_wf C b \<Longrightarrow> length (to_bytes b) = KEY_BUNDLE_BYTES"
  by (simp add: bundle_wf_def to_bytes_def KEY_BUNDLE_BYTES_def)

lemma from_bytes_to_bytes:
  assumes "bundle_wf C b"
  shows "from_bytes C (to_bytes b @ trail) = Ok b"
proof -
  let ?d = "to_bytes b @ trail"
  have "slice_of 0 32 ?d = identity_key b" "slice_of 32 64 ?d = identity_dh_key b"
       "slice_of 64 96 ?d = signed_prekey b" "slice_of 96 160 ?d = prekey_signature b"
    using assms by (simp_all add: bundle_wf_def to_bytes_def slice_of_def)
  with assms show ?thesis
    by (simp add: from_bytes_def Let_def bundle_wf_def to_bytes_def KEY_BUNDLE_BYTES_def)
qed

lemma bundle_new_wf: "crypto_ok C \<Longrightarrow> bundle_wf C (bundle_new C i spk)"
  by (simp add: bundle_wf_def bundle_new_def verifying_key_def dh_public_key_def public_key_def
      sign_def ed_public_length ed_public_valid x25519_public_length ed_sign_length)

section \<open>Key agreement\<close>

definition x3dh_kdf :: "crypto \<Rightarrow> bytes \<Rightarrow> bytes" where
  "x3dh_kdf C dh_concat = hkdf C (Some (ascii ''x3dh-salt'')) dh_concat (ascii ''x3dh-shared-secret'') 32"

definition x3dh_initiator ::
  "crypto \<Rightarrow> IdentityKeyPair \<Rightarrow> x25519_pair \<Rightarrow> bytes \<Rightarrow> bytes \<Rightarrow> bytes" where
  "x3dh_initiator C our_ik our_ek their_ik_dh their_spk =
    (let dh1 = x25519 C (dh_secret our_ik) their_spk;
         dh2 = x25519 C (secret our_ek) their_ik_dh;
         dh3 = x25519 C (secret our_ek) their_spk
     in x3dh_kdf C (dh1 @ dh2 @ dh3))"

definition x3dh_responder ::
  "crypto \<Rightarrow> IdentityKeyPair \<Rightarrow> x25519_pair \<Rightarrow> bytes \<Rightarrow> bytes \<Rightarrow> bytes" where
  "x3dh_responder C our_ik our_spk their_ik_dh their_ek =
    (let dh1 = x25519 C (secret our_spk) their_ik_dh;
         dh2 = x25519 C (dh_secret our_ik) their_ek;
         dh3 = x25519 C (secret our_spk) their_ek
     in x3dh_kdf C (dh1 @ dh2 @ dh3))"

text \<open>Rust's order on byte arrays.\<close>

fun lex_le :: "bytes \<Rightarrow> bytes \<Rightarrow> bool" where
  "lex_le [] ys = True"
| "lex_le (x # xs) [] = False"
| "lex_le (x # xs) (y # ys) = (x < y \<or> x = y \<and> lex_le xs ys)"

abbreviation lex_less :: "bytes \<Rightarrow> bytes \<Rightarrow> bool" where
  "lex_less xs ys \<equiv> lex_le xs ys \<and> xs \<noteq> ys"

lemma lex_le_total: "lex_le xs ys \<or> lex_le ys xs"
  by (induction xs ys rule: lex_le.induct) auto

lemma lex_le_antisym: "lex_le xs ys \<Longrightarrow> lex_le ys xs \<Longrightarrow> xs = ys"
proof (induction xs ys rule: lex_le.induct)
  case (1 ys)
  then show ?case by (cases ys) simp_all
qed auto

definition x3dh_mutual :: "crypto \<Rightarrow> IdentityKeyPair \<Rightarrow> bytes \<Rightarrow> bytes \<Rightarrow> bytes \<Rightarrow> bytes" where
  "x3dh_mutual C our_ik our_spk_secret their_ik_dh their_spk =
    (let dh_ik = x25519 C (dh_secret our_ik) their_ik_dh;
         dh_cross_a = x25519 C (dh_secret our_ik) their_spk;
         dh_cross_b = x25519 C our_spk_secret their_ik_dh;
         (fst', snd') = if lex_le dh_cross_a dh_cross_b then (dh_cross_a, dh_cross_b)
                        else (dh_cross_b, dh_cross_a)
     in x3dh_kdf C (dh_ik @ fst' @ snd'))"

lemma x3dh_mutual_sym:
  assumes "crypto_ok C"
  shows "x3dh_mutual C a sa (dh_public_key C b) (x25519_public C sb)
    = x3dh_mutual C b sb (dh_public_key C a) (x25519_public C sa)"
proof -
  let ?ab = "x25519 C (dh_secret a) (x25519_public C sb)"
  let ?ba = "x25519 C (dh_secret b) (x25519_public C sa)"
  have "x25519 C sb (x25519_public C (dh_secret a)) = ?ab"
    "x25519 C sa (x25519_public C (dh_secret b)) = ?ba"
    "x25519 C (dh_secret b) (x25519_public C (dh_secret a))
      = x25519 C (dh_secret a) (x25519_public C (dh_secret b))"
    by (rule x25519_commute [OF assms])+
  then show ?thesis
    using lex_le_total [of ?ab ?ba] lex_le_antisym [of ?ab ?ba]
    by (auto simp: x3dh_mutual_def dh_public_key_def Let_def)
qed

section \<open>Properties\<close>

text \<open>Key agreement agrees: the X3DH initiator and responder, each using the other's public keys,
  derive the same secret, and so do the two peers of the mutual agreement whichever of them calls
  it (the sorted cross terms make the concatenation symmetric).\<close>

theorem x3dh_agreement:
  assumes "crypto_ok C"
  shows "x3dh_initiator C a ek (dh_public_key C b) (public_key C spk)
         = x3dh_responder C b spk (dh_public_key C a) (public_key C ek)
       \<and> x3dh_mutual C a (secret spa) (dh_public_key C b) (public_key C spb)
         = x3dh_mutual C b (secret spb) (dh_public_key C a) (public_key C spa)"
  using x3dh_mutual_sym [OF assms]
  by (simp add: x3dh_initiator_def x3dh_responder_def dh_public_key_def public_key_def Let_def
      x25519_commute [OF assms, of "dh_secret a"] x25519_commute [OF assms, of "secret ek"])

theorem x3dh_agreement_witness:
  "x3dh_mutual demo_crypto \<lparr>signing_key = [1], dh_secret = [2]\<rparr> [3]
      (dh_public_key demo_crypto \<lparr>signing_key = [4], dh_secret = [5]\<rparr>)
      (public_key demo_crypto \<lparr>secret = [6]\<rparr>)
   = x3dh_mutual demo_crypto \<lparr>signing_key = [4], dh_secret = [5]\<rparr> [6]
      (dh_public_key demo_crypto \<lparr>signing_key = [1], dh_secret = [2]\<rparr>)
      (public_key demo_crypto \<lparr>secret = [3]\<rparr>)"
  using x3dh_agreement [OF demo_crypto_ok, of "\<lparr>signing_key = [1], dh_secret = [2]\<rparr>" _
      "\<lparr>signing_key = [4], dh_secret = [5]\<rparr>" _ "\<lparr>secret = [3]\<rparr>" "\<lparr>secret = [6]\<rparr>"]
  by simp

text \<open>A bundle that its owner builds takes exactly 160 bytes, is read back unchanged from them (also
  with trailing bytes), and verifies; a shorter buffer is refused.\<close>

theorem key_bundle_roundtrip:
  assumes "crypto_ok C"
  shows "length (to_bytes (bundle_new C i spk)) = KEY_BUNDLE_BYTES
    \<and> from_bytes C (to_bytes (bundle_new C i spk) @ trail) = Ok (bundle_new C i spk)
    \<and> bundle_verify C (bundle_new C i spk) = Ok ()
    \<and> (\<forall>n < KEY_BUNDLE_BYTES.
         from_bytes C (take n (to_bytes (bundle_new C i spk))) = Err (Crypto ''KeyBundle too short''))"
proof -
  note wf = bundle_new_wf [OF assms, of i spk]
  have "bundle_verify C (bundle_new C i spk) = Ok ()"
    by (simp add: bundle_verify_def bundle_new_def verify_with_key_def verifying_key_def sign_def
        ed_verify_sign [OF assms])
  with length_to_bytes [OF wf] from_bytes_to_bytes [OF wf] show ?thesis
    by (simp add: from_bytes_def)
qed

theorem key_bundle_roundtrip_witness:
  "bundle_verify demo_crypto
      (bundle_new demo_crypto \<lparr>signing_key = [1], dh_secret = [2]\<rparr> \<lparr>secret = [3]\<rparr>) = Ok ()"
  using key_bundle_roundtrip [OF demo_crypto_ok] by blast

end
