(* ===== verification/Onion_Client.thy ===== *)
theory Onion_Client
  imports Crypto_Identity
begin

unbundle bit_operations_syntax

text \<open>
  The client side of the one-hop onion transport (\<^verbatim>\<open>crates/cypher-client-core/src/onion\<close>): bucket
  padding (\<^verbatim>\<open>padding.rs\<close>), circuits with their nonce counter (\<^verbatim>\<open>circuit.rs\<close>), and the request and
  response layers (\<^verbatim>\<open>encoder.rs\<close>, \<^verbatim>\<open>decoder.rs\<close>).  Random identifiers and secrets are arguments.
\<close>

section \<open>Padding\<close>

definition PADDING_BUCKETS :: "nat list" where
  "PADDING_BUCKETS = [512, 1024, 2048, 4096, 8192]"

definition pad :: "bytes \<Rightarrow> bytes result" where
  "pad plaintext =
    (let needed = length plaintext + 2 in
     case find (\<lambda>b. b \<ge> needed) PADDING_BUCKETS of
       None \<Rightarrow> Err (Protocol ''plaintext too large for padding'')
     | Some bucket \<Rightarrow>
         let buf = to_le 2 (word_of_nat (length plaintext) :: u16) @ plaintext
         in Ok (buf @ replicate (bucket - length buf) 0))"

definition unpad :: "bytes \<Rightarrow> bytes result" where
  "unpad padded =
    (if length padded < 2 then Err (Protocol ''padded payload too short'')
     else
       let len = unat (from_le [padded ! 0, padded ! 1] :: u16) in
       if 2 + len > length padded then Err (Protocol ''padding length prefix exceeds payload size'')
       else Ok (slice_of 2 (2 + len) padded))"

lemma find_bucket:
  "n \<le> 8192 \<Longrightarrow> \<exists>b. find (\<lambda>b. b \<ge> n) PADDING_BUCKETS = Some b \<and> b \<in> set PADDING_BUCKETS \<and> n \<le> b
     \<and> (\<forall>b'\<in>set PADDING_BUCKETS. n \<le> b' \<longrightarrow> b \<le> b')"
  by (auto simp: PADDING_BUCKETS_def)

lemma pad_Ok:
  assumes "length p \<le> 8190"
  obtains b where "find (\<lambda>b. b \<ge> length p + 2) PADDING_BUCKETS = Some b" "length p + 2 \<le> b"
    "b \<in> set PADDING_BUCKETS" "\<forall>b'\<in>set PADDING_BUCKETS. length p + 2 \<le> b' \<longrightarrow> b \<le> b'"
    "pad p = Ok (to_le 2 (word_of_nat (length p) :: u16) @ p @ replicate (b - 2 - length p) 0)"
proof -
  from assms find_bucket [of "length p + 2"] obtain b where
    "find (\<lambda>b. b \<ge> length p + 2) PADDING_BUCKETS = Some b" "length p + 2 \<le> b"
    "b \<in> set PADDING_BUCKETS" "\<forall>b'\<in>set PADDING_BUCKETS. length p + 2 \<le> b' \<longrightarrow> b \<le> b'"
    by auto
  then show thesis by (intro that [of b]) (simp_all add: pad_def Let_def)
qed

lemma unpad_pad_bytes:
  assumes "length p < 2 ^ 16"
  shows "unpad (to_le 2 (word_of_nat (length p) :: u16) @ p @ z) = Ok p"
proof -
  let ?l = "word_of_nat (length p) :: u16"
  obtain a b where ab: "to_le 2 ?l = [a, b]"
    by (simp add: byte_eval)
  have "from_le [a, b] = ?l" using from_le_to_le [of 2 ?l] ab by simp
  then have "unat (from_le [a, b] :: u16) = length p" using assms by (simp add: unat_of_nat_small)
  then show ?thesis by (simp add: unpad_def ab slice_of_def)
qed

section \<open>Circuits\<close>

record Circuit =
  circuit_id :: bytes
  circuit_key :: bytes
  ephemeral_public :: bytes
  seq :: u64

definition kdf_circuit :: "crypto \<Rightarrow> bytes \<Rightarrow> bytes" where
  "kdf_circuit C dh_shared = hkdf C (Some (ascii ''cypher-circuit-v1'')) dh_shared (ascii ''circuit-key'') 32"

definition circuit_new :: "crypto \<Rightarrow> bytes \<Rightarrow> bytes \<Rightarrow> bytes \<Rightarrow> Circuit" where
  "circuit_new C ek_secret rnd_id relay_static_pk =
    \<lparr>circuit_id = rnd_id, circuit_key = kdf_circuit C (x25519 C ek_secret relay_static_pk),
     ephemeral_public = x25519_public C ek_secret, seq = 0\<rparr>"

definition derive_relay_side :: "crypto \<Rightarrow> bytes \<Rightarrow> bytes \<Rightarrow> bytes \<Rightarrow> Circuit" where
  "derive_relay_side C relay_static_secret client_ephemeral_pk cid =
    \<lparr>circuit_id = cid, circuit_key = kdf_circuit C (x25519 C relay_static_secret client_ephemeral_pk),
     ephemeral_public = client_ephemeral_pk, seq = 0\<rparr>"

definition request_nonce :: "bytes \<Rightarrow> u64 \<Rightarrow> bytes" where
  "request_nonce cid s = cid @ u64_le s"

definition next_nonce_material :: "Circuit \<Rightarrow> bytes \<times> Circuit" where
  "next_nonce_material c = (request_nonce (circuit_id c) (seq c), c\<lparr>seq := seq c + 1\<rparr>)"

definition response_nonce_material :: "bytes \<Rightarrow> u64 \<Rightarrow> bytes" where
  "response_nonce_material cid seq_no = cid @ u64_le (seq_no OR push_bit 63 1)"

lemma bit_63: "bit (push_bit 63 1 :: u64) 63"
  by (simp add: bit_push_bit_iff)

lemma response_seq_top: "bit (s OR push_bit 63 1 :: u64) 63"
  using bit_63 by (simp add: bit_or_iff)

lemma small_seq_top: "unat s < 2 ^ 63 \<Longrightarrow> \<not> bit (s :: u64) 63"
proof
  assume lt: "unat s < 2 ^ 63" and "bit s 63"
  then have "bit (unat s) 63" by (simp add: bit_unsigned_iff)
  then have "odd (unat s div 2 ^ 63)" by (rule bit_iff_odd [THEN iffD1])
  with div_less [OF lt] show False by simp
qed

lemma nonces_separate:
  assumes "length cid = length cid'" "unat s < 2 ^ 63"
  shows "request_nonce cid s \<noteq> response_nonce_material cid' t"
proof
  assume "request_nonce cid s = response_nonce_material cid' t"
  then have "s = (t OR push_bit 63 1)"
    using assms(1) by (simp add: request_nonce_def response_nonce_material_def u64le.enc_inject)
  then show False using small_seq_top [OF assms(2)] response_seq_top [of t] by simp
qed

lemma request_nonce_inject:
  "length cid = length cid' \<Longrightarrow> request_nonce cid s = request_nonce cid' t \<longleftrightarrow> cid = cid' \<and> s = t"
  by (simp add: request_nonce_def u64le.enc_inject)

section \<open>The request and response layers\<close>

definition ONION_PREFIX :: u8 where "ONION_PREFIX = 0x02"
definition SUBTYPE_RELAY_REQUEST :: u8 where "SUBTYPE_RELAY_REQUEST = 0x02"
definition SUBTYPE_RELAY_RESPONSE :: u8 where "SUBTYPE_RELAY_RESPONSE = 0x03"

definition onion_inner :: "u8 \<Rightarrow> bytes \<Rightarrow> bytes \<Rightarrow> bytes" where
  "onion_inner subtype cid pl = subtype # cid @ u32_le (word_of_nat (length pl)) @ pl"

definition encode_relay_request :: "crypto \<Rightarrow> Circuit \<Rightarrow> bytes \<Rightarrow> Circuit \<times> bytes result" where
  "encode_relay_request C c request_payload =
    (let (nonce, c') = next_nonce_material c;
         seq_no = slice_of 16 24 nonce;
         inner = onion_inner SUBTYPE_RELAY_REQUEST (circuit_id c) request_payload
     in (c', and_then (aead_encrypt C (circuit_key c) nonce inner (circuit_id c)) (\<lambda>ciphertext.
              Ok (ONION_PREFIX # ephemeral_public c @ circuit_id c @ seq_no @ ciphertext))))"

definition encode_relay_response :: "crypto \<Rightarrow> bytes \<Rightarrow> bytes \<Rightarrow> u64 \<Rightarrow> bytes \<Rightarrow> bytes result" where
  "encode_relay_response C key cid seq_no response_payload =
    and_then (aead_encrypt C key (response_nonce_material cid seq_no)
                (onion_inner SUBTYPE_RELAY_RESPONSE cid response_payload) cid)
      (\<lambda>ciphertext. Ok (ONION_PREFIX # u64_le seq_no @ ciphertext))"

definition extract_request_header :: "bytes \<Rightarrow> (bytes \<times> bytes \<times> u64) result" where
  "extract_request_header data =
    (if length data < 57 then Err (Protocol ''onion request too short for header'')
     else if data ! 0 \<noteq> ONION_PREFIX then Err (Protocol ''missing onion prefix'')
     else Ok (slice_of 1 33 data, slice_of 33 49 data, from_le (slice_of 49 57 data)))"

definition decode_relay_request :: "crypto \<Rightarrow> bytes \<Rightarrow> bytes \<Rightarrow> u64 \<Rightarrow> bytes \<Rightarrow> bytes result" where
  "decode_relay_request C key cid seq_no data =
    (if length data < 57 then Err (Protocol ''onion request too short'')
     else if data ! 0 \<noteq> ONION_PREFIX then Err (Protocol ''missing onion prefix'')
     else and_then (aead_decrypt C key (request_nonce cid seq_no) (drop 57 data) cid) (\<lambda>inner.
       if inner = [] \<or> inner ! 0 \<noteq> SUBTYPE_RELAY_REQUEST then Err (Protocol ''unexpected onion subtype'')
       else if length inner < 1 + 16 + 4 then Err (Protocol ''onion inner too short'')
       else if slice_of 1 17 inner \<noteq> cid then Err (Protocol ''circuit_id mismatch in onion'')
       else
         let payload_len = unat (from_le (slice_of 17 21 inner) :: u32) in
         if 21 + payload_len > length inner then Err (Protocol ''onion payload length exceeds inner'')
         else Ok (slice_of 21 (21 + payload_len) inner)))"

definition decode_relay_response :: "crypto \<Rightarrow> bytes \<Rightarrow> bytes \<Rightarrow> bytes \<Rightarrow> bytes result" where
  "decode_relay_response C key cid data =
    (if length data < 9 \<or> data ! 0 \<noteq> ONION_PREFIX then Err (Protocol ''missing onion prefix in response'')
     else
       let seq_no = from_le (slice_of 1 9 data) in
       and_then (aead_decrypt C key (response_nonce_material cid seq_no) (drop 9 data) cid) (\<lambda>inner.
         if inner = [] \<or> inner ! 0 \<noteq> SUBTYPE_RELAY_RESPONSE
         then Err (Protocol ''unexpected onion response subtype'')
         else if length inner < 1 + 16 + 4 then Err (Protocol ''onion response inner too short'')
         else
           let payload_len = unat (from_le (slice_of 17 21 inner) :: u32) in
           if 21 + payload_len > length inner then Err (Protocol ''onion response payload length invalid'')
           else Ok (slice_of 21 (21 + payload_len) inner)))"

text \<open>Reading the inner layer back, as the client and the relay do.\<close>

lemma onion_inner_fields:
  assumes "length cid = 16" "length pl < 2 ^ 32"
  shows "onion_inner st cid pl \<noteq> []" "onion_inner st cid pl ! 0 = st"
    "length (onion_inner st cid pl) = 21 + length pl"
    "slice_of 1 17 (onion_inner st cid pl) = cid"
    "unat (from_le (slice_of 17 21 (onion_inner st cid pl)) :: u32) = length pl"
    "slice_of 21 (21 + length pl) (onion_inner st cid pl) = pl"
proof -
  let ?l = "word_of_nat (length pl) :: u32"
  have "slice_of 17 21 (onion_inner st cid pl) = u32_le ?l"
    using assms by (simp add: onion_inner_def slice_of_def)
  then show "unat (from_le (slice_of 17 21 (onion_inner st cid pl)) :: u32) = length pl"
    using assms by (simp add: u32le.dec_enc unat_of_nat_small)
qed (use assms in \<open>simp_all add: onion_inner_def slice_of_def\<close>)

lemma decode_encode_response:
  assumes C: "crypto_ok C" and cid: "length cid = 16" and pl: "length pl < 2 ^ 32"
    and enc: "encode_relay_response C key cid s pl = Ok w"
  shows "decode_relay_response C key cid w = Ok pl"
proof -
  from enc obtain ct where ct: "aead_encrypt C key (response_nonce_material cid s)
      (onion_inner SUBTYPE_RELAY_RESPONSE cid pl) cid = Ok ct" and w: "w = ONION_PREFIX # u64_le s @ ct"
    by (auto simp: encode_relay_response_def)
  have h: "\<not> length w < 9" "w ! 0 = ONION_PREFIX" "slice_of 1 9 w = u64_le s" "drop 9 w = ct"
    by (simp_all add: w slice_of_def)
  show ?thesis
    using aead_decrypt_encrypt [OF C ct] onion_inner_fields [OF cid pl, of SUBTYPE_RELAY_RESPONSE]
    by (simp add: decode_relay_response_def h [unfolded One_nat_def] u64le.dec_enc Let_def)
qed

lemma decode_encode_request:
  assumes C: "crypto_ok C" and cid: "length (circuit_id c) = 16" and eph: "length (ephemeral_public c) = 32"
    and pl: "length pl < 2 ^ 32" and enc: "encode_relay_request C c pl = (c', Ok w)"
  shows "extract_request_header w = Ok (ephemeral_public c, circuit_id c, seq c)
    \<and> decode_relay_request C (circuit_key c) (circuit_id c) (seq c) w = Ok pl
    \<and> c' = c\<lparr>seq := seq c + 1\<rparr>"
proof -
  from enc cid obtain ct where ct: "aead_encrypt C (circuit_key c) (request_nonce (circuit_id c) (seq c))
      (onion_inner SUBTYPE_RELAY_REQUEST (circuit_id c) pl) (circuit_id c) = Ok ct"
    and w: "w = ONION_PREFIX # ephemeral_public c @ circuit_id c @ u64_le (seq c) @ ct"
    and c': "c' = c\<lparr>seq := seq c + 1\<rparr>"
    by (auto simp: encode_relay_request_def next_nonce_material_def request_nonce_def slice_of_def)
  have h: "\<not> length w < 57" "w ! 0 = ONION_PREFIX" "slice_of 1 33 w = ephemeral_public c"
      "slice_of 33 49 w = circuit_id c" "slice_of 49 57 w = u64_le (seq c)" "drop 57 w = ct"
    using cid eph by (simp_all add: w slice_of_def)
  show ?thesis
    using aead_decrypt_encrypt [OF C ct] onion_inner_fields [OF cid pl, of SUBTYPE_RELAY_REQUEST] c'
    by (simp add: decode_relay_request_def extract_request_header_def h [unfolded One_nat_def] u64le.dec_enc Let_def)
qed

lemma encode_relay_request_total:
  "crypto_ok C \<Longrightarrow> length (circuit_id c) = 16 \<Longrightarrow> length pl < 2 ^ 32 \<Longrightarrow>
   \<exists>w. encode_relay_request C c pl = (c\<lparr>seq := seq c + 1\<rparr>, Ok w)"
  using aead_encrypt_total [of C "onion_inner SUBTYPE_RELAY_REQUEST (circuit_id c) pl"]
    onion_inner_fields(3) [of "circuit_id c" pl]
  by (fastforce simp: encode_relay_request_def next_nonce_material_def Let_def)

lemma relay_key_agrees:
  "crypto_ok C \<Longrightarrow>
   circuit_key (circuit_new C ek rid (x25519_public C rs))
     = circuit_key (derive_relay_side C rs (x25519_public C ek) rid)"
  by (simp add: circuit_new_def derive_relay_side_def x25519_commute)

section \<open>Properties\<close>

text \<open>Padding hides the length up to a bucket and is undone exactly: every plaintext of at most 8190
  bytes is padded to the smallest bucket that holds it and its length prefix, unpadding gives it
  back, and longer plaintexts are refused.\<close>

theorem padding_roundtrip:
  "(length p \<le> 8190 \<longrightarrow> (\<exists>w. pad p = Ok w \<and> unpad w = Ok p \<and> length w \<in> set PADDING_BUCKETS
       \<and> (\<forall>b\<in>set PADDING_BUCKETS. length p + 2 \<le> b \<longrightarrow> length w \<le> b)))
   \<and> (8190 < length p \<longrightarrow> pad p = Err (Protocol ''plaintext too large for padding''))"
proof (intro conjI impI)
  assume "length p \<le> 8190"
  then obtain b where b: "length p + 2 \<le> b" "b \<in> set PADDING_BUCKETS"
      "\<forall>b'\<in>set PADDING_BUCKETS. length p + 2 \<le> b' \<longrightarrow> b \<le> b'"
      "pad p = Ok (to_le 2 (word_of_nat (length p) :: u16) @ p @ replicate (b - 2 - length p) 0)"
    by (rule pad_Ok)
  moreover have "length (to_le 2 (word_of_nat (length p) :: u16) @ p @ replicate (b - 2 - length p) 0) = b"
    using b(1) by simp
  moreover have "unpad (to_le 2 (word_of_nat (length p) :: u16) @ p @ replicate (b - 2 - length p) 0) = Ok p"
    using \<open>length p \<le> 8190\<close> by (intro unpad_pad_bytes) simp
  ultimately show "\<exists>w. pad p = Ok w \<and> unpad w = Ok p \<and> length w \<in> set PADDING_BUCKETS
       \<and> (\<forall>b\<in>set PADDING_BUCKETS. length p + 2 \<le> b \<longrightarrow> length w \<le> b)"
    by metis
qed (simp add: pad_def PADDING_BUCKETS_def)

theorem padding_roundtrip_witness:
  "\<exists>w. pad (ascii ''hello'') = Ok w \<and> unpad w = Ok (ascii ''hello'') \<and> length w = 512"
  using padding_roundtrip [of "ascii ''hello''"] by (force simp: PADDING_BUCKETS_def)

text \<open>Nonces never repeat on a circuit: the nonce materials of requests with different sequence
  numbers differ, those of responses too as long as the numbers are below the top bit, and no
  request nonce equals a response nonce.\<close>

theorem onion_nonces_distinct:
  assumes "unat s < 2 ^ 63" "unat t < 2 ^ 63"
  shows "(s \<noteq> t \<longrightarrow> request_nonce cid s \<noteq> request_nonce cid t
            \<and> response_nonce_material cid s \<noteq> response_nonce_material cid t)
    \<and> request_nonce cid s \<noteq> response_nonce_material cid t"
proof -
  have "s = t" if "s OR push_bit 63 1 = t OR push_bit 63 1"
  proof (rule bit_word_eqI)
    fix n assume "n < LENGTH(64)"
    show "bit s n = bit t n"
    proof (cases "n = 63")
      case True
      then show ?thesis using small_seq_top assms by blast
    next
      case False
      then have "\<not> bit (push_bit 63 1 :: u64) n" by (auto simp only: bit_push_bit_iff bit_1_iff)
      then show ?thesis using arg_cong [OF that, of "\<lambda>w. bit w n"] by (simp only: bit_or_iff simp_thms)
    qed
  qed
  then show ?thesis
    using nonces_separate [OF refl assms(1), of cid t]
    by (auto simp: request_nonce_inject response_nonce_material_def u64le.enc_inject)
qed

theorem onion_nonces_distinct_witness:
  "request_nonce [1] 0 \<noteq> request_nonce [1] 1 \<and> request_nonce [1] 0 \<noteq> response_nonce_material [1] 1"
  using onion_nonces_distinct [of 0 1 "[1]"] by simp

end
