(* ===== verification/Frame_Codec.thy ===== *)
theory Frame_Codec
  imports Cypher_Prelude
begin

unbundle bit_operations_syntax

text \<open>
  The transport crate (\<^verbatim>\<open>crates/cypher-transport/src\<close>): frame flags and frames (\<^verbatim>\<open>frame.rs\<close>), the
  length-delimited codec (\<^verbatim>\<open>codec.rs\<close>) and the sequence-numbered session (\<^verbatim>\<open>session.rs\<close>).
  The codec is shown to invert itself, to wait on every proper prefix of a frame, to reject the
  bad lengths, and to be insensitive to how the byte stream is cut into reads.
\<close>

section \<open>Frames\<close>

datatype FrameFlags = FrameFlags u8

primrec bits :: "FrameFlags \<Rightarrow> u8" where
  "bits (FrameFlags b) = b"

definition NONE :: FrameFlags where "NONE = FrameFlags 0x00"
definition ACK_ONLY :: FrameFlags where "ACK_ONLY = FrameFlags 0x01"
definition ENCRYPTED :: FrameFlags where "ENCRYPTED = FrameFlags 0x02"
definition COMPRESSED :: FrameFlags where "COMPRESSED = FrameFlags 0x04"
definition PING :: FrameFlags where "PING = FrameFlags 0x08"
definition PONG :: FrameFlags where "PONG = FrameFlags 0x10"
definition SESSION_INIT :: FrameFlags where "SESSION_INIT = FrameFlags 0x20"
definition SESSION_CLOSE :: FrameFlags where "SESSION_CLOSE = FrameFlags 0x40"

lemmas frame_flag_defs =
  NONE_def ACK_ONLY_def ENCRYPTED_def COMPRESSED_def PING_def PONG_def SESSION_INIT_def
  SESSION_CLOSE_def

definition from_bits :: "u8 \<Rightarrow> FrameFlags" where
  "from_bits b = FrameFlags b"

definition contains :: "FrameFlags \<Rightarrow> FrameFlags \<Rightarrow> bool" where
  "contains f g \<longleftrightarrow> bits f AND bits g = bits g"

definition flags_union :: "FrameFlags \<Rightarrow> FrameFlags \<Rightarrow> FrameFlags" where
  "flags_union f g = FrameFlags (bits f OR bits g)"

definition flags_intersection :: "FrameFlags \<Rightarrow> FrameFlags \<Rightarrow> FrameFlags" where
  "flags_intersection f g = FrameFlags (bits f AND bits g)"

definition flags_is_empty :: "FrameFlags \<Rightarrow> bool" where
  "flags_is_empty f \<longleftrightarrow> bits f = 0"

lemma from_bits_bits [simp]: "from_bits (bits f) = f"
  by (cases f) (simp add: from_bits_def)

record frame =
  seq_no :: u32
  ack :: u32
  flags :: FrameFlags
  payload :: bytes

section \<open>The codec\<close>

definition MAX_FRAME_SIZE :: nat where "MAX_FRAME_SIZE = 1048576"
definition HEADER_SIZE :: nat where "HEADER_SIZE = 9"

text \<open>
  \<^verbatim>\<open>Decoder::decode\<close> on the buffer \<^verbatim>\<open>src\<close>: an error, or the frame if one is complete together with
  what is left in the buffer.
\<close>

definition decode :: "bytes \<Rightarrow> (frame option \<times> bytes) result" where
  "decode src =
    (if length src < 4 then Ok (None, src)
     else
       let len = unat (from_be (take 4 src) :: u32) in
       if len < HEADER_SIZE then Err (Io ''frame body too small'')
       else if len > MAX_FRAME_SIZE then Err (Io ''frame too large'')
       else if length src < 4 + len then Ok (None, src)
       else
         let src1 = drop 4 src;
             s = from_be (take 4 src1); src2 = drop 4 src1;
             a = from_be (take 4 src2); src3 = drop 4 src2;
             fl = from_bits (src3 ! 0); src4 = drop 1 src3;
             payload_len = len - HEADER_SIZE
         in Ok (Some \<lparr>seq_no = s, ack = a, flags = fl, payload = take payload_len src4\<rparr>,
                drop payload_len src4))"

text \<open>\<^verbatim>\<open>Encoder::encode\<close> appends to the buffer \<^verbatim>\<open>dst\<close>.\<close>

definition encode :: "frame \<Rightarrow> bytes \<Rightarrow> bytes result" where
  "encode item dst =
    (let body_len = HEADER_SIZE + length (payload item) in
     if body_len > MAX_FRAME_SIZE then Err (Io ''frame too large'')
     else Ok (dst @ u32_be (word_of_nat body_len) @ u32_be (seq_no item) @ u32_be (ack item)
                @ [bits (flags item)] @ payload item))"

definition sendable :: "frame \<Rightarrow> bool" where
  "sendable f \<longleftrightarrow> HEADER_SIZE + length (payload f) \<le> MAX_FRAME_SIZE"

definition wire :: "frame \<Rightarrow> bytes" where
  "wire f = u32_be (word_of_nat (HEADER_SIZE + length (payload f))) @ u32_be (seq_no f)
              @ u32_be (ack f) @ [bits (flags f)] @ payload f"

lemma encode_sendable: "sendable f \<Longrightarrow> encode f dst = Ok (dst @ wire f)"
  by (simp add: encode_def sendable_def wire_def Let_def)

lemma encode_oversized: "\<not> sendable f \<Longrightarrow> encode f dst = Err (Io ''frame too large'')"
  by (simp add: encode_def sendable_def Let_def)

lemma length_wire [simp]: "length (wire f) = 4 + HEADER_SIZE + length (payload f)"
  by (simp add: wire_def HEADER_SIZE_def)

lemma body_len_fits:
  "sendable f \<Longrightarrow> unat (word_of_nat (HEADER_SIZE + length (payload f)) :: u32)
     = HEADER_SIZE + length (payload f)"
  by (rule unat_of_nat_small) (simp add: sendable_def HEADER_SIZE_def MAX_FRAME_SIZE_def)

lemma frame_len_wire:
  "sendable f \<Longrightarrow> unat (from_be (take 4 (wire f)) :: u32) = HEADER_SIZE + length (payload f)"
proof -
  have "take 4 (wire f) = u32_be (word_of_nat (HEADER_SIZE + length (payload f)))"
    by (simp add: wire_def)
  then show "sendable f \<Longrightarrow> ?thesis" by (simp only: u32be.dec_enc body_len_fits)
qed

lemma decode_wire: "sendable f \<Longrightarrow> decode (wire f @ s) = Ok (Some f, s)"
proof -
  assume ok: "sendable f"
  have d4: "drop 4 (wire f @ s)
      = u32_be (seq_no f) @ u32_be (ack f) @ bits (flags f) # payload f @ s"
    by (simp add: wire_def)
  have len: "take 4 (wire f @ s) = take 4 (wire f)" by simp
  show ?thesis
    unfolding decode_def Let_def len frame_len_wire [OF ok] d4
    using ok by (simp add: sendable_def HEADER_SIZE_def u32be.dec_enc)
qed

text \<open>The decoder's answer on a complete frame or on a bad length does not change when more
  bytes arrive.\<close>

lemma decode_Some_length:
  assumes "decode src = Ok (Some f, rest)"
  shows "length rest < length src"
  using assms by (auto simp: decode_def Let_def HEADER_SIZE_def split: if_splits)

lemma decode_Some_append:
  assumes "decode src = Ok (Some f, rest)"
  shows "decode (src @ later) = Ok (Some f, rest @ later)"
proof -
  let ?len = "unat (from_be (take 4 src) :: u32)"
  have l: "4 \<le> length src" "HEADER_SIZE \<le> ?len" "?len \<le> MAX_FRAME_SIZE" "4 + ?len \<le> length src"
    using assms by (auto simp: decode_def Let_def split: if_splits)
  then have "13 \<le> length src" by (simp add: HEADER_SIZE_def)
  with l show ?thesis
    using assms by (auto simp: decode_def Let_def HEADER_SIZE_def nth_append)
qed

lemma decode_Err_append: "decode src = Err e \<Longrightarrow> decode (src @ later) = Err e"
  by (auto simp: decode_def Let_def split: if_splits)

lemma decode_None_rest: "decode src = Ok (None, rest) \<Longrightarrow> rest = src"
  by (auto simp: decode_def Let_def split: if_splits)

lemma decode_prefix_waits:
  assumes "sendable f" "n < length (wire f)"
  shows "decode (take n (wire f)) = Ok (None, take n (wire f))"
proof (cases "n < 4")
  case False
  then have t4: "take 4 (take n (wire f)) = take 4 (wire f)" by (simp add: min_absorb1)
  show ?thesis
    unfolding decode_def Let_def t4 frame_len_wire [OF assms(1)]
    using assms by (simp add: sendable_def)
qed (simp add: decode_def)

section \<open>Draining a byte stream\<close>

text \<open>
  The driver contract of a \<^verbatim>\<open>Decoder\<close>: bytes read from the socket are appended to the buffer and
  \<^verbatim>\<open>decode\<close> is called until it asks for more or fails.
\<close>

function drain :: "bytes \<Rightarrow> frame list \<times> bytes result" where
  "drain src =
    (case decode src of
       Err e \<Rightarrow> ([], Err e)
     | Ok (None, rest) \<Rightarrow> ([], Ok rest)
     | Ok (Some f, rest) \<Rightarrow> (case drain rest of (fs, st) \<Rightarrow> (f # fs, st)))"
  by pat_completeness auto
termination
  by (relation "measure length") (auto dest: decode_Some_length)

declare drain.simps [simp del]

primrec feed :: "frame list \<times> bytes result \<Rightarrow> bytes \<Rightarrow> frame list \<times> bytes result" where
  "feed (fs, st) chunk =
    (case st of
       Err e \<Rightarrow> (fs, Err e)
     | Ok buf \<Rightarrow> (case drain (buf @ chunk) of (gs, st') \<Rightarrow> (fs @ gs, st')))"

lemma drain_wire: "sendable f \<Longrightarrow> drain (wire f @ s) = (case drain s of (fs, st) \<Rightarrow> (f # fs, st))"
  by (subst drain.simps) (simp add: decode_wire)

lemma drain_append:
  "drain (src @ later) =
    (case drain src of
       (fs, Err e) \<Rightarrow> (fs, Err e)
     | (fs, Ok rest) \<Rightarrow> (case drain (rest @ later) of (gs, st) \<Rightarrow> (fs @ gs, st)))"
proof (induction src rule: drain.induct)
  case (1 src)
  show ?case
  proof (cases "decode src")
    case (Err e)
    then show ?thesis by (simp add: drain.simps decode_Err_append)
  next
    case (Ok p)
    obtain o' rest where p: "p = (o', rest)" by force
    show ?thesis
    proof (cases o')
      case None
      then show ?thesis
        using Ok p decode_None_rest [of src rest] by (simp add: drain.simps [of src] split: prod.splits)
    next
      case (Some f)
      then show ?thesis
        using Ok p 1 [of "(o', rest)" o' rest f] decode_Some_append [of src f rest later]
        by (simp add: drain.simps [of src] drain.simps [of "src @ later"]
              split: prod.splits result.splits)
    qed
  qed
qed

lemma drain_Ok_idem: "drain src = (fs, Ok rest) \<Longrightarrow> drain rest = ([], Ok rest)"
proof (induction src arbitrary: fs rule: drain.induct)
  case (1 src)
  show ?case
  proof (cases "decode src")
    case (Ok p)
    obtain o' r where p: "p = (o', r)" by force
    show ?thesis
    proof (cases o')
      case None
      then have "r = rest" "r = src"
        using Ok p 1(2) decode_None_rest by (auto simp: drain.simps [of src])
      then show ?thesis using Ok p None by (simp add: drain.simps [of rest])
    next
      case (Some f)
      then show ?thesis
        using Ok p 1 by (auto simp: drain.simps [of src] split: prod.splits)
    qed
  qed (use 1(2) in \<open>simp add: drain.simps [of src]\<close>)
qed

lemma feed_chunks:
  "foldl feed (fs, Ok buf) chunks =
    (case drain (buf @ concat chunks) of (gs, st) \<Rightarrow> (fs @ gs, st))"
  if "drain buf = ([], Ok buf)"
  using that
proof (induction chunks arbitrary: fs buf)
  case (Cons c cs)
  obtain gs st where d: "drain (buf @ c) = (gs, st)" by force
  show ?case
  proof (cases st)
    case (Ok rest)
    with d have "drain rest = ([], Ok rest)" by (simp add: drain_Ok_idem)
    from Cons.IH [OF this, of "fs @ gs"] show ?thesis
      using d Ok drain_append [of "buf @ c" "concat cs"] by (simp split: prod.splits)
  next
    case (Err e)
    have "foldl feed (gs', Err e) cs = (gs', Err e)" for gs' by (induction cs) simp_all
    then show ?thesis
      using d Err drain_append [of "buf @ c" "concat cs"] by simp
  qed
qed simp

lemma drain_Nil [simp]: "drain [] = ([], Ok [])"
  by (simp add: drain.simps decode_def)

lemma drain_wires:
  "\<forall>f\<in>set fs. sendable f \<Longrightarrow> drain (concat (map wire fs) @ s) = (case drain s of (gs, st) \<Rightarrow> (fs @ gs, st))"
  by (induction fs) (auto simp: drain_wire split: prod.splits)

section \<open>The transport session\<close>

text \<open>
  \<^verbatim>\<open>TransportSession\<close>: \<^verbatim>\<open>stream_out\<close> is everything handed to the stream so far.  The socket is a
  parameter: \<^verbatim>\<open>flush\<close> is the outcome of flushing the sink, \<^verbatim>\<open>item\<close> what the framed stream yields.
\<close>

record transport_session =
  stream_out :: bytes
  send_seq :: u32
  recv_ack :: u32

definition from_stream :: transport_session where
  "from_stream = \<lparr>stream_out = [], send_seq = 0, recv_ack = 0\<rparr>"

definition send_frame ::
  "unit result \<Rightarrow> transport_session \<Rightarrow> bytes \<Rightarrow> FrameFlags \<Rightarrow> transport_session \<times> unit result" where
  "send_frame flush s pl fl =
    (let s1 = s\<lparr>send_seq := send_seq s + 1\<rparr>;
         f = \<lparr>seq_no = send_seq s1, ack = recv_ack s1, flags = fl, payload = pl\<rparr>
     in case encode f (stream_out s1) of
          Err _ \<Rightarrow> (s1, Err (Transport ''send error''))
        | Ok w \<Rightarrow> (s1\<lparr>stream_out := w\<rparr>,
                   case flush of Ok _ \<Rightarrow> Ok () | Err _ \<Rightarrow> Err (Transport ''send error'')))"

definition recv_frame ::
  "frame result option \<Rightarrow> transport_session \<Rightarrow> transport_session \<times> frame result" where
  "recv_frame item s =
    (case item of
       None \<Rightarrow> (s, Err ConnectionClosed)
     | Some (Err _) \<Rightarrow> (s, Err (Transport ''recv error''))
     | Some (Ok f) \<Rightarrow> (s\<lparr>recv_ack := seq_no f\<rparr>, Ok f))"

definition send_ping :: "unit result \<Rightarrow> transport_session \<Rightarrow> transport_session \<times> unit result" where
  "send_ping flush s = send_frame flush s [] PING"

definition send_pong :: "unit result \<Rightarrow> transport_session \<Rightarrow> transport_session \<times> unit result" where
  "send_pong flush s = send_frame flush s [] PONG"

definition close ::
  "unit result \<Rightarrow> unit result \<Rightarrow> transport_session \<Rightarrow> transport_session \<times> unit result" where
  "close flush closed s =
    (case send_frame flush s [] SESSION_CLOSE of
       (s1, Err e) \<Rightarrow> (s1, Err e)
     | (s1, Ok _) \<Rightarrow> (s1, case closed of Ok _ \<Rightarrow> Ok () | Err _ \<Rightarrow> Err (Transport ''close error'')))"

text \<open>A run of \<^verbatim>\<open>send_frame\<close> calls and a run of \<^verbatim>\<open>recv_frame\<close> calls.\<close>

definition send_all :: "transport_session \<Rightarrow> (bytes \<times> FrameFlags) list \<Rightarrow> transport_session" where
  "send_all s ms = foldl (\<lambda>s (pl, fl). fst (send_frame (Ok ()) s pl fl)) s ms"

definition recv_all :: "transport_session \<Rightarrow> frame list \<Rightarrow> transport_session" where
  "recv_all s fs = foldl (\<lambda>s f. fst (recv_frame (Some (Ok f)) s)) s fs"

primrec numbered :: "u32 \<Rightarrow> u32 \<Rightarrow> (bytes \<times> FrameFlags) list \<Rightarrow> frame list" where
  "numbered n a [] = []"
| "numbered n a (m # ms) =
    \<lparr>seq_no = n + 1, ack = a, flags = snd m, payload = fst m\<rparr> # numbered (n + 1) a ms"

lemma send_frame_sendable:
  "HEADER_SIZE + length pl \<le> MAX_FRAME_SIZE \<Longrightarrow>
   send_frame (Ok ()) s pl fl =
     (s\<lparr>send_seq := send_seq s + 1,
        stream_out := stream_out s @ wire \<lparr>seq_no = send_seq s + 1, ack = recv_ack s, flags = fl, payload = pl\<rparr>\<rparr>,
      Ok ())"
  by (simp add: send_frame_def Let_def encode_sendable sendable_def)

lemma send_all_out:
  "\<forall>m\<in>set ms. HEADER_SIZE + length (fst m) \<le> MAX_FRAME_SIZE \<Longrightarrow>
   stream_out (send_all s ms) = stream_out s @ concat (map wire (numbered (send_seq s) (recv_ack s) ms))
   \<and> send_seq (send_all s ms) = send_seq s + word_of_nat (length ms)"
  by (induction ms arbitrary: s)
     (auto simp: send_all_def send_frame_sendable algebra_simps)

lemma length_numbered [simp]: "length (numbered n a ms) = length ms"
  by (induction ms arbitrary: n) simp_all

lemma numbered_nth:
  "i < length ms \<Longrightarrow> seq_no (numbered n a ms ! i) = n + word_of_nat (Suc i)"
  by (induction ms arbitrary: n i) (auto simp: less_Suc_eq_0_disj algebra_simps)

lemma numbered_contents: "map (\<lambda>f. (payload f, flags f)) (numbered n a ms) = ms"
  by (induction ms arbitrary: n) simp_all

lemma numbered_sendable:
  "\<forall>m\<in>set ms. HEADER_SIZE + length (fst m) \<le> MAX_FRAME_SIZE \<Longrightarrow> \<forall>f\<in>set (numbered n a ms). sendable f"
  by (induction ms arbitrary: n) (auto simp: sendable_def)

lemma recv_all_ack: "fs \<noteq> [] \<Longrightarrow> recv_ack (recv_all s fs) = seq_no (last fs)"
  by (induction fs rule: rev_induct) (simp_all add: recv_all_def recv_frame_def)

section \<open>Properties\<close>

text \<open>A frame that fits the size limit is encoded without error after whatever the buffer holds,
  and decoding the encoding, with any bytes following it, gives back the frame and exactly those
  bytes.\<close>

theorem frame_roundtrip:
  assumes "HEADER_SIZE + length (payload f) \<le> MAX_FRAME_SIZE"
  shows "\<exists>w. encode f dst = Ok (dst @ w) \<and> decode (w @ rest) = Ok (Some f, rest)"
  using assms by (intro exI [of _ "wire f"]) (simp add: encode_sendable decode_wire sendable_def)

theorem frame_roundtrip_witness:
  "\<exists>w. encode \<lparr>seq_no = 1, ack = 0, flags = ENCRYPTED, payload = [104, 105]\<rparr> [7] = Ok ([7] @ w)
     \<and> decode (w @ [9]) = Ok (Some \<lparr>seq_no = 1, ack = 0, flags = ENCRYPTED, payload = [104, 105]\<rparr>, [9])"
  by (rule frame_roundtrip) (simp add: HEADER_SIZE_def MAX_FRAME_SIZE_def)

text \<open>C13. The decoder does not depend on how the network cuts the byte stream: feeding any chunks
  one after the other delivers the same frames, and ends in the same error or with the same
  bytes buffered, as decoding the whole stream at once.\<close>

theorem chunking_irrelevant: "foldl feed ([], Ok []) chunks = drain (concat chunks)"
  using feed_chunks [of "[]" "[]" chunks] by (simp split: prod.splits)

text \<open>The decoder is total on bad input: a length field below the header size or above the
  limit is refused whatever follows, and otherwise every proper prefix of a valid frame makes it
  wait with the buffer untouched.\<close>

theorem decode_guards:
  "(4 \<le> length src \<and> unat (from_be (take 4 src) :: u32) < HEADER_SIZE
      \<longrightarrow> decode src = Err (Io ''frame body too small''))
   \<and> (4 \<le> length src \<and> MAX_FRAME_SIZE < unat (from_be (take 4 src) :: u32)
      \<longrightarrow> decode src = Err (Io ''frame too large''))
   \<and> (encode f [] = Ok w \<and> n < length w \<longrightarrow> decode (take n w) = Ok (None, take n w))"
proof -
  have "decode (take n w) = Ok (None, take n w)" if "encode f [] = Ok w" "n < length w"
  proof -
    from that have "sendable f" "w = wire f"
      by (cases "sendable f"; simp add: encode_sendable encode_oversized)+
    with that show ?thesis by (simp add: decode_prefix_waits)
  qed
  then show ?thesis by (auto simp: decode_def Let_def HEADER_SIZE_def MAX_FRAME_SIZE_def)
qed

theorem decode_guards_witness:
  "decode [0, 0, 0, 8] = Err (Io ''frame body too small'')
   \<and> decode [0, 0x20, 0, 0] = Err (Io ''frame too large'')
   \<and> decode [0, 0, 0, 9, 0] = Ok (None, [0, 0, 0, 9, 0])"
proof -
  have "encode \<lparr>seq_no = 0, ack = 0, flags = NONE, payload = []\<rparr> []
      = Ok [0, 0, 0, 9, 0, 0, 0, 0, 0, 0, 0, 0, 0]"
    by (simp add: encode_def HEADER_SIZE_def MAX_FRAME_SIZE_def byte_eval NONE_def)
  then show ?thesis
    using decode_guards [of "[0, 0, 0, 8]"] decode_guards [of "[0, 0x20, 0, 0]"]
      decode_guards [of "[]" "\<lparr>seq_no = 0, ack = 0, flags = NONE, payload = []\<rparr>"
        "[0, 0, 0, 9, 0, 0, 0, 0, 0, 0, 0, 0, 0]" 5]
    by (simp add: from_be_def HEADER_SIZE_def MAX_FRAME_SIZE_def)
qed

text \<open>Session numbering end to end: a fresh session that sends payloads within the limit puts
  on the wire a stream from which the peer, however the stream is cut, receives exactly those
  payloads and flags in order with sequence numbers 1, 2, 3, ..., and the peer then acknowledges
  the sender's last sequence number (both modulo the 32-bit width).\<close>

theorem session_stream:
  assumes fits: "\<forall>m\<in>set ms. HEADER_SIZE + length (fst m) \<le> MAX_FRAME_SIZE"
    and sent: "concat chunks = stream_out (send_all from_stream ms)"
  shows "\<exists>fs. foldl feed ([], Ok []) chunks = (fs, Ok [])
      \<and> map (\<lambda>f. (payload f, flags f)) fs = ms
      \<and> (\<forall>i<length ms. seq_no (fs ! i) = word_of_nat (Suc i))
      \<and> recv_ack (recv_all from_stream fs) = send_seq (send_all from_stream ms)"
proof (intro exI conjI allI impI)
  let ?fs = "numbered 0 0 ms"
  show "foldl feed ([], Ok []) chunks = (?fs, Ok [])"
    using drain_wires [OF numbered_sendable [OF fits], of 0 0 "[]"] sent
      send_all_out [OF fits, of from_stream] feed_chunks [of "[]" "[]" chunks]
    by (simp add: from_stream_def)
  show "map (\<lambda>f. (payload f, flags f)) ?fs = ms" by (rule numbered_contents)
  show nth: "seq_no (?fs ! i) = word_of_nat (Suc i)" if "i < length ms" for i
    using that by (simp add: numbered_nth)
  show "recv_ack (recv_all from_stream ?fs) = send_seq (send_all from_stream ms)"
  proof (cases "ms = []")
    case True
    then show ?thesis by (simp add: recv_all_def send_all_def from_stream_def)
  next
    case False
    then have "?fs \<noteq> []" by (metis length_0_conv length_numbered)
    then show ?thesis
      using False nth [of "length ms - 1"] send_all_out [OF fits, of from_stream]
      by (simp add: recv_all_ack last_conv_nth from_stream_def)
  qed
qed

theorem session_stream_witness:
  "\<exists>fs. foldl feed ([], Ok []) [take 15 (stream_out (send_all from_stream [([1, 2], NONE), ([3], PING)])),
                             drop 15 (stream_out (send_all from_stream [([1, 2], NONE), ([3], PING)]))]
        = (fs, Ok [])
      \<and> map (\<lambda>f. (payload f, flags f)) fs = [([1, 2], NONE), ([3], PING)]
      \<and> (\<forall>i<length [([1 :: u8, 2], NONE), ([3], PING)]. seq_no (fs ! i) = word_of_nat (Suc i))
      \<and> recv_ack (recv_all from_stream fs)
          = send_seq (send_all from_stream [([1, 2], NONE), ([3], PING)])"
  by (rule session_stream) (simp_all add: HEADER_SIZE_def MAX_FRAME_SIZE_def)

end
