(* ===== verification/Proto_Wire.thy ===== *)
theory Proto_Wire
  imports Cypher_Prelude
begin

text \<open>
  The binary protocol (\<^verbatim>\<open>crates/cypher-proto\<close>): the field codecs of \<^verbatim>\<open>src/lib.rs\<close>, the serializer
  and deserializer that \<^verbatim>\<open>build.rs\<close> emits for a schema, and the schema \<^verbatim>\<open>proto/schema/core.p2p\<close>
  with the \<^verbatim>\<open>Message\<close> enumeration it yields.  The locale \<^verbatim>\<open>cursor_codec\<close> is the contract of a field:
  what is appended to a buffer is read back at its offset, the cursor ends behind it, and a read
  that succeeds on a buffer is not changed by appending to the buffer.  Dispatching a serialized
  message gives the message back, with or without trailing bytes.
\<close>

section \<open>Field codecs\<close>

definition pad4 :: "nat \<Rightarrow> nat" where
  "pad4 n = (4 - n mod 4) mod 4"

definition encode_bytes :: "bytes \<Rightarrow> bytes \<Rightarrow> bytes" where
  "encode_bytes buf data =
    buf @ u32_le (word_of_nat (length data)) @ data @ replicate (pad4 (length data)) 0"

definition decode_bytes :: "bytes \<Rightarrow> nat \<Rightarrow> (bytes \<times> nat) result" where
  "decode_bytes buf offset =
    (if offset + 4 > length buf then Err (Protocol ''truncated bytes length'')
     else
       let len = unat (from_le (slice_of offset (offset + 4) buf) :: u32);
           data_start = offset + 4;
           data_end = data_start + len
       in if data_end > length buf then Err (Protocol ''truncated bytes data'')
          else Ok (slice_of data_start data_end buf, data_end + pad4 len))"

definition encode_string :: "bytes \<Rightarrow> rstring \<Rightarrow> bytes" where
  "encode_string buf s = encode_bytes buf s"

definition decode_string :: "bytes \<Rightarrow> nat \<Rightarrow> (rstring \<times> nat) result" where
  "decode_string buf offset =
    and_then (decode_bytes buf offset) (\<lambda>(bs, new_offset).
      if utf8_valid bs then Ok (bs, new_offset) else Err (Protocol ''invalid UTF-8 string''))"

definition decode_int :: "bytes \<Rightarrow> nat \<Rightarrow> (u32 \<times> nat) result" where
  "decode_int buf offset =
    (if offset + 4 > length buf then Err (Protocol ''truncated'')
     else Ok (from_le (slice_of offset (offset + 4) buf), offset + 4))"

definition decode_long :: "bytes \<Rightarrow> nat \<Rightarrow> (u64 \<times> nat) result" where
  "decode_long buf offset =
    (if offset + 8 > length buf then Err (Protocol ''truncated'')
     else Ok (from_le (slice_of offset (offset + 8) buf), offset + 8))"

lemma pad4_less: "pad4 n < 4"
  by (simp add: pad4_def)

lemma pad4_aligns: "(n + pad4 n) mod 4 = 0"
proof -
  have "n mod 4 \<in> {0, 1, 2, 3}" by auto
  then show ?thesis unfolding pad4_def by (subst mod_add_left_eq [symmetric]) auto
qed

section \<open>The contract of a field\<close>

locale cursor_codec =
  fixes put :: "'a \<Rightarrow> bytes" and get :: "bytes \<Rightarrow> nat \<Rightarrow> ('a \<times> nat) result" and wf :: "'a \<Rightarrow> bool"
  assumes get_put: "wf x \<Longrightarrow> get (pre @ put x @ suf) (length pre) = Ok (x, length pre + length (put x))"
    and get_append: "get buf off = Ok r \<Longrightarrow> get (buf @ suf) off = Ok r"
    and get_bound: "get buf off = Ok (x, off') \<Longrightarrow> off \<le> length buf + 3 \<Longrightarrow>
      off \<le> off' \<and> off' \<le> length buf + 3"
begin

lemma get_put_end: "wf x \<Longrightarrow> get (put x @ suf) 0 = Ok (x, length (put x))"
  using get_put [of x "[]" suf] by simp

lemma put_inject: "wf x \<Longrightarrow> wf y \<Longrightarrow> put x @ s = put y @ t \<Longrightarrow> x = y \<and> s = t"
proof -
  assume wf: "wf x" "wf y" and eq: "put x @ s = put y @ t"
  have "(x, length (put x)) = (y, length (put y))"
    using get_put_end [OF wf(1), of s] get_put_end [OF wf(2), of t] eq by simp
  with eq show ?thesis by (simp add: append_eq_append_conv)
qed

end

interpretation int_field: cursor_codec u32_le decode_int "\<lambda>_. True"
proof unfold_locales
  show "decode_int (pre @ u32_le x @ suf) (length pre) = Ok (x, length pre + length (u32_le x))"
    for x pre suf
    using u32le.dec_slice [of "length pre" pre "length pre + 4" x suf] by (simp add: decode_int_def)
next
  show "decode_int (buf @ suf) off = Ok r" if "decode_int buf off = Ok r" for buf suf off r
    using that by (auto simp: decode_int_def slice_append_left split: if_splits)
qed (auto simp: decode_int_def split: if_splits)

interpretation long_field: cursor_codec u64_le decode_long "\<lambda>_. True"
proof unfold_locales
  show "decode_long (pre @ u64_le x @ suf) (length pre) = Ok (x, length pre + length (u64_le x))"
    for x pre suf
    using u64le.dec_slice [of "length pre" pre "length pre + 8" x suf] by (simp add: decode_long_def)
next
  show "decode_long (buf @ suf) off = Ok r" if "decode_long buf off = Ok r" for buf suf off r
    using that by (auto simp: decode_long_def slice_append_left split: if_splits)
qed (auto simp: decode_long_def split: if_splits)

definition fits_u32 :: "bytes \<Rightarrow> bool" where
  "fits_u32 bs \<longleftrightarrow> length bs < 2 ^ 32"

lemma decode_bytes_put:
  assumes "fits_u32 x"
  shows "decode_bytes (pre @ encode_bytes [] x @ suf) (length pre)
    = Ok (x, length pre + length (encode_bytes [] x))"
proof -
  let ?l = "word_of_nat (length x) :: u32"
  let ?pad = "replicate (pad4 (length x)) (0 :: u8)"
  have l: "unat ?l = length x" using assms by (simp add: fits_u32_def unat_of_nat_small)
  have e: "pre @ encode_bytes [] x @ suf = pre @ u32_le ?l @ x @ ?pad @ suf"
    by (simp add: encode_bytes_def)
  have f: "from_le (slice_of (length pre) (length pre + 4) (pre @ u32_le ?l @ x @ ?pad @ suf)) = ?l"
    by (rule u32le.dec_slice) simp_all
  have d: "slice_of (length pre + 4) (length pre + 4 + length x) (pre @ u32_le ?l @ x @ ?pad @ suf) = x"
    using slice_append_mid [of _ "pre @ u32_le ?l" _ x "?pad @ suf"] by simp
  show ?thesis
    unfolding e decode_bytes_def Let_def f l d by (simp add: encode_bytes_def)
qed

lemma decode_bytes_append: "decode_bytes buf off = Ok r \<Longrightarrow> decode_bytes (buf @ suf) off = Ok r"
  by (auto simp: decode_bytes_def Let_def slice_append_left split: if_splits)

lemma decode_bytes_bound:
  "decode_bytes buf off = Ok (x, off') \<Longrightarrow> off \<le> off' \<and> off' \<le> length buf + 3"
  using pad4_less [of "unat (from_le (slice_of off (off + 4) buf) :: u32)"]
  by (auto simp: decode_bytes_def Let_def split: if_splits)

interpretation bytes_field: cursor_codec "encode_bytes []" decode_bytes fits_u32
  by unfold_locales (simp_all add: decode_bytes_put decode_bytes_append decode_bytes_bound)

interpretation string_field:
  cursor_codec "encode_string []" decode_string "\<lambda>s. fits_u32 s \<and> utf8_valid s"
proof unfold_locales
  show "decode_string (pre @ encode_string [] x @ suf) (length pre)
      = Ok (x, length pre + length (encode_string [] x))"
    if "fits_u32 x \<and> utf8_valid x" for x pre suf
    using that by (simp add: decode_string_def encode_string_def decode_bytes_put)
next
  show "decode_string (buf @ suf) off = Ok r" if "decode_string buf off = Ok r" for buf suf off r
    using that by (auto simp: decode_string_def decode_bytes_append split: if_splits)
next
  show "off \<le> off' \<and> off' \<le> length buf + 3" if "decode_string buf off = Ok (x, off')"
    for buf off x off'
    using that by (auto simp: decode_string_def dest: decode_bytes_bound split: if_splits)
qed

section \<open>Generated structures\<close>

datatype FieldType = TInt | TLong | TBytes | FString

record field =
  field_name :: string
  field_ty :: FieldType

record Constructor =
  ctor_id :: u32
  method_name :: string
  ctor_fields :: "field list"
  response_type :: string

datatype fval = VInt u32 | VLong u64 | VBytes bytes | VString rstring

text \<open>The code \<^verbatim>\<open>build.rs\<close> emits for one field: appending it to the buffer and reading it at the
  offset.\<close>

fun serialize_field :: "fval \<Rightarrow> bytes" where
  "serialize_field (VInt x) = u32_le x"
| "serialize_field (VLong x) = u64_le x"
| "serialize_field (VBytes b) = encode_bytes [] b"
| "serialize_field (VString s) = encode_string [] s"

definition lift_field :: "('a \<Rightarrow> fval) \<Rightarrow> ('a \<times> nat) result \<Rightarrow> (fval \<times> nat) result" where
  "lift_field c r = and_then r (\<lambda>(x, off). Ok (c x, off))"

fun deserialize_field :: "FieldType \<Rightarrow> bytes \<Rightarrow> nat \<Rightarrow> (fval \<times> nat) result" where
  "deserialize_field TInt buf off = lift_field VInt (decode_int buf off)"
| "deserialize_field TLong buf off = lift_field VLong (decode_long buf off)"
| "deserialize_field TBytes buf off = lift_field VBytes (decode_bytes buf off)"
| "deserialize_field FString buf off = lift_field VString (decode_string buf off)"

fun has_type :: "fval \<Rightarrow> FieldType \<Rightarrow> bool" where
  "has_type (VInt x) TInt = True"
| "has_type (VLong x) TLong = True"
| "has_type (VBytes b) TBytes = fits_u32 b"
| "has_type (VString s) FString = (fits_u32 s \<and> utf8_valid s)"
| "has_type v t = False"

lemma deserialize_field_put:
  "has_type v t \<Longrightarrow>
   deserialize_field t (pre @ serialize_field v @ suf) (length pre)
     = Ok (v, length pre + length (serialize_field v))"
  by (cases v; cases t)
     (simp_all add: lift_field_def int_field.get_put [simplified] long_field.get_put [simplified]
        bytes_field.get_put string_field.get_put)

lemma lift_field_append:
  "lift_field c r = Ok p \<Longrightarrow> (\<And>q. r = Ok q \<Longrightarrow> r' = Ok q) \<Longrightarrow> lift_field c r' = Ok p"
  by (cases r) (auto simp: lift_field_def)

lemma deserialize_field_append:
  "deserialize_field t buf off = Ok p \<Longrightarrow> deserialize_field t (buf @ suf) off = Ok p"
  by (cases t)
     (auto elim!: lift_field_append
        simp: int_field.get_append long_field.get_append bytes_field.get_append string_field.get_append)

lemma deserialize_field_bound:
  "deserialize_field t buf off = Ok (v, off') \<Longrightarrow> off \<le> length buf + 3 \<Longrightarrow>
   off \<le> off' \<and> off' \<le> length buf + 3"
  by (cases t)
     (auto simp: lift_field_def dest: int_field.get_bound long_field.get_bound
        bytes_field.get_bound string_field.get_bound)

interpretation any_field: cursor_codec serialize_field "deserialize_field t" "\<lambda>v. has_type v t"
  for t
  by unfold_locales
     (simp_all add: deserialize_field_put deserialize_field_append deserialize_field_bound)

text \<open>The fields of a structure, in schema order, with the offset threaded through.\<close>

fun deserialize_fields :: "FieldType list \<Rightarrow> bytes \<Rightarrow> nat \<Rightarrow> (fval list \<times> nat) result" where
  "deserialize_fields [] buf off = Ok ([], off)"
| "deserialize_fields (t # ts) buf off =
    and_then (deserialize_field t buf off) (\<lambda>(v, off1).
      and_then (deserialize_fields ts buf off1) (\<lambda>(vs, off2). Ok (v # vs, off2)))"

definition serialize_struct :: "u32 \<Rightarrow> fval list \<Rightarrow> bytes" where
  "serialize_struct cid vs = u32_le cid @ concat (map serialize_field vs)"

definition deserialize_struct :: "Constructor \<Rightarrow> bytes \<Rightarrow> fval list result" where
  "deserialize_struct c buf =
    (if length buf < 4 then Err (Protocol ''data too short'')
     else if from_le (slice_of 0 4 buf) \<noteq> ctor_id c then Err (Protocol ''wrong constructor id'')
     else and_then (deserialize_fields (map field_ty (ctor_fields c)) buf 4) (\<lambda>(vs, _). Ok vs))"

lemma deserialize_fields_put:
  "list_all2 has_type vs ts \<Longrightarrow>
   deserialize_fields ts (pre @ concat (map serialize_field vs) @ suf) (length pre)
     = Ok (vs, length pre + length (concat (map serialize_field vs)))"
proof (induction vs ts arbitrary: pre rule: list_all2_induct)
  case (Cons v vs t ts)
  have "deserialize_field t (pre @ serialize_field v @ concat (map serialize_field vs) @ suf) (length pre)
      = Ok (v, length (pre @ serialize_field v))"
    using Cons.hyps(1) by (simp add: deserialize_field_put)
  then show ?case using Cons.IH [of "pre @ serialize_field v"] by simp
qed simp

lemma deserialize_fields_append:
  "deserialize_fields ts buf off = Ok r \<Longrightarrow> deserialize_fields ts (buf @ suf) off = Ok r"
proof (induction ts arbitrary: off r)
  case (Cons t ts)
  from Cons.prems obtain v off1 where 1: "deserialize_field t buf off = Ok (v, off1)" by auto
  with Cons.prems obtain vs off2 where 2: "deserialize_fields ts buf off1 = Ok (vs, off2)"
    and r: "r = (v # vs, off2)" by auto
  show ?case
    by (simp add: deserialize_field_append [OF 1] Cons.IH [OF 2] r)
qed simp

lemma deserialize_fields_bound:
  "deserialize_fields ts buf off = Ok (vs, off') \<Longrightarrow> off \<le> length buf + 3 \<Longrightarrow>
   off \<le> off' \<and> off' \<le> length buf + 3"
proof (induction ts arbitrary: off vs)
  case (Cons t ts)
  then obtain v off1 vs' where 1: "deserialize_field t buf off = Ok (v, off1)"
    and 2: "deserialize_fields ts buf off1 = Ok (vs', off')" by auto
  from deserialize_field_bound [OF 1] Cons.IH [OF 2] Cons.prems(2) show ?case by simp
qed simp

interpretation fields:
  cursor_codec "\<lambda>vs. concat (map serialize_field vs)" "deserialize_fields ts"
    "\<lambda>vs. list_all2 has_type vs ts"
  for ts
  by unfold_locales
     (simp_all only: deserialize_fields_put deserialize_fields_append deserialize_fields_bound)

section \<open>The schema and its messages\<close>

definition ctor :: "u32 \<Rightarrow> string \<Rightarrow> (string \<times> FieldType) list \<Rightarrow> string \<Rightarrow> Constructor" where
  "ctor i n fs r = \<lparr>ctor_id = i, method_name = n,
     ctor_fields = map (\<lambda>(f, t). \<lparr>field_name = f, field_ty = t\<rparr>) fs, response_type = r\<rparr>"

definition core_schema :: "Constructor list" where
  "core_schema = [
    ctor 0xA1000001 ''session.init'' [(''client_id'', TBytes), (''nonce'', TBytes)] ''session.InitReq'',
    ctor 0xA1000002 ''session.ack'' [(''server_nonce'', TBytes), (''timestamp'', TLong)] ''session.InitAck'',
    ctor 0xB1000001 ''signal.requestPeer'' [(''link_id'', FString)] ''signal.PeerInfo'',
    ctor 0xB1000002 ''signal.iceCandidate'' [(''candidate'', FString), (''peer_id'', TBytes)] ''signal.Ok'',
    ctor 0xB1000003 ''signal.offer'' [(''sdp'', TBytes), (''peer_id'', TBytes)] ''signal.Ok'',
    ctor 0xB1000004 ''signal.answer'' [(''sdp'', TBytes), (''peer_id'', TBytes)] ''signal.Ok'',
    ctor 0xB2000001 ''keys.uploadPrekeys'' [(''identity_key'', TBytes), (''signed_prekey'', TBytes), (''inbox_id'', TBytes)] ''keys.Ok'',
    ctor 0xB2000002 ''keys.getPrekeys'' [(''peer_id'', TBytes)] ''keys.PrekeyBundle'',
    ctor 0xC1000001 ''chat.send'' [(''peer_id'', TBytes), (''ciphertext'', TBytes), (''ratchet_key'', TBytes), (''msg_no'', TInt)] ''chat.Sent'',
    ctor 0xC1000002 ''chat.receive'' [] ''chat.Messages'',
    ctor 0xD1000001 ''file.offer'' [(''peer_id'', TBytes), (''file_id'', TBytes), (''name'', FString), (''size'', TLong), (''chunks'', TInt), (''hash'', TBytes), (''compressed'', TInt)] ''file.OfferAck'',
    ctor 0xD1000002 ''file.accept'' [(''peer_id'', TBytes), (''file_id'', TBytes)] ''file.AcceptAck'',
    ctor 0xD1000003 ''file.chunk'' [(''peer_id'', TBytes), (''file_id'', TBytes), (''index'', TInt), (''data'', TBytes), (''hash'', TBytes), (''ratchet_key'', TBytes), (''msg_no'', TInt)] ''file.ChunkAck'',
    ctor 0xD1000004 ''file.complete'' [(''peer_id'', TBytes), (''file_id'', TBytes)] ''file.Ok'',
    ctor 0xD1000005 ''file.chunkAck'' [(''peer_id'', TBytes), (''file_id'', TBytes), (''index'', TInt)] ''file.Ok'',
    ctor 0xD1000006 ''file.resume'' [(''peer_id'', TBytes), (''file_id'', TBytes), (''missing'', TBytes)] ''file.ResumeAck'',
    ctor 0xC2000001 ''inbox.store'' [(''inbox_id'', TBytes), (''ciphertext'', TBytes)] ''inbox.Ok'',
    ctor 0xC2000002 ''inbox.fetch'' [(''inbox_id'', TBytes)] ''inbox.Messages'',
    ctor 0xC2000003 ''inbox.messages'' [(''messages'', TBytes), (''count'', TInt)] ''inbox.Ok'',
    ctor 0xC2000005 ''inbox.ack'' [(''inbox_id'', TBytes), (''claim_token'', TBytes)] ''inbox.Ok'',
    ctor 0xC3000001 ''transport.bootstrap'' [] ''transport.Info'',
    ctor 0xC3000002 ''transport.bootstrapInfo'' [(''relay_addr'', FString), (''relay_public_key'', TBytes), (''inbox_verifying_key'', TBytes), (''capabilities'', TInt)] ''transport.Ok'']"

text \<open>The \<^verbatim>\<open>Message\<close> enumeration generated for the schema, one variant per constructor with its
  fields in order.\<close>

datatype Message =
    SessionInit bytes bytes
  | SessionAck bytes u64
  | SignalRequestPeer rstring
  | SignalIceCandidate rstring bytes
  | SignalOffer bytes bytes
  | SignalAnswer bytes bytes
  | KeysUploadPrekeys bytes bytes bytes
  | KeysGetPrekeys bytes
  | ChatSend bytes bytes bytes u32
  | ChatReceive
  | FileOffer bytes bytes rstring u64 u32 bytes u32
  | FileAccept bytes bytes
  | FileChunk bytes bytes u32 bytes bytes bytes u32
  | FileComplete bytes bytes
  | FileChunkAck bytes bytes u32
  | FileResume bytes bytes bytes
  | InboxStore bytes bytes
  | InboxFetch bytes
  | InboxMessages bytes u32
  | InboxAck bytes bytes
  | TransportBootstrap
  | TransportBootstrapInfo rstring bytes bytes u32

fun message_fields :: "Message \<Rightarrow> u32 \<times> fval list" where
  "message_fields (SessionInit a b) = (0xA1000001, [VBytes a, VBytes b])"
| "message_fields (SessionAck a b) = (0xA1000002, [VBytes a, VLong b])"
| "message_fields (SignalRequestPeer a) = (0xB1000001, [VString a])"
| "message_fields (SignalIceCandidate a b) = (0xB1000002, [VString a, VBytes b])"
| "message_fields (SignalOffer a b) = (0xB1000003, [VBytes a, VBytes b])"
| "message_fields (SignalAnswer a b) = (0xB1000004, [VBytes a, VBytes b])"
| "message_fields (KeysUploadPrekeys a b c) = (0xB2000001, [VBytes a, VBytes b, VBytes c])"
| "message_fields (KeysGetPrekeys a) = (0xB2000002, [VBytes a])"
| "message_fields (ChatSend a b c d) = (0xC1000001, [VBytes a, VBytes b, VBytes c, VInt d])"
| "message_fields ChatReceive = (0xC1000002, [])"
| "message_fields (FileOffer a b c d e f g) = (0xD1000001, [VBytes a, VBytes b, VString c, VLong d, VInt e, VBytes f, VInt g])"
| "message_fields (FileAccept a b) = (0xD1000002, [VBytes a, VBytes b])"
| "message_fields (FileChunk a b c d e f g) = (0xD1000003, [VBytes a, VBytes b, VInt c, VBytes d, VBytes e, VBytes f, VInt g])"
| "message_fields (FileComplete a b) = (0xD1000004, [VBytes a, VBytes b])"
| "message_fields (FileChunkAck a b c) = (0xD1000005, [VBytes a, VBytes b, VInt c])"
| "message_fields (FileResume a b c) = (0xD1000006, [VBytes a, VBytes b, VBytes c])"
| "message_fields (InboxStore a b) = (0xC2000001, [VBytes a, VBytes b])"
| "message_fields (InboxFetch a) = (0xC2000002, [VBytes a])"
| "message_fields (InboxMessages a b) = (0xC2000003, [VBytes a, VInt b])"
| "message_fields (InboxAck a b) = (0xC2000005, [VBytes a, VBytes b])"
| "message_fields TransportBootstrap = (0xC3000001, [])"
| "message_fields (TransportBootstrapInfo a b c d) = (0xC3000002, [VString a, VBytes b, VBytes c, VInt d])"

primrec vi :: "fval \<Rightarrow> u32" where
  "vi (VInt x) = x" | "vi (VLong x) = 0" | "vi (VBytes b) = 0" | "vi (VString s) = 0"

primrec vl :: "fval \<Rightarrow> u64" where
  "vl (VLong x) = x" | "vl (VInt x) = 0" | "vl (VBytes b) = 0" | "vl (VString s) = 0"

primrec vb :: "fval \<Rightarrow> bytes" where
  "vb (VBytes b) = b" | "vb (VInt x) = []" | "vb (VLong x) = []" | "vb (VString s) = []"

primrec vs :: "fval \<Rightarrow> rstring" where
  "vs (VString s) = s" | "vs (VInt x) = []" | "vs (VLong x) = []" | "vs (VBytes b) = []"

text \<open>Building the variant from the fields that the structure's deserializer returned (they have
  the types of the schema, so the selectors never meet another kind of value).\<close>

definition message_of :: "u32 \<Rightarrow> fval list \<Rightarrow> Message" where
  "message_of cid xs =
    (if cid = 0xA1000001 then SessionInit (vb (xs ! 0)) (vb (xs ! 1))
    else if cid = 0xA1000002 then SessionAck (vb (xs ! 0)) (vl (xs ! 1))
    else if cid = 0xB1000001 then SignalRequestPeer (vs (xs ! 0))
    else if cid = 0xB1000002 then SignalIceCandidate (vs (xs ! 0)) (vb (xs ! 1))
    else if cid = 0xB1000003 then SignalOffer (vb (xs ! 0)) (vb (xs ! 1))
    else if cid = 0xB1000004 then SignalAnswer (vb (xs ! 0)) (vb (xs ! 1))
    else if cid = 0xB2000001 then KeysUploadPrekeys (vb (xs ! 0)) (vb (xs ! 1)) (vb (xs ! 2))
    else if cid = 0xB2000002 then KeysGetPrekeys (vb (xs ! 0))
    else if cid = 0xC1000001 then ChatSend (vb (xs ! 0)) (vb (xs ! 1)) (vb (xs ! 2)) (vi (xs ! 3))
    else if cid = 0xC1000002 then ChatReceive
    else if cid = 0xD1000001 then FileOffer (vb (xs ! 0)) (vb (xs ! 1)) (vs (xs ! 2)) (vl (xs ! 3)) (vi (xs ! 4)) (vb (xs ! 5)) (vi (xs ! 6))
    else if cid = 0xD1000002 then FileAccept (vb (xs ! 0)) (vb (xs ! 1))
    else if cid = 0xD1000003 then FileChunk (vb (xs ! 0)) (vb (xs ! 1)) (vi (xs ! 2)) (vb (xs ! 3)) (vb (xs ! 4)) (vb (xs ! 5)) (vi (xs ! 6))
    else if cid = 0xD1000004 then FileComplete (vb (xs ! 0)) (vb (xs ! 1))
    else if cid = 0xD1000005 then FileChunkAck (vb (xs ! 0)) (vb (xs ! 1)) (vi (xs ! 2))
    else if cid = 0xD1000006 then FileResume (vb (xs ! 0)) (vb (xs ! 1)) (vb (xs ! 2))
    else if cid = 0xC2000001 then InboxStore (vb (xs ! 0)) (vb (xs ! 1))
    else if cid = 0xC2000002 then InboxFetch (vb (xs ! 0))
    else if cid = 0xC2000003 then InboxMessages (vb (xs ! 0)) (vi (xs ! 1))
    else if cid = 0xC2000005 then InboxAck (vb (xs ! 0)) (vb (xs ! 1))
    else if cid = 0xC3000001 then TransportBootstrap
    else TransportBootstrapInfo (vs (xs ! 0)) (vb (xs ! 1)) (vb (xs ! 2)) (vi (xs ! 3)))"

definition serialize :: "Message \<Rightarrow> bytes" where
  "serialize m = (case message_fields m of (cid, xs) \<Rightarrow> serialize_struct cid xs)"

definition dispatch :: "bytes \<Rightarrow> Message result" where
  "dispatch data =
    (if length data < 4 then Err (Protocol ''data too short for dispatch'')
     else
       let cid = from_le (slice_of 0 4 data) in
       case find (\<lambda>c. ctor_id c = cid) core_schema of
         None \<Rightarrow> Err (Protocol ''unknown constructor id'')
       | Some c \<Rightarrow> and_then (deserialize_struct c data) (\<lambda>xs. Ok (message_of cid xs)))"

primrec type_of :: "fval \<Rightarrow> FieldType" where
  "type_of (VInt x) = TInt" | "type_of (VLong x) = TLong"
| "type_of (VBytes b) = TBytes" | "type_of (VString s) = FString"

definition msg_wf :: "Message \<Rightarrow> bool" where
  "msg_wf m \<longleftrightarrow> (\<forall>v\<in>set (snd (message_fields m)). has_type v (type_of v))"

lemma schema_lookup:
  "\<exists>c. find (\<lambda>c. ctor_id c = fst (message_fields m)) core_schema = Some c
     \<and> ctor_id c = fst (message_fields m)
     \<and> map field_ty (ctor_fields c) = map type_of (snd (message_fields m))"
  by (cases m) (simp_all add: core_schema_def ctor_def)

lemma message_of_fields: "message_of (fst (message_fields m)) (snd (message_fields m)) = m"
  by (cases m) (simp_all add: message_of_def)

lemma list_all2_type_of:
  "\<forall>v\<in>set xs. has_type v (type_of v) \<Longrightarrow> list_all2 has_type xs (map type_of xs)"
  by (induction xs) auto

lemma dispatch_serialize:
  assumes "msg_wf m"
  shows "dispatch (serialize m @ trail) = Ok m"
proof -
  obtain cid xs where mf: "message_fields m = (cid, xs)" by force
  obtain c where c: "find (\<lambda>c. ctor_id c = cid) core_schema = Some c" "ctor_id c = cid"
      "map field_ty (ctor_fields c) = map type_of xs"
    using schema_lookup [of m] mf by auto
  let ?buf = "u32_le cid @ concat (map serialize_field xs) @ trail"
  have cid: "from_le (slice_of 0 4 ?buf) = cid"
    using u32le.dec_slice [of 0 "[]" 4 cid] by simp
  have "list_all2 has_type xs (map type_of xs)"
    using assms mf by (intro list_all2_type_of) (simp add: msg_wf_def)
  then have "deserialize_fields (map type_of xs) ?buf 4
      = Ok (xs, 4 + length (concat (map serialize_field xs)))"
    using deserialize_fields_put [of xs "map type_of xs" "u32_le cid" trail] by simp
  then have "deserialize_struct c ?buf = Ok xs"
    by (simp add: deserialize_struct_def cid c)
  moreover have "message_of cid xs = m" using message_of_fields [of m] mf by simp
  ultimately show ?thesis
    by (simp add: dispatch_def serialize_def serialize_struct_def mf cid c)
qed

lemma length_serialize_field: "4 dvd length (serialize_field v)"
proof -
  have "4 dvd (4 + (n + pad4 n))" for n
    using pad4_aligns [of n] by (simp add: dvd_eq_mod_eq_0 mod_Suc)
  then show ?thesis
    by (cases v) (simp_all add: encode_bytes_def encode_string_def dvd_def)
qed

lemma length_serialize: "4 dvd length (serialize m)"
proof -
  have "4 dvd length (concat (map serialize_field xs))" for xs
    by (induction xs) (simp_all add: length_serialize_field)
  then show ?thesis
    by (simp add: serialize_def serialize_struct_def split: prod.splits)
qed

lemma dispatch_truncated:
  assumes wf: "msg_wf m" and n: "n + 4 \<le> length (serialize m)"
  shows "\<not> is_ok (dispatch (take n (serialize m)))"
proof (cases "n < 4")
  case False
  obtain cid xs where mf: "message_fields m = (cid, xs)" by force
  obtain c where c: "find (\<lambda>c. ctor_id c = cid) core_schema = Some c" "ctor_id c = cid"
      "map field_ty (ctor_fields c) = map type_of xs"
    using schema_lookup [of m] mf by auto
  let ?w = "serialize m"
  have w: "?w = u32_le cid @ concat (map serialize_field xs)"
    by (simp add: serialize_def serialize_struct_def mf)
  have "list_all2 has_type xs (map type_of xs)"
    using wf mf by (intro list_all2_type_of) (simp add: msg_wf_def)
  then have full: "deserialize_fields (map type_of xs) ?w 4 = Ok (xs, length ?w)"
    using deserialize_fields_put [of xs "map type_of xs" "u32_le cid" "[]"] by (simp add: w)
  have "deserialize_fields (map type_of xs) (take n ?w) 4 \<noteq> Ok r" for r
  proof
    assume ok: "deserialize_fields (map type_of xs) (take n ?w) 4 = Ok r"
    from deserialize_fields_append [OF this, of "drop n ?w"] full
    have "r = (xs, length ?w)" by simp
    with deserialize_fields_bound [of "map type_of xs" "take n ?w" 4 xs "length ?w"] ok n False
    show False by simp
  qed
  then obtain e where e: "deserialize_fields (map type_of xs) (take n ?w) 4 = Err e"
    by (cases "deserialize_fields (map type_of xs) (take n ?w) 4") auto
  have "slice_of 0 4 (take n ?w) = u32_le cid"
    using False by (simp add: slice_of_def w min_absorb1)
  then have "from_le (slice_of 0 4 (take n ?w)) = cid" by (simp add: u32le.dec_enc)
  with e c n False show ?thesis by (simp add: dispatch_def deserialize_struct_def)
qed (simp add: dispatch_def min_def)

text \<open>A serialized message never looks like a JSON object.\<close>

lemma serialize_not_json: "serialize m \<noteq> [] \<and> hd (serialize m) \<noteq> 0x7B"
proof -
  have s: "serialize m = u32_le (fst (message_fields m)) @ concat (map serialize_field (snd (message_fields m)))"
    by (simp add: serialize_def serialize_struct_def split: prod.split)
  have "hd (u32_le (fst (message_fields m))) \<noteq> 0x7B \<and> u32_le (fst (message_fields m)) \<noteq> []"
    by (cases m) (simp_all add: byte_eval)
  then show ?thesis unfolding s by (simp add: hd_append)
qed

section \<open>Properties\<close>

text \<open>C14. Every message of the protocol survives the wire: dispatching its serialization, whatever
  bytes follow it, returns the same variant with the same fields.  The only conditions are those of
  the Rust types and of the 32-bit length prefix.\<close>

theorem dispatch_roundtrip:
  assumes "msg_wf m"
  shows "dispatch (serialize m @ trail) = Ok m"
  using assms by (rule dispatch_serialize)

theorem dispatch_roundtrip_witness:
  "dispatch (serialize (FileOffer [1, 2] [3] (ascii ''a.txt'') 1000000 250 [0xDE, 0xAD] 1) @ [9, 9])
     = Ok (FileOffer [1, 2] [3] (ascii ''a.txt'') 1000000 250 [0xDE, 0xAD] 1)"
  by (rule dispatch_roundtrip)
     (simp add: msg_wf_def fits_u32_def ascii_def utf8_cont_def)

text \<open>Serializations are 4-byte aligned, no serialization is a proper prefix of another or equal
  to that of another message, and cutting off four or more bytes is always reported as an error.\<close>

theorem serialize_aligned_and_unambiguous:
  assumes "msg_wf m" "msg_wf m'"
  shows "4 dvd length (serialize m)
    \<and> (serialize m @ s = serialize m' @ s' \<longrightarrow> m = m' \<and> s = s')
    \<and> (n + 4 \<le> length (serialize m) \<longrightarrow> \<not> is_ok (dispatch (take n (serialize m))))"
proof (intro conjI impI)
  assume "serialize m @ s = serialize m' @ s'"
  moreover from this have "m = m'"
    using dispatch_serialize [OF assms(1), of s] dispatch_serialize [OF assms(2), of s'] by simp
  ultimately show "m = m'" "s = s'" by simp_all
qed (simp_all add: assms length_serialize dispatch_truncated)

theorem serialize_aligned_and_unambiguous_witness:
  "4 dvd length (serialize (KeysGetPrekeys [7, 7, 7]))
   \<and> \<not> is_ok (dispatch (take 8 (serialize (KeysGetPrekeys [7, 7, 7]))))"
  using serialize_aligned_and_unambiguous [of "KeysGetPrekeys [7, 7, 7]" ChatReceive "[]" "[]" 8]
  by (simp add: msg_wf_def fits_u32_def serialize_def serialize_struct_def encode_bytes_def pad4_def)

text \<open>A buffer whose first four bytes are no constructor identifier of the schema is refused.  In
  particular a payload that starts with an opening brace, which the receivers treat as JSON, is never
  mistaken for a message.\<close>

theorem dispatch_unknown:
  "((\<forall>c\<in>set core_schema. ctor_id c \<noteq> from_le (take 4 data)) \<longrightarrow> \<not> is_ok (dispatch data))
   \<and> \<not> is_ok (dispatch (0x7B # rest))"
proof -
  have unknown: "\<not> is_ok (dispatch d)" if "\<forall>c\<in>set core_schema. ctor_id c \<noteq> from_le (take 4 d)" for d
  proof -
    from that have "find (\<lambda>c. ctor_id c = from_le (take 4 d)) core_schema = None"
      by (simp add: find_None_iff)
    then show ?thesis by (simp add: dispatch_def slice_zero)
  qed
  have heads: "hd (u32_le (ctor_id c)) \<noteq> 0x7B" if "c \<in> set core_schema" for c
    using that by (auto simp: core_schema_def ctor_def byte_eval)
  have "\<not> is_ok (dispatch (0x7B # rest))"
  proof (cases "3 \<le> length rest")
    case True
    let ?h = "take 4 (0x7B # rest)"
    from True have "u32_le (from_le ?h) = ?h"
      using to_le_from_le [of ?h, where 'w = 32] by (simp add: min_absorb2)
    then have "hd (u32_le (from_le ?h)) = 0x7B" by simp
    with heads have "\<forall>c\<in>set core_schema. ctor_id c \<noteq> from_le ?h" by metis
    then show ?thesis by (rule unknown)
  qed (simp add: dispatch_def)
  with unknown show ?thesis by blast
qed

theorem dispatch_unknown_witness: "\<not> is_ok (dispatch [0xFF, 0xFF, 0xFF, 0xFF])"
  using dispatch_unknown [of "[0xFF, 0xFF, 0xFF, 0xFF]" "[]"]
  by (simp add: core_schema_def ctor_def byte_eval)

lemma decode_bytes_fits: "decode_bytes buf off = Ok (b, off') \<Longrightarrow> fits_u32 b"
proof -
  assume "decode_bytes buf off = Ok (b, off')"
  then have "length b \<le> unat (from_le (slice_of off (off + 4) buf) :: u32)"
    by (auto simp: decode_bytes_def Let_def split: if_splits)
  also have "\<dots> < 2 ^ 32" using unsigned_less [of "from_le (slice_of off (off + 4) buf) :: u32", where ?'a = nat] by simp
  finally show ?thesis by (simp add: fits_u32_def)
qed

lemma deserialize_field_type: "deserialize_field t buf off = Ok (v, off') \<Longrightarrow> has_type v t"
  by (cases t) (auto simp: lift_field_def decode_string_def dest: decode_bytes_fits split: if_splits)

lemma deserialize_fields_type: "deserialize_fields ts buf off = Ok (xs, off') \<Longrightarrow> list_all2 has_type xs ts"
  by (induction ts arbitrary: off xs) (auto dest!: deserialize_field_type)

lemma has_type_iff:
  "has_type v TInt \<longleftrightarrow> (\<exists>x. v = VInt x)" "has_type v TLong \<longleftrightarrow> (\<exists>x. v = VLong x)"
  "has_type v TBytes \<longleftrightarrow> (\<exists>b. v = VBytes b \<and> fits_u32 b)" "has_type v FString \<longleftrightarrow> (\<exists>b. v = VString b \<and> fits_u32 b \<and> utf8_valid b)"
  by (cases v; simp)+

lemma message_fields_of:
  assumes "c \<in> set core_schema" "list_all2 has_type xs (map field_ty (ctor_fields c))"
  shows "message_fields (message_of (ctor_id c) xs) = (ctor_id c, xs)"
  apply (insert assms)
  apply (unfold core_schema_def set_simps insert_iff empty_iff)
  apply (elim disjE FalseE)
  apply (clarsimp simp: ctor_def list_all2_Cons2 has_type_iff message_of_def)+
  done

lemma has_type_type_of: "has_type v t \<Longrightarrow> type_of v = t"
  by (cases v; cases t) simp_all

text \<open>C15. Typing of what is read: every message that \<^verbatim>\<open>dispatch\<close> returns, for whatever bytes were received, has fields of
  the types of the schema, with strings that are valid UTF-8 and lengths below the limit of the format, and
  serializing it again gives bytes that are read as the same message, as the services do when they rewrite a message
  and pass it on.\<close>

theorem dispatch_well_typed:
  assumes "dispatch data = Ok m"
  shows "msg_wf m \<and> (\<exists>c\<in>set core_schema. ctor_id c = fst (message_fields m)
      \<and> list_all2 has_type (snd (message_fields m)) (map field_ty (ctor_fields c)))
    \<and> dispatch (serialize m) = Ok m"
proof -
  obtain c xs where c: "find (\<lambda>c. ctor_id c = from_le (slice_of 0 4 data)) core_schema = Some c"
    and xs: "deserialize_struct c data = Ok xs" and m: "m = message_of (from_le (slice_of 0 4 data)) xs"
    using assms by (auto simp: dispatch_def Let_def split: if_splits option.splits)
  from c have s: "c \<in> set core_schema" "ctor_id c = from_le (slice_of 0 4 data)"
    by (auto simp: find_Some_iff)
  have t: "list_all2 has_type xs (map field_ty (ctor_fields c))"
    using xs by (auto simp: deserialize_struct_def dest: deserialize_fields_type split: if_splits)
  then have f: "message_fields m = (ctor_id c, xs)" using message_fields_of [OF s(1) t] s(2) m by simp
  have "\<forall>v\<in>set xs. \<exists>t. has_type v t" using t by (metis list_all2_conv_all_nth in_set_conv_nth)
  then have "msg_wf m" using has_type_type_of by (auto simp: msg_wf_def f)
  then show ?thesis using dispatch_serialize [of m "[]"] s t f by auto
qed

theorem dispatch_well_typed_witness:
  "msg_wf (KeysGetPrekeys [7, 7, 7])"
  using dispatch_well_typed [of "serialize (KeysGetPrekeys [7, 7, 7]) @ [1, 2]" "KeysGetPrekeys [7, 7, 7]"]
    dispatch_serialize [of "KeysGetPrekeys [7, 7, 7]" "[1, 2]"]
  by (simp add: msg_wf_def fits_u32_def)

end
