(* ===== verification/Onion_Relay.thy ===== *)
theory Onion_Relay
  imports Onion_Client Frame_Codec Proto_Wire "HOL-Library.AList"
begin

text \<open>
  The onion handler of the relay service (\<^verbatim>\<open>services/relay/src/onion.rs\<close>): circuit cache with replay
  counters, request processing and the connection loop.  The message bus is a parameter that maps a
  subject and an envelope to the reply of the signaling service.  Messages of \<^verbatim>\<open>anyhow\<close> errors are
  carried by \<^verbatim>\<open>InvalidData\<close>.
\<close>

section \<open>Operations\<close>

record envelope =
  env_session_id :: u64
  env_payload :: bytes

type_synonym nats_request = "string \<Rightarrow> envelope \<Rightarrow> bytes result"

definition MAX_CIRCUITS :: nat where "MAX_CIRCUITS = 16"

text \<open>Circuit cache: (ephemeral key, circuit id) to (circuit key, highest sequence number seen).\<close>

type_synonym CircuitCache = "((bytes \<times> bytes) \<times> (bytes \<times> u64)) list"

definition derive_circuit_key :: "crypto \<Rightarrow> bytes \<Rightarrow> bytes \<Rightarrow> bytes" where
  "derive_circuit_key C relay_secret client_ek =
    hkdf C (Some (ascii ''cypher-circuit-v1'')) (x25519 C relay_secret client_ek) (ascii ''circuit-key'') 32"

text \<open>The relay has its own copy of the response nonce derivation.\<close>

definition relay_response_nonce :: "bytes \<Rightarrow> u64 \<Rightarrow> bytes" where
  "relay_response_nonce cid sn = cid @ u64_le (sn OR push_bit 63 1)"

definition subject_for :: "Message \<Rightarrow> string result" where
  "subject_for m = (case m of
      InboxFetch _ \<Rightarrow> Ok ''signaling.inbox_fetch''
    | InboxAck _ _ \<Rightarrow> Ok ''signaling.inbox_ack''
    | _ \<Rightarrow> Err (InvalidData ''unsupported onion request payload''))"

text \<open>The cache step: the circuit key and the cache with the counter moved up, or a refusal.\<close>

definition lookup_circuit ::
  "crypto \<Rightarrow> bytes \<Rightarrow> CircuitCache \<Rightarrow> bytes \<Rightarrow> bytes \<Rightarrow> u64 \<Rightarrow> CircuitCache \<times> bytes result" where
  "lookup_circuit C relay_secret circuits pk cid sn =
    (case map_of circuits (pk, cid) of
       Some (key, seen) \<Rightarrow>
         if sn \<le> seen then (circuits, Err (InvalidData ''replayed or out-of-order seq_no''))
         else (AList.update (pk, cid) (key, sn) circuits, Ok key)
     | None \<Rightarrow>
         if length circuits \<ge> MAX_CIRCUITS
         then (circuits, Err (InvalidData ''circuit limit reached, rejecting new circuit''))
         else let key = derive_circuit_key C relay_secret pk
              in (AList.update (pk, cid) (key, sn) circuits, Ok key))"

definition open_request :: "crypto \<Rightarrow> bytes \<Rightarrow> bytes \<Rightarrow> u64 \<Rightarrow> bytes \<Rightarrow> bytes result" where
  "open_request C key cid sn ciphertext =
    and_then (aead_decrypt C key (cid @ u64_le sn) ciphertext cid) (\<lambda>inner.
      if length inner < 1 + 16 + 4 then Err (InvalidData ''onion inner too short'')
      else if inner ! 0 \<noteq> SUBTYPE_RELAY_REQUEST then Err (InvalidData ''unexpected subtype'')
      else
        let payload_len = unat (from_le (slice_of 17 21 inner) :: u32) in
        if 21 + payload_len > length inner then Err (InvalidData ''inner payload length exceeds data'')
        else Ok (slice_of 21 (21 + payload_len) inner))"

definition seal_response :: "crypto \<Rightarrow> bytes \<Rightarrow> bytes \<Rightarrow> u64 \<Rightarrow> bytes \<Rightarrow> bytes result" where
  "seal_response C key cid sn response_payload =
    (let resp_inner = [SUBTYPE_RELAY_RESPONSE] @ cid @ u32_le (word_of_nat (length response_payload))
                        @ response_payload
     in and_then (aead_encrypt C key (relay_response_nonce cid sn) resp_inner cid) (\<lambda>ct.
          Ok ([ONION_PREFIX] @ u64_le sn @ ct)))"

definition process_onion_request ::
  "crypto \<Rightarrow> bytes \<Rightarrow> nats_request \<Rightarrow> bytes \<Rightarrow> CircuitCache \<Rightarrow> CircuitCache \<times> bytes result" where
  "process_onion_request C relay_secret nats data circuits =
    (if length data < 1 + 32 + 16 + 8 + 1 then (circuits, Err (InvalidData ''onion request too short''))
     else
       let pk = slice_of 1 33 data; cid = slice_of 33 49 data;
           sn = from_le (slice_of 49 57 data); ciphertext = drop 57 data
       in case lookup_circuit C relay_secret circuits pk cid sn of
            (circuits', Err e) \<Rightarrow> (circuits', Err e)
          | (circuits', Ok key) \<Rightarrow>
              (circuits',
               and_then (open_request C key cid sn ciphertext) (\<lambda>request_payload.
               and_then (dispatch request_payload) (\<lambda>m.
               and_then (subject_for m) (\<lambda>subject.
               and_then (nats subject \<lparr>env_session_id = 0, env_payload = request_payload\<rparr>)
                 (\<lambda>response_payload. seal_response C key cid sn response_payload))))))"

text \<open>
  The connection loop.  Each element of the input is what the framed reader yields next together with
  the behaviour of the bus at that moment; \<^verbatim>\<open>accepts n\<close> says whether the writer channel takes its
  \<^verbatim>\<open>n\<close>-th frame.
\<close>

record onion_conn =
  circuits :: CircuitCache
  seq_counter :: u32
  written :: "frame list"

fun handle_onion_connection ::
  "crypto \<Rightarrow> bytes \<Rightarrow> (nat \<Rightarrow> bool) \<Rightarrow> (frame result \<times> nats_request) list \<Rightarrow> onion_conn \<Rightarrow> onion_conn" where
  "handle_onion_connection C rs accepts [] st = st"
| "handle_onion_connection C rs accepts ((Err e, nats) # input) st = st"
| "handle_onion_connection C rs accepts ((Ok f, nats) # input) st =
    (if contains (flags f) PING then
       let pong = \<lparr>seq_no = 0, ack = seq_no f, flags = PONG, payload = []\<rparr> in
       if accepts (length (written st))
       then handle_onion_connection C rs accepts input (st\<lparr>written := written st @ [pong]\<rparr>)
       else st
     else if contains (flags f) SESSION_CLOSE then st
     else if payload f = [] \<or> payload f ! 0 \<noteq> ONION_PREFIX
     then handle_onion_connection C rs accepts input st
     else
       case process_onion_request C rs nats (payload f) (circuits st) of
         (cs, Err e) \<Rightarrow> handle_onion_connection C rs accepts input (st\<lparr>circuits := cs\<rparr>)
       | (cs, Ok response) \<Rightarrow>
           let n = seq_counter st + 1;
               st' = st\<lparr>circuits := cs, seq_counter := n\<rparr>;
               resp = \<lparr>seq_no = n, ack = seq_no f, flags = NONE, payload = response\<rparr>
           in if accepts (length (written st'))
              then handle_onion_connection C rs accepts input (st'\<lparr>written := written st' @ [resp]\<rparr>)
              else st')"

section \<open>Client and relay agree\<close>

lemma derive_circuit_key_eq: "derive_circuit_key C rs pk = kdf_circuit C (x25519 C rs pk)"
  by (simp add: derive_circuit_key_def kdf_circuit_def)

lemma seal_response_eq: "seal_response C key cid s = encode_relay_response C key cid s"
  by (simp add: fun_eq_iff seal_response_def encode_relay_response_def onion_inner_def relay_response_nonce_def
      response_nonce_material_def)

lemma open_request_sealed:
  assumes C: "crypto_ok C" and cid: "length cid = 16" and pl: "length pl < 2 ^ 32"
    and ct: "aead_encrypt C key (request_nonce cid s) (onion_inner SUBTYPE_RELAY_REQUEST cid pl) cid = Ok ct"
  shows "open_request C key cid s ct = Ok pl"
  using aead_decrypt_encrypt [OF C ct] onion_inner_fields [OF cid pl, of SUBTYPE_RELAY_REQUEST]
  by (simp add: open_request_def request_nonce_def Let_def)

text \<open>The relay accepts the next request of a circuit that is new or has only been used below its
  sequence number.\<close>

definition admits :: "CircuitCache \<Rightarrow> Circuit \<Rightarrow> bool" where
  "admits cs c \<longleftrightarrow> (case map_of cs (ephemeral_public c, circuit_id c) of
      None \<Rightarrow> length cs < MAX_CIRCUITS
    | Some (key, seen) \<Rightarrow> key = circuit_key c \<and> seen < seq c)"

lemma length_alist_update:
  "length (AList.update k v xs) = (case map_of xs k of None \<Rightarrow> Suc (length xs) | Some _ \<Rightarrow> length xs)"
  by (induction xs) (auto split: option.splits)

lemma lookup_admits:
  assumes "admits cs c" and "circuit_key c = derive_circuit_key C rs (ephemeral_public c)"
  shows "lookup_circuit C rs cs (ephemeral_public c) (circuit_id c) (seq c)
    = (AList.update (ephemeral_public c, circuit_id c) (circuit_key c, seq c) cs, Ok (circuit_key c))"
proof (cases "map_of cs (ephemeral_public c, circuit_id c)")
  case None
  then show ?thesis using assms by (simp add: admits_def lookup_circuit_def Let_def)
next
  case (Some e)
  moreover from this assms(1) have "\<not> seq c \<le> snd e" by (auto simp: admits_def split: prod.splits)
  ultimately show ?thesis using assms by (auto simp: admits_def lookup_circuit_def split: prod.splits)
qed

definition inbox_request :: "Message \<Rightarrow> bool" where
  "inbox_request m \<longleftrightarrow> is_ok (subject_for m) \<and> msg_wf m \<and> length (serialize m) < 2 ^ 32"

definition bus_reply :: "nats_request \<Rightarrow> Message \<Rightarrow> bytes result" where
  "bus_reply nats m = and_then (subject_for m) (\<lambda>subject.
     nats subject \<lparr>env_session_id = 0, env_payload = serialize m\<rparr>)"

lemma request_wire:
  assumes C: "crypto_ok C" and cid: "length (circuit_id c) = 16" and pl: "length pl < 2 ^ 32"
  obtains ct where "encode_relay_request C c pl = (c\<lparr>seq := seq c + 1\<rparr>,
      Ok (ONION_PREFIX # ephemeral_public c @ circuit_id c @ u64_le (seq c) @ ct))"
    "aead_encrypt C (circuit_key c) (request_nonce (circuit_id c) (seq c))
       (onion_inner SUBTYPE_RELAY_REQUEST (circuit_id c) pl) (circuit_id c) = Ok ct"
    "length ct = length pl + 37"
proof -
  from onion_inner_fields(3) [OF cid pl] pl
  have "length (onion_inner SUBTYPE_RELAY_REQUEST (circuit_id c) pl) \<le> 2 ^ 36" by simp
  from aead_encrypt_total [OF C this] obtain ct where
    ct: "aead_encrypt C (circuit_key c) (request_nonce (circuit_id c) (seq c))
      (onion_inner SUBTYPE_RELAY_REQUEST (circuit_id c) pl) (circuit_id c) = Ok ct" by blast
  from aead_encrypt_length [OF C ct] onion_inner_fields(3) [OF cid pl]
  have "length ct = length pl + 37" by simp
  moreover have "slice_of 16 24 (request_nonce (circuit_id c) (seq c)) = u64_le (seq c)"
    using cid by (simp add: request_nonce_def slice_of_def)
  ultimately show thesis
    using ct by (intro that [of ct]) (simp_all add: encode_relay_request_def next_nonce_material_def)
qed

lemma process_wire:
  assumes C: "crypto_ok C" and cid: "length (circuit_id c) = 16" and eph: "length (ephemeral_public c) = 32"
    and key: "circuit_key c = derive_circuit_key C rs (ephemeral_public c)"
    and adm: "admits cs c" and m: "inbox_request m"
    and enc: "encode_relay_request C c (serialize m) = (c', Ok w)"
  shows "process_onion_request C rs nats w cs =
    (AList.update (ephemeral_public c, circuit_id c) (circuit_key c, seq c) cs,
     and_then (bus_reply nats m) (encode_relay_response C (circuit_key c) (circuit_id c) (seq c)))"
proof -
  have pl: "length (serialize m) < 2 ^ 32" and wf: "msg_wf m" using m by (auto simp: inbox_request_def)
  obtain ct where w: "w = ONION_PREFIX # ephemeral_public c @ circuit_id c @ u64_le (seq c) @ ct"
    and ct: "aead_encrypt C (circuit_key c) (request_nonce (circuit_id c) (seq c))
       (onion_inner SUBTYPE_RELAY_REQUEST (circuit_id c) (serialize m)) (circuit_id c) = Ok ct"
      "length ct = length (serialize m) + 37"
    using request_wire [OF C cid pl] enc by (metis Pair_inject result.inject(1))
  have h: "slice_of 1 33 w = ephemeral_public c" "slice_of 33 49 w = circuit_id c"
      "slice_of 49 57 w = u64_le (seq c)" "drop 57 w = ct" "\<not> length w < 1 + 32 + 16 + 8 + 1"
    using cid eph ct(2) by (simp_all add: w slice_of_def)
  have d: "dispatch (serialize m) = Ok m" using dispatch_serialize [OF wf, of "[]"] by simp
  show ?thesis
    unfolding process_onion_request_def h Let_def u64le.dec_enc lookup_admits [OF adm key]
    by (cases "subject_for m")
       (use m h(5) in \<open>simp_all add: open_request_sealed [OF C cid pl ct(1)] d bus_reply_def seal_response_eq
          inbox_request_def\<close>)
qed

lemma admits_next:
  assumes "unat (seq c + 1) = Suc (unat (seq c))"
  shows "admits (AList.update (ephemeral_public c, circuit_id c) (circuit_key c, seq c) cs)
    (c\<lparr>seq := seq c + 1\<rparr>)"
  using assms by (simp add: admits_def update_conv' word_less_nat_alt)

text \<open>A client that sends requests one after the other over one circuit.\<close>

primrec exchange ::
  "crypto \<Rightarrow> bytes \<Rightarrow> (Message \<times> nats_request) list \<Rightarrow> Circuit \<Rightarrow> CircuitCache \<Rightarrow> bytes result list" where
  "exchange C rs [] c cs = []"
| "exchange C rs (q # qs) c cs =
    (case encode_relay_request C c (serialize (fst q)) of
       (c', Err e) \<Rightarrow> Err e # exchange C rs qs c' cs
     | (c', Ok w) \<Rightarrow>
         (case process_onion_request C rs (snd q) w cs of
            (cs', r) \<Rightarrow> and_then r (decode_relay_response C (circuit_key c) (circuit_id c))
                        # exchange C rs qs c' cs'))"

definition small_reply :: "bytes result \<Rightarrow> bool" where
  "small_reply r \<longleftrightarrow> (case r of Ok b \<Rightarrow> length b < 2 ^ 32 | Err _ \<Rightarrow> True)"

lemma response_opens:
  assumes C: "crypto_ok C" and cid: "length cid = 16" and r: "small_reply r"
  shows "and_then (and_then r (encode_relay_response C key cid s)) (decode_relay_response C key cid) = r"
proof (cases r)
  case (Ok b)
  with r have b: "length b < 2 ^ 32" by (simp add: small_reply_def)
  from onion_inner_fields(3) [OF cid b] b
  have "length (onion_inner SUBTYPE_RELAY_RESPONSE cid b) \<le> 2 ^ 36" by simp
  from aead_encrypt_total [OF C this] obtain w where "encode_relay_response C key cid s b = Ok w"
    by (fastforce simp: encode_relay_response_def)
  with decode_encode_response [OF C cid b this] Ok show ?thesis by simp
qed simp

lemma exchange_replies:
  assumes C: "crypto_ok C" and qs: "\<forall>q\<in>set qs. inbox_request (fst q) \<and> small_reply (bus_reply (snd q) (fst q))"
    and cid: "length (circuit_id c) = 16" and eph: "length (ephemeral_public c) = 32"
    and key: "circuit_key c = derive_circuit_key C rs (ephemeral_public c)"
    and adm: "admits cs c" and n: "unat (seq c) + length qs < 2 ^ 64"
  shows "exchange C rs qs c cs = map (\<lambda>(m, nats). bus_reply nats m) qs"
  using qs cid eph key adm n
proof (induction qs arbitrary: c cs)
  case (Cons q qs)
  let ?c' = "c\<lparr>seq := seq c + 1\<rparr>"
  have m: "inbox_request (fst q)" and r: "small_reply (bus_reply (snd q) (fst q))" using Cons.prems by auto
  obtain w where enc: "encode_relay_request C c (serialize (fst q)) = (?c', Ok w)"
    using encode_relay_request_total [OF C Cons.prems(2)] m by (auto simp: inbox_request_def)
  have u: "unat (seq c + 1) = unat (seq c) + 1" using Cons.prems(6) by (simp add: unat_word_ariths)
  have "exchange C rs qs ?c' (AList.update (ephemeral_public c, circuit_id c) (circuit_key c, seq c) cs)
      = map (\<lambda>(m, nats). bus_reply nats m) qs"
    by (rule Cons.IH) (use Cons.prems admits_next [of c cs] u in simp_all)
  then show ?case
    using response_opens [OF C Cons.prems(2) r]
    by (simp add: enc process_wire [OF C Cons.prems(2-5) m enc] case_prod_beta)
qed simp

section \<open>The circuit cache\<close>

text \<open>A run of the request processor over arbitrary input.\<close>

definition cache_after :: "crypto \<Rightarrow> bytes \<Rightarrow> CircuitCache \<Rightarrow> (bytes \<times> nats_request) list \<Rightarrow> CircuitCache" where
  "cache_after C rs cs ds = foldl (\<lambda>cs (d, nats). fst (process_onion_request C rs nats d cs)) cs ds"

definition cache_ok :: "CircuitCache \<Rightarrow> bool" where
  "cache_ok cs \<longleftrightarrow> distinct (map fst cs) \<and> length cs \<le> MAX_CIRCUITS"

text \<open>A cached counter is never lost and never moves down.\<close>

definition at_least :: "CircuitCache \<Rightarrow> bytes \<times> bytes \<Rightarrow> u64 \<Rightarrow> bool" where
  "at_least cs k s \<longleftrightarrow> (\<exists>key t. map_of cs k = Some (key, t) \<and> s \<le> t)"

lemma process_cache:
  "fst (process_onion_request C rs nats d cs) =
    (if length d < 58 then cs
     else fst (lookup_circuit C rs cs (slice_of 1 33 d) (slice_of 33 49 d) (from_le (slice_of 49 57 d))))"
  by (simp add: process_onion_request_def Let_def split: prod.splits result.splits)

lemma lookup_cache_ok: "cache_ok cs \<Longrightarrow> cache_ok (fst (lookup_circuit C rs cs pk cid s))"
  by (auto simp: lookup_circuit_def cache_ok_def length_alist_update distinct_update Let_def
      split: option.splits prod.splits)

lemma lookup_at_least: "at_least cs k t \<Longrightarrow> at_least (fst (lookup_circuit C rs cs pk cid s)) k t"
  by (fastforce simp: lookup_circuit_def at_least_def update_conv' Let_def split: option.splits prod.splits)

lemma lookup_records:
  "lookup_circuit C rs cs pk cid s = (cs', Ok key) \<Longrightarrow> at_least cs' (pk, cid) s"
  by (auto simp: lookup_circuit_def at_least_def update_conv' Let_def
      split: option.splits prod.splits if_splits)

lemma lookup_replay:
  "at_least cs (pk, cid) t \<Longrightarrow> s \<le> t \<Longrightarrow>
   lookup_circuit C rs cs pk cid s = (cs, Err (InvalidData ''replayed or out-of-order seq_no''))"
  by (auto simp: lookup_circuit_def at_least_def)

lemma cache_after_inv:
  "cache_ok cs \<Longrightarrow> cache_ok (cache_after C rs cs ds)"
  by (induction ds rule: rev_induct) (auto simp: cache_after_def process_cache lookup_cache_ok)

lemma cache_after_at_least:
  "at_least cs k t \<Longrightarrow> at_least (cache_after C rs cs ds) k t"
  by (induction ds rule: rev_induct) (auto simp: cache_after_def process_cache lookup_at_least)

section \<open>Properties\<close>

text \<open>C23. Onion transport end to end: a client that opens a circuit to a relay and sends any number of
  inbox requests over it gets, for each request, exactly what the signaling service answered (or the
  error of the bus), whatever else the relay has in its cache as long as the circuit fits in it.\<close>

theorem onion_end_to_end:
  assumes "crypto_ok C" and "length rid = 16" and "length qs < 2 ^ 64"
    and "\<forall>q\<in>set qs. inbox_request (fst q) \<and> small_reply (bus_reply (snd q) (fst q))"
    and "length cs < MAX_CIRCUITS" and "map_of cs (x25519_public C ek, rid) = None"
  shows "exchange C rs qs (circuit_new C ek rid (x25519_public C rs)) cs
    = map (\<lambda>(m, nats). bus_reply nats m) qs"
  by (rule exchange_replies [OF assms(1,4)])
     (use assms in \<open>simp_all add: circuit_new_def admits_def derive_circuit_key_eq x25519_public_length
        x25519_commute [OF assms(1), of ek rs]\<close>)

theorem onion_end_to_end_witness:
  "exchange demo_crypto [5] [(InboxFetch [1, 2], \<lambda>s e. Ok [7]), (InboxAck [1, 2] [3], \<lambda>s e. Err Timeout)]
      (circuit_new demo_crypto [6] (replicate 16 9) (x25519_public demo_crypto [5])) []
    = [Ok [7], Err Timeout]"
proof -
  let ?qs = "[(InboxFetch [1, 2], \<lambda>s e. Ok [7]), (InboxAck [1, 2] [3], \<lambda>s e. Err Timeout)]
    :: (Message \<times> nats_request) list"
  have "\<forall>q\<in>set ?qs. inbox_request (fst q) \<and> small_reply (bus_reply (snd q) (fst q))"
    by (simp add: inbox_request_def subject_for_def msg_wf_def fits_u32_def serialize_def serialize_struct_def
        encode_bytes_def pad4_def small_reply_def bus_reply_def)
  then have "exchange demo_crypto [5] ?qs
      (circuit_new demo_crypto [6] (replicate 16 9) (x25519_public demo_crypto [5])) []
    = map (\<lambda>(m, nats). bus_reply nats m) ?qs"
    by (intro onion_end_to_end) (simp_all add: MAX_CIRCUITS_def)
  also have "\<dots> = [Ok [7], Err Timeout]" by (simp add: bus_reply_def subject_for_def)
  finally show ?thesis .
qed

lemma demo_request:
  fixes c :: Circuit
  assumes "c = circuit_new demo_crypto [6] (replicate 16 9) (x25519_public demo_crypto [5])"
  shows "length (circuit_id c) = 16" "length (ephemeral_public c) = 32"
    "circuit_key c = derive_circuit_key demo_crypto [5] (ephemeral_public c)"
    "inbox_request (InboxFetch [1])"
    "\<exists>w. encode_relay_request demo_crypto c (serialize (InboxFetch [1])) = (c\<lparr>seq := seq c + 1\<rparr>, Ok w)"
proof -
  show m: "inbox_request (InboxFetch [1])"
    by (simp add: inbox_request_def subject_for_def msg_wf_def fits_u32_def serialize_def serialize_struct_def
        encode_bytes_def pad4_def)
  show "circuit_key c = derive_circuit_key demo_crypto [5] (ephemeral_public c)"
    using relay_key_agrees [OF demo_crypto_ok, of "[6]" "replicate 16 9" "[5]"] assms
    by (simp add: derive_relay_side_def derive_circuit_key_eq circuit_new_def)
  show cid: "length (circuit_id c) = 16" and "length (ephemeral_public c) = 32"
    using assms by (simp_all add: circuit_new_def x25519_public_length)
  show "\<exists>w. encode_relay_request demo_crypto c (serialize (InboxFetch [1])) = (c\<lparr>seq := seq c + 1\<rparr>, Ok w)"
    using encode_relay_request_total [OF demo_crypto_ok cid] m by (simp add: inbox_request_def)
qed



text \<open>The cache of a connection never holds more than 16 circuits, and no circuit twice, whatever
  the client sends.\<close>

theorem relay_cache_bounded:
  "length (cache_after C rs [] ds) \<le> MAX_CIRCUITS \<and> distinct (map fst (cache_after C rs [] ds))"
  using cache_after_inv [of "[]" C rs ds] by (simp add: cache_ok_def)

text \<open>The cache lives for one connection only, so a recorded request can be replayed on a new
  connection: the relay then seals a second, possibly different answer under the same circuit key and
  the same nonce, which is what the sequence numbers are there to prevent.\<close>

theorem replay_on_new_connection_reuses_nonce:
  assumes C: "crypto_ok C" and cid: "length (circuit_id c) = 16" and eph: "length (ephemeral_public c) = 32"
    and key: "circuit_key c = derive_circuit_key C rs (ephemeral_public c)" and m: "inbox_request m"
    and enc: "encode_relay_request C c (serialize m) = (c', Ok w)"
    and r1: "bus_reply nats1 m = Ok r1" and r2: "bus_reply nats2 m = Ok r2"
  shows "let nonce = response_nonce_material (circuit_id c) (seq c);
             answer = (\<lambda>r. and_then (aead_encrypt C (circuit_key c) nonce
                         (onion_inner SUBTYPE_RELAY_RESPONSE (circuit_id c) r) (circuit_id c))
                       (\<lambda>ct. Ok (ONION_PREFIX # u64_le (seq c) @ ct)))
         in snd (process_onion_request C rs nats1 w []) = answer r1
          \<and> snd (process_onion_request C rs nats2 w []) = answer r2"
proof -
  have "admits [] c" by (simp add: admits_def MAX_CIRCUITS_def)
  from process_wire [OF C cid eph key this m enc] r1 r2 show ?thesis
    by (simp add: encode_relay_response_def)
qed

theorem replay_on_new_connection_reuses_nonce_witness:
  "\<exists>w key cid s. snd (process_onion_request demo_crypto [5] (\<lambda>s e. Ok [7]) w [])
       = and_then (aead_encrypt demo_crypto key (response_nonce_material cid s)
                     (onion_inner SUBTYPE_RELAY_RESPONSE cid [7]) cid)
           (\<lambda>ct. Ok (ONION_PREFIX # u64_le s @ ct))
     \<and> snd (process_onion_request demo_crypto [5] (\<lambda>s e. Ok [8]) w [])
       = and_then (aead_encrypt demo_crypto key (response_nonce_material cid s)
                     (onion_inner SUBTYPE_RELAY_RESPONSE cid [8]) cid)
           (\<lambda>ct. Ok (ONION_PREFIX # u64_le s @ ct))"
proof -
  let ?c = "circuit_new demo_crypto [6] (replicate 16 9) (x25519_public demo_crypto [5])"
  note d = demo_request [OF refl]
  obtain w where w: "encode_relay_request demo_crypto ?c (serialize (InboxFetch [1]))
      = (?c\<lparr>seq := seq ?c + 1\<rparr>, Ok w)" using d(5) by blast
  from replay_on_new_connection_reuses_nonce [OF demo_crypto_ok d(1-4) w, of "\<lambda>s e. Ok [7]" "[7]" "\<lambda>s e. Ok [8]" "[8]"]
  show ?thesis by (simp add: bus_reply_def subject_for_def Let_def) blast
qed

end
