(* ===== verification/Common_Types.thy ===== *)
theory Common_Types
  imports Complex_Main Cypher_Prelude
begin

unbundle bit_operations_syntax

text \<open>
  Shared types of \<^verbatim>\<open>crates/cypher-common\<close>: identifiers, file metadata and limits (\<^verbatim>\<open>types.rs\<close>), the
  base-32 link encoding, and the token bucket (\<^verbatim>\<open>ratelimit.rs\<close>).  The bucket's floating-point tokens
  are real numbers in the model, and the clock is an argument.
\<close>

section \<open>Identifiers and metadata\<close>

datatype PeerId = PeerId bytes

primrec peer_bytes :: "PeerId \<Rightarrow> bytes" where
  "peer_bytes (PeerId b) = b"

definition peer_from_bytes :: "bytes \<Rightarrow> PeerId option" where
  "peer_from_bytes b = (if length b = 32 then Some (PeerId b) else None)"

datatype FileId = FileId bytes

primrec file_id_bytes :: "FileId \<Rightarrow> bytes" where
  "file_id_bytes (FileId b) = b"

definition file_id_from_bytes :: "bytes \<Rightarrow> FileId option" where
  "file_id_from_bytes b = (if length b = 16 then Some (FileId b) else None)"

record FileMeta =
  meta_file_id :: FileId
  meta_name :: rstring
  meta_size :: u64
  meta_chunk_count :: u32
  meta_hash :: bytes
  meta_compressed :: bool

definition CHUNK_SIZE :: nat where "CHUNK_SIZE = 256 * 1024"
definition DEFAULT_WINDOW_SIZE :: nat where "DEFAULT_WINDOW_SIZE = 16"
definition HEARTBEAT_INTERVAL_SECS :: u64 where "HEARTBEAT_INTERVAL_SECS = 30"
definition MAX_MISSED_HEARTBEATS :: u32 where "MAX_MISSED_HEARTBEATS = 3"
definition MSG_RATE_LIMIT_PER_SEC :: u32 where "MSG_RATE_LIMIT_PER_SEC = 100"
definition MSG_RATE_LIMIT_BURST :: u32 where "MSG_RATE_LIMIT_BURST = 200"

section \<open>Token bucket\<close>

text \<open>The cast \<^verbatim>\<open>n as f64\<close>.\<close>

definition as_f64 :: "u32 \<Rightarrow> real" where
  "as_f64 n = real (unat n)"

lemma as_f64_nonneg [simp]: "0 \<le> as_f64 n"
  unfolding as_f64_def by (rule of_nat_0_le_iff)

record TokenBucket =
  capacity :: u32
  tokens :: real
  refill_rate :: real
  last_refill :: real

definition bucket_new :: "real \<Rightarrow> u32 \<Rightarrow> real \<Rightarrow> TokenBucket" where
  "bucket_new now cap rate =
    \<lparr>capacity = cap, tokens = as_f64 cap, refill_rate = rate, last_refill = now\<rparr>"

definition refill :: "real \<Rightarrow> TokenBucket \<Rightarrow> TokenBucket" where
  "refill now b =
    (let elapsed = max 0 (now - last_refill b)
     in b\<lparr>tokens := min (tokens b + elapsed * refill_rate b) (as_f64 (capacity b)),
          last_refill := now\<rparr>)"

definition try_consume :: "real \<Rightarrow> u32 \<Rightarrow> TokenBucket \<Rightarrow> TokenBucket \<times> bool" where
  "try_consume now n b =
    (let b1 = refill now b; cost = as_f64 n in
     if tokens b1 \<ge> cost then (b1\<lparr>tokens := tokens b1 - cost\<rparr>, True) else (b1, False))"

text \<open>A sequence of calls, each with the time and the number of tokens asked for; the result is the
  final bucket and the number of tokens granted.\<close>

primrec consume_all :: "(real \<times> u32) list \<Rightarrow> TokenBucket \<Rightarrow> TokenBucket \<times> real" where
  "consume_all [] b = (b, 0)"
| "consume_all (c # cs) b =
    (let (b1, ok) = try_consume (fst c) (snd c) b;
         (b2, granted) = consume_all cs b1
     in (b2, (if ok then as_f64 (snd c) else 0) + granted))"

definition bucket_ok :: "TokenBucket \<Rightarrow> bool" where
  "bucket_ok b \<longleftrightarrow> 0 \<le> tokens b \<and> tokens b \<le> as_f64 (capacity b) \<and> 0 \<le> refill_rate b"

lemma try_consume_step:
  assumes "bucket_ok b" "last_refill b \<le> now" "try_consume now n b = (b', ok)"
  shows "bucket_ok b' \<and> last_refill b' = now \<and> refill_rate b' = refill_rate b \<and> capacity b' = capacity b
    \<and> tokens b' + (if ok then as_f64 n else 0) \<le> tokens b + (now - last_refill b) * refill_rate b"
proof -
  let ?t = "min (tokens b + (now - last_refill b) * refill_rate b) (as_f64 (capacity b))"
  have "0 \<le> (now - last_refill b) * refill_rate b" using assms by (simp add: bucket_ok_def)
  then have "0 \<le> ?t" using assms(1) by (simp add: bucket_ok_def)
  moreover have "?t - as_f64 n \<le> as_f64 (capacity b)"
    using as_f64_nonneg [of n] min.cobounded2 [of "tokens b + (now - last_refill b) * refill_rate b"
        "as_f64 (capacity b)"] by linarith
  ultimately show ?thesis
    using assms by (auto simp: try_consume_def refill_def bucket_ok_def Let_def split: if_splits)
qed

lemma consume_all_bound:
  assumes "bucket_ok b" "sorted (last_refill b # map fst cs)" "consume_all cs b = (b', g)"
  shows "bucket_ok b' \<and> tokens b' + g \<le> tokens b + (last_refill b' - last_refill b) * refill_rate b
    \<and> last_refill b' = last (last_refill b # map fst cs) \<and> refill_rate b' = refill_rate b"
  using assms
proof (induction cs arbitrary: b g)
  case (Cons c cs)
  obtain b1 ok where 1: "try_consume (fst c) (snd c) b = (b1, ok)" by force
  obtain g1 where 2: "consume_all cs b1 = (b', g1)" and g: "g = (if ok then as_f64 (snd c) else 0) + g1"
    using Cons.prems(3) 1 by (auto simp: Let_def split: prod.splits)
  have le: "last_refill b \<le> fst c" using Cons.prems(2) by simp
  note s = try_consume_step [OF Cons.prems(1) le 1]
  with Cons.prems(2) have "sorted (last_refill b1 # map fst cs)" by simp
  note ih = Cons.IH [OF _ this 2] 
  have "(last_refill b' - fst c) * refill_rate b + (fst c - last_refill b) * refill_rate b
      = (last_refill b' - last_refill b) * refill_rate b" by (simp add: algebra_simps)
  with ih s g show ?case by (auto split: if_splits)
qed simp

section \<open>Properties\<close>

text \<open>The rate limit holds: starting from a full bucket, the tokens granted by any calls at
  non-decreasing times never exceed the burst capacity plus the refill rate times the elapsed time,
  and the bucket never overflows or goes below zero.\<close>

theorem rate_limit_bound:
  assumes "0 \<le> rate" "sorted (t0 # map fst cs)" "consume_all cs (bucket_new t0 cap rate) = (b, g)"
  shows "g \<le> as_f64 cap + (last (t0 # map fst cs) - t0) * rate
    \<and> 0 \<le> tokens b \<and> tokens b \<le> as_f64 (capacity b)"
proof -
  have "bucket_ok (bucket_new t0 cap rate)" using assms(1) by (simp add: bucket_ok_def bucket_new_def)
  from consume_all_bound [OF this _ assms(3)] assms(2) show ?thesis
    by (auto simp: bucket_new_def bucket_ok_def)
qed

theorem rate_limit_bound_witness:
  "snd (consume_all [(0, 3), (1, 4), (1, 4)] (bucket_new 0 5 2)) \<le> as_f64 (5 :: u32) + (1 - 0) * 2"
  using rate_limit_bound [of 2 0 "[(0, 3), (1, 4), (1, 4)]" 5
      "fst (consume_all [(0, 3), (1, 4), (1, 4)] (bucket_new 0 5 2))"
      "snd (consume_all [(0, 3), (1, 4), (1, 4)] (bucket_new 0 5 2))"]
  by simp

end
