(* ===== verification/File_Transfer.thy ===== *)
theory File_Transfer
  imports Common_Types Crypto_Base
begin

text \<open>
  File transfer (\<^verbatim>\<open>crates/cypher-transfer/src\<close>): splitting a file into chunks (\<^verbatim>\<open>chunker.rs\<close>), putting
  it together and persisting the progress (\<^verbatim>\<open>assembler.rs\<close>, \<^verbatim>\<open>receiver.rs\<close>), and the windowed sender
  (\<^verbatim>\<open>sender.rs\<close>).  A file is its content together with the access mode of the handle, which
  \<^verbatim>\<open>File::create\<close> opens for writing only.  Disk failures are not modelled.
\<close>

section \<open>Files\<close>

record file_handle =
  content :: bytes
  readable :: bool

definition write_at :: "nat \<Rightarrow> bytes \<Rightarrow> bytes \<Rightarrow> bytes" where
  "write_at off data bs =
    take off (bs @ replicate (off - length bs) 0) @ data @ drop (off + length data) bs"

text \<open>Reading to the end in blocks of \<^verbatim>\<open>CHUNK_SIZE\<close>, as both hashing loops do.\<close>

function blocks :: "bytes \<Rightarrow> bytes list" where
  "blocks bs = (if bs = [] then [] else take CHUNK_SIZE bs # blocks (drop CHUNK_SIZE bs))"
  by pat_completeness auto
termination
  by (relation "measure length") (auto simp: CHUNK_SIZE_def)

declare blocks.simps [simp del]

lemma concat_blocks: "concat (blocks bs) = bs"
proof (induction bs rule: blocks.induct)
  case (1 bs)
  then show ?case by (subst blocks.simps) auto
qed

section \<open>Chunker\<close>

record FileChunker =
  chunker_content :: bytes
  chunker_file_id :: FileId
  chunker_size :: u64
  chunk_count :: u32
  file_hash :: bytes

definition div_ceil :: "nat \<Rightarrow> nat \<Rightarrow> nat" where
  "div_ceil a b = (if a mod b = 0 then a div b else a div b + 1)"

definition chunker_new :: "crypto \<Rightarrow> FileId \<Rightarrow> bytes \<Rightarrow> FileChunker" where
  "chunker_new C fid bs =
    (let size = word_of_nat (length bs) :: u64 in
     \<lparr>chunker_content = bs, chunker_file_id = fid, chunker_size = size,
      chunk_count = (if size = 0 then 0 else word_of_nat (div_ceil (unat size) CHUNK_SIZE)),
      file_hash = sha256 C (concat (blocks bs))\<rparr>)"

definition chunker_meta :: "FileChunker \<Rightarrow> rstring \<Rightarrow> bool \<Rightarrow> FileMeta" where
  "chunker_meta ch name zipped =
    \<lparr>meta_file_id = chunker_file_id ch, meta_name = name, meta_size = chunker_size ch,
     meta_chunk_count = chunk_count ch, meta_hash = file_hash ch, meta_compressed = zipped\<rparr>"

definition read_chunk :: "crypto \<Rightarrow> FileChunker \<Rightarrow> u32 \<Rightarrow> (bytes \<times> bytes) result" where
  "read_chunk C ch index =
    (if index \<ge> chunk_count ch then Err (Transfer ''chunk index out of range'')
     else
       let offset = unat index * CHUNK_SIZE;
           remaining = unat (chunker_size ch) - offset;
           to_read = min remaining CHUNK_SIZE
       in if offset + to_read > length (chunker_content ch) then Err (Io ''failed to fill whole buffer'')
          else let buf = slice_of offset (offset + to_read) (chunker_content ch)
               in Ok (buf, sha256 C buf))"

section \<open>Assembler\<close>

definition SAVE_STATE_INTERVAL :: u32 where "SAVE_STATE_INTERVAL = 64"

record FileAssembler =
  asm_file :: file_handle
  asm_file_id :: FileId
  expected_chunks :: u32
  received :: "u32 list"
  expected_hash :: bytes
  file_size :: u64
  sidecar :: "bytes option"

definition assembler_new :: "FileMeta \<Rightarrow> FileAssembler" where
  "assembler_new meta =
    \<lparr>asm_file = \<lparr>content = replicate (unat (meta_size meta)) 0, readable = False\<rparr>,
     asm_file_id = meta_file_id meta, expected_chunks = meta_chunk_count meta, received = [],
     expected_hash = meta_hash meta, file_size = meta_size meta, sidecar = None\<rparr>"

text \<open>\<^verbatim>\<open>chunks_exact(4)\<close>: groups of four bytes, a shorter rest is ignored.\<close>

fun chunks_exact4 :: "bytes \<Rightarrow> bytes list" where
  "chunks_exact4 (a # b # c # d # r) = [a, b, c, d] # chunks_exact4 r"
| "chunks_exact4 _ = []"

definition load_state :: "bytes option \<Rightarrow> bytes \<Rightarrow> FileMeta \<Rightarrow> FileAssembler option" where
  "load_state sf dest meta =
    (case sf of
       None \<Rightarrow> None
     | Some data \<Rightarrow>
         let idxs = map from_le (chunks_exact4 data);
             rcv = foldl (\<lambda>r i. if i < meta_chunk_count meta then List.insert i r else r) [] idxs
         in Some \<lparr>asm_file = \<lparr>content = dest, readable = True\<rparr>, asm_file_id = meta_file_id meta,
                  expected_chunks = meta_chunk_count meta, received = rcv,
                  expected_hash = meta_hash meta, file_size = meta_size meta, sidecar = sf\<rparr>)"

definition save_state :: "FileAssembler \<Rightarrow> FileAssembler" where
  "save_state a = a\<lparr>sidecar := Some (concat (map u32_le (received a)))\<rparr>"

definition cleanup_state :: "FileAssembler \<Rightarrow> FileAssembler" where
  "cleanup_state a = a\<lparr>sidecar := None\<rparr>"

definition write_chunk ::
  "crypto \<Rightarrow> FileAssembler \<Rightarrow> u32 \<Rightarrow> bytes \<Rightarrow> bytes \<Rightarrow> FileAssembler \<times> unit result" where
  "write_chunk C a index data hash =
    (if sha256 C data \<noteq> hash then (a, Err (Transfer ''chunk hash mismatch''))
     else if index \<ge> expected_chunks a then (a, Err (Transfer ''chunk index out of range''))
     else
       let offset = unat index * CHUNK_SIZE;
           a1 = a\<lparr>asm_file := (asm_file a)\<lparr>content := write_at offset data (content (asm_file a))\<rparr>,
                  received := List.insert index (received a)\<rparr>;
           a2 = if (word_of_nat (length (received a1)) :: u32) mod SAVE_STATE_INTERVAL = 0
                then save_state a1 else a1
       in (a2, Ok ()))"

definition is_complete :: "FileAssembler \<Rightarrow> bool" where
  "is_complete a \<longleftrightarrow> word_of_nat (length (received a)) = expected_chunks a"

definition missing_chunks :: "FileAssembler \<Rightarrow> u32 list" where
  "missing_chunks a = filter (\<lambda>i. i \<notin> set (received a)) (map word_of_nat [0..<unat (expected_chunks a)])"

definition verify_file :: "crypto \<Rightarrow> FileAssembler \<Rightarrow> bool result" where
  "verify_file C a =
    (if unat (file_size a) > 0 \<and> \<not> readable (asm_file a) then Err (Io ''Bad file descriptor'')
     else Ok (sha256 C (concat (blocks (take (unat (file_size a)) (content (asm_file a)))))
              = expected_hash a))"

text \<open>\<^verbatim>\<open>TransferReceiver\<close> wraps the assembler.\<close>

definition handle_chunk ::
  "crypto \<Rightarrow> FileAssembler \<Rightarrow> u32 \<Rightarrow> bytes \<Rightarrow> bytes \<Rightarrow> FileAssembler \<times> bool result" where
  "handle_chunk C a index data hash =
    (case write_chunk C a index data hash of
       (a', Err e) \<Rightarrow> (a', Err e)
     | (a', Ok _) \<Rightarrow> (a', Ok (is_complete a')))"

section \<open>Reassembly\<close>

lemma CHUNK_SIZE_pos [simp]: "0 < CHUNK_SIZE"
  by (simp add: CHUNK_SIZE_def)

lemma length_write_at: "off + length data \<le> length bs \<Longrightarrow> length (write_at off data bs) = length bs"
  by (simp add: write_at_def)

lemma nth_write_at:
  assumes "off + length data \<le> length bs" "p < length bs"
  shows "write_at off data bs ! p = (if off \<le> p \<and> p < off + length data then data ! (p - off) else bs ! p)"
  using assms by (auto simp: write_at_def nth_append)

lemma div_ceil_gt_iff: "j < div_ceil n CHUNK_SIZE \<longleftrightarrow> j * CHUNK_SIZE < n"
proof -
  define q r where "q = n div CHUNK_SIZE" and "r = n mod CHUNK_SIZE"
  have n: "n = q * CHUNK_SIZE + r" and r: "r < CHUNK_SIZE" by (simp_all add: q_def r_def)
  consider "Suc j \<le> q" | "j = q" | "Suc q \<le> j" by linarith
  then have "j * CHUNK_SIZE < q * CHUNK_SIZE + r \<longleftrightarrow> j < q \<or> j = q \<and> 0 < r"
  proof cases
    case 1
    then have "Suc j * CHUNK_SIZE \<le> q * CHUNK_SIZE" by (rule mult_le_mono1)
    with 1 r show ?thesis by simp
  next
    case 3
    then have "Suc q * CHUNK_SIZE \<le> j * CHUNK_SIZE" by (rule mult_le_mono1)
    with 3 r show ?thesis by simp
  qed simp
  then show ?thesis unfolding div_ceil_def q_def [symmetric] r_def [symmetric] n [symmetric] by auto
qed

text \<open>The file fits the 32-bit chunk counter.\<close>

definition transferable :: "bytes \<Rightarrow> bool" where
  "transferable bs \<longleftrightarrow> div_ceil (length bs) CHUNK_SIZE < 2 ^ 32 \<and> length bs < 2 ^ 64"

definition num_chunks :: "bytes \<Rightarrow> nat" where
  "num_chunks bs = div_ceil (length bs) CHUNK_SIZE"

definition chunk_at :: "bytes \<Rightarrow> nat \<Rightarrow> bytes" where
  "chunk_at bs j = slice_of (j * CHUNK_SIZE) (j * CHUNK_SIZE + min (length bs - j * CHUNK_SIZE) CHUNK_SIZE) bs"

lemma chunker_facts:
  assumes "transferable bs"
  shows "unat (chunker_size (chunker_new C fid bs)) = length bs"
    and "unat (chunk_count (chunker_new C fid bs)) = num_chunks bs"
    and "chunker_content (chunker_new C fid bs) = bs"
    and "file_hash (chunker_new C fid bs) = sha256 C bs"
proof -
  have u: "unat (word_of_nat (length bs) :: u64) = length bs"
    using assms by (simp add: transferable_def unat_of_nat_small)
  then show "unat (chunker_size (chunker_new C fid bs)) = length bs" by (simp add: chunker_new_def Let_def)
  have c: "unat (word_of_nat (div_ceil (length bs) CHUNK_SIZE) :: u32) = div_ceil (length bs) CHUNK_SIZE"
    using assms by (intro unat_of_nat_small) (simp add: transferable_def)
  have "(word_of_nat (length bs) :: u64) = 0 \<longleftrightarrow> length bs = 0" using u by (metis unat_eq_zero)
  then show "unat (chunk_count (chunker_new C fid bs)) = num_chunks bs"
    using u c by (simp add: chunker_new_def num_chunks_def Let_def) (simp add: div_ceil_def)
qed (simp_all add: chunker_new_def concat_blocks Let_def)

lemma read_chunk_new:
  assumes "transferable bs" "unat i < num_chunks bs"
  shows "read_chunk C (chunker_new C fid bs) i = Ok (chunk_at bs (unat i), sha256 C (chunk_at bs (unat i)))"
proof -
  note f = chunker_facts [OF assms(1), of C fid]
  have "\<not> chunk_count (chunker_new C fid bs) \<le> i" using assms(2) f(2) by (simp add: word_le_nat_alt)
  moreover have "unat i * CHUNK_SIZE < length bs" using assms(2) by (simp add: num_chunks_def div_ceil_gt_iff)
  ultimately show ?thesis by (simp add: read_chunk_def f chunk_at_def Let_def)
qed

text \<open>What is marked as received is already in place.\<close>

definition asm_inv :: "crypto \<Rightarrow> bytes \<Rightarrow> FileAssembler \<Rightarrow> bool" where
  "asm_inv C bs a \<longleftrightarrow>
    length (content (asm_file a)) = length bs
    \<and> (\<forall>p<length bs. word_of_nat (p div CHUNK_SIZE) \<in> set (received a) \<longrightarrow> content (asm_file a) ! p = bs ! p)
    \<and> distinct (received a)
    \<and> (\<forall>i\<in>set (received a). i < expected_chunks a)
    \<and> unat (expected_chunks a) = num_chunks bs
    \<and> unat (file_size a) = length bs \<and> expected_hash a = sha256 C bs"

lemma asm_inv_new:
  "transferable bs \<Longrightarrow> asm_inv C bs (assembler_new (chunker_meta (chunker_new C fid bs) nm z))"
  by (simp add: asm_inv_def assembler_new_def chunker_meta_def chunker_facts)

lemma chunk_index:
  assumes "transferable bs" "p < length bs"
  shows "unat (word_of_nat (p div CHUNK_SIZE) :: u32) = p div CHUNK_SIZE" "p div CHUNK_SIZE < num_chunks bs"
proof -
  have "p div CHUNK_SIZE * CHUNK_SIZE \<le> p" by simp
  with assms(2) show lt: "p div CHUNK_SIZE < num_chunks bs"
    by (simp add: num_chunks_def div_ceil_gt_iff del: div_times_less_eq_dividend)
  with assms(1) show "unat (word_of_nat (p div CHUNK_SIZE) :: u32) = p div CHUNK_SIZE"
    by (intro unat_of_nat_small) (simp add: num_chunks_def transferable_def)
qed

lemma write_chunk_good:
  assumes tr: "transferable bs" and inv: "asm_inv C bs a" and i: "unat i < num_chunks bs"
    and a': "write_chunk C a i (chunk_at bs (unat i)) (sha256 C (chunk_at bs (unat i))) = (a', r)"
  shows "r = Ok ()" "asm_inv C bs a'" "set (received a') = insert i (set (received a))"
    "readable (asm_file a') = readable (asm_file a)"
proof -
  let ?d = "chunk_at bs (unat i)" and ?off = "unat i * CHUNK_SIZE"
  let ?c = "content (asm_file a)" and ?c' = "write_at (unat i * CHUNK_SIZE) (chunk_at bs (unat i)) (content (asm_file a))"
  have lt: "?off < length bs" using i by (simp add: num_chunks_def div_ceil_gt_iff)
  have ld: "length ?d = min (length bs - ?off) CHUNK_SIZE" by (simp add: chunk_at_def)
  have len: "length ?c = length bs" and ne: "\<not> expected_chunks a \<le> i"
    using inv i by (auto simp: asm_inv_def word_le_nat_alt)
  have fit: "?off + length ?d \<le> length ?c" using lt ld len by simp
  have a'': "content (asm_file a') = ?c'" "received a' = List.insert i (received a)" "r = Ok ()"
      "expected_chunks a' = expected_chunks a" "file_size a' = file_size a"
      "expected_hash a' = expected_hash a" "readable (asm_file a') = readable (asm_file a)"
    using a' ne by (auto simp: write_chunk_def save_state_def Let_def split: if_splits)
  have "?c' ! p = bs ! p" if p: "p < length bs" and k: "word_of_nat (p div CHUNK_SIZE) \<in> insert i (set (received a))" for p
  proof (cases "p div CHUNK_SIZE = unat i")
    case True
    have "p = p div CHUNK_SIZE * CHUNK_SIZE + p mod CHUNK_SIZE" by simp
    moreover have "p mod CHUNK_SIZE < CHUNK_SIZE" by simp
    ultimately have "?off \<le> p" "p < ?off + CHUNK_SIZE" unfolding True by linarith+
    then have k: "p - ?off < length ?d" unfolding ld using p by (simp add: less_diff_conv2 add.commute)
    then have "?d ! (p - ?off) = bs ! p"
      using \<open>?off \<le> p\<close> ld lt by (simp add: chunk_at_def slice_of_def)
    with k \<open>?off \<le> p\<close> show ?thesis
      using p len fit by (simp add: nth_write_at less_diff_conv2 add.commute)
  next
    case False
    with chunk_index [OF tr p] k have "word_of_nat (p div CHUNK_SIZE) \<in> set (received a)" by auto
    with inv p have "?c ! p = bs ! p" by (simp add: asm_inv_def)
    moreover have "\<not> (?off \<le> p \<and> p < ?off + length ?d)"
    proof
      assume "?off \<le> p \<and> p < ?off + length ?d"
      then have "unat i * CHUNK_SIZE \<le> p" "p < Suc (unat i) * CHUNK_SIZE" using ld by auto
      then have "p div CHUNK_SIZE = unat i" by (intro div_nat_eqI) (simp_all add: mult.commute)
      with False show False ..
    qed
    ultimately show ?thesis using p len fit by (auto simp: nth_write_at)
  qed
  then show "asm_inv C bs a'"
    using inv a'' fit ne by (auto simp: asm_inv_def length_write_at distinct_insert not_le)
  show "r = Ok ()" "set (received a') = insert i (set (received a))"
    "readable (asm_file a') = readable (asm_file a)" using a'' by auto
qed

lemma complete_content:
  assumes tr: "transferable bs" and inv: "asm_inv C bs a" and all: "\<forall>i. unat i < num_chunks bs \<longrightarrow> i \<in> set (received a)"
  shows "content (asm_file a) = bs" "is_complete a" "missing_chunks a = []"
proof -
  have "content (asm_file a) ! p = bs ! p" if "p < length bs" for p
    using inv that all chunk_index [OF tr that] by (simp add: asm_inv_def)
  then show "content (asm_file a) = bs" using inv by (intro nth_equalityI) (auto simp: asm_inv_def)
  have small: "num_chunks bs < 2 ^ 32" using tr by (simp add: transferable_def num_chunks_def)
  have "set (received a) = word_of_nat ` {..<num_chunks bs}"
  proof (intro equalityI subsetI)
    fix i assume "i \<in> set (received a)"
    with inv have "unat i < num_chunks bs" by (auto simp: asm_inv_def word_less_nat_alt)
    then show "i \<in> word_of_nat ` {..<num_chunks bs}" by (intro image_eqI [of _ _ "unat i"]) simp_all
  next
    fix i :: u32 assume "i \<in> word_of_nat ` {..<num_chunks bs}"
    then obtain k where k: "k < num_chunks bs" "i = word_of_nat k" by auto
    with small have "unat i = k" by (simp add: unat_of_nat_small)
    with k all show "i \<in> set (received a)" by simp
  qed
  moreover have "inj_on (word_of_nat :: nat \<Rightarrow> u32) {..<num_chunks bs}"
    using small by (auto intro!: inj_onI simp: word_of_nat_eq_small)
  ultimately have "card (set (received a)) = num_chunks bs" by (simp add: card_image)
  then have "length (received a) = num_chunks bs" using inv by (simp add: asm_inv_def distinct_card)
  then have "length (received a) = unat (expected_chunks a)" using inv by (simp add: asm_inv_def)
  then show "is_complete a" by (simp add: is_complete_def)
  show "missing_chunks a = []"
    using inv all small by (auto simp: missing_chunks_def asm_inv_def filter_empty_conv unat_of_nat_small)
qed

lemma missing_complement:
  assumes "asm_inv C bs a"
  shows "set (missing_chunks a) \<union> set (received a) = {i. unat i < num_chunks bs}"
proof -
  have "word_of_nat ` {0..<unat (expected_chunks a)} = {i :: u32. unat i < num_chunks bs}"
  proof (intro equalityI subsetI)
    fix i :: u32 assume "i \<in> {i. unat i < num_chunks bs}"
    then show "i \<in> word_of_nat ` {0..<unat (expected_chunks a)}"
      using assms by (intro image_eqI [of _ _ "unat i"]) (simp_all add: asm_inv_def)
  next
    fix i :: u32 assume "i \<in> word_of_nat ` {0..<unat (expected_chunks a)}"
    then obtain k where k: "i = word_of_nat k" "k < unat (expected_chunks a)" by auto
    then have "k < 2 ^ LENGTH(32)" using unsigned_less [of "expected_chunks a"] by (rule_tac order_less_trans) simp_all
    with k assms show "i \<in> {i. unat i < num_chunks bs}"
      by (simp add: asm_inv_def unat_of_nat_small)
  qed
  then have "set (map word_of_nat [0..<unat (expected_chunks a)]) = {i :: u32. unat i < num_chunks bs}" by simp
  moreover have "set (received a) \<subseteq> {i. unat i < num_chunks bs}"
    using assms by (auto simp: asm_inv_def word_less_nat_alt)
  ultimately show ?thesis unfolding missing_chunks_def set_filter by blast
qed

text \<open>Delivering the chunks with the listed indices, in that order.\<close>

definition receive_all :: "crypto \<Rightarrow> FileChunker \<Rightarrow> u32 list \<Rightarrow> FileAssembler \<Rightarrow> FileAssembler" where
  "receive_all C ch js a =
    foldl (\<lambda>a j. case read_chunk C ch j of
                   Ok (d, h) \<Rightarrow> fst (handle_chunk C a j d h) | Err _ \<Rightarrow> a) a js"

lemma handle_chunk_fst: "fst (handle_chunk C a i d h) = fst (write_chunk C a i d h)"
  by (simp add: handle_chunk_def split: prod.splits result.splits)

lemma receive_all_inv:
  assumes tr: "transferable bs" and inv: "asm_inv C bs a" and js: "\<forall>j\<in>set js. unat j < num_chunks bs"
  shows "asm_inv C bs (receive_all C (chunker_new C fid bs) js a)
    \<and> set (received (receive_all C (chunker_new C fid bs) js a)) = set js \<union> set (received a)
    \<and> readable (asm_file (receive_all C (chunker_new C fid bs) js a)) = readable (asm_file a)"
  using js
proof (induction js rule: rev_induct)
  case (snoc j js)
  let ?a = "receive_all C (chunker_new C fid bs) js a"
  obtain a' r where w: "write_chunk C ?a j (chunk_at bs (unat j)) (sha256 C (chunk_at bs (unat j))) = (a', r)"
    by force
  have ih: "asm_inv C bs ?a" "set (received ?a) = set js \<union> set (received a)"
      "readable (asm_file ?a) = readable (asm_file a)" and j: "unat j < num_chunks bs"
    using snoc by auto
  have "receive_all C (chunker_new C fid bs) (js @ [j]) a = a'"
    using w by (simp add: receive_all_def read_chunk_new [OF tr j] handle_chunk_fst)
  with write_chunk_good [OF tr ih(1) j w] ih show ?case by auto
qed (simp add: receive_all_def inv)

section \<open>Resuming\<close>

lemma chunks_exact4_concat: "chunks_exact4 (concat (map u32_le is)) = map u32_le is"
proof (induction "is")
  case (Cons i "is")
  have "\<exists>a b c d. u32_le i = [a, b, c, d]" by (simp add: byte_eval)
  then obtain a b c d where "u32_le i = [a, b, c, d]" by blast
  with Cons show ?case by simp
qed simp

lemma load_indices:
  "set (foldl (\<lambda>r i. if i < n then List.insert i r else r) r0 is) = set r0 \<union> {i \<in> set is. i < n}
   \<and> (distinct r0 \<longrightarrow> distinct (foldl (\<lambda>r i. if i < n then List.insert i r else r) r0 is))"
  by (induction "is" arbitrary: r0) (auto simp: distinct_insert)

lemma load_saved:
  assumes inv: "asm_inv C bs a" and m: "meta_chunk_count m = expected_chunks a" "meta_size m = file_size a"
      "meta_hash m = expected_hash a"
  shows "\<exists>a'. load_state (sidecar (save_state a)) (content (asm_file a)) m = Some a'
    \<and> asm_inv C bs a' \<and> set (received a') = set (received a) \<and> readable (asm_file a')"
proof -
  have "map from_le (chunks_exact4 (concat (map u32_le (received a)))) = received a"
    by (simp add: chunks_exact4_concat u32le.dec_enc comp_def)
  with inv m load_indices [of "expected_chunks a" "[]" "received a"] show ?thesis
    by (auto simp: load_state_def save_state_def asm_inv_def Let_def)
qed

lemma verify_complete:
  assumes "asm_inv C bs a" "content (asm_file a) = bs" "readable (asm_file a)"
  shows "verify_file C a = Ok True"
  using assms by (simp add: verify_file_def asm_inv_def concat_blocks)

section \<open>Properties\<close>

lemma small_file:
  "transferable [1, 2, 3]" "num_chunks [1, 2, 3] = 1" "set [0, 0] = {i :: u32. unat i < 1}"
  by (auto simp: transferable_def num_chunks_def div_ceil_def CHUNK_SIZE_def unat_eq_zero)

text \<open>C27. Reassembly: whatever the order in which chunks arrive and however often they are repeated, once
  every chunk of a file has arrived the receiver reports completion, misses nothing, and its file is
  byte for byte the one that was sent.\<close>

theorem reassembly:
  assumes "transferable bs" and "set js = {i. unat i < num_chunks bs}"
  shows "let ch = chunker_new C fid bs;
             a = receive_all C ch js (assembler_new (chunker_meta ch nm z))
         in content (asm_file a) = bs \<and> is_complete a \<and> missing_chunks a = []"
proof -
  let ?ch = "chunker_new C fid bs"
  let ?a = "receive_all C ?ch js (assembler_new (chunker_meta ?ch nm z))"
  have "asm_inv C bs ?a" "\<forall>i. unat i < num_chunks bs \<longrightarrow> i \<in> set (received ?a)"
    using receive_all_inv [OF assms(1) asm_inv_new [OF assms(1)], of js C fid fid nm z] assms(2) by auto
  from complete_content [OF assms(1) this] show ?thesis by (simp add: Let_def)
qed

theorem reassembly_witness:
  "let ch = chunker_new demo_crypto (FileId []) [1, 2, 3];
       a = receive_all demo_crypto ch [0, 0] (assembler_new (chunker_meta ch [] False))
   in content (asm_file a) = [1, 2, 3] \<and> is_complete a \<and> missing_chunks a = []"
  by (rule reassembly) (simp_all only: small_file)



text \<open>The integrity check of a fresh transfer cannot succeed: \<^verbatim>\<open>FileAssembler::new\<close> opens the
  destination with \<^verbatim>\<open>File::create\<close>, write-only, and \<^verbatim>\<open>verify\<close> reads through a clone of that handle, so for
  every non-empty file it ends in an I/O error even when all chunks have arrived correctly.\<close>

theorem fresh_transfer_verify_fails:
  assumes "transferable bs" "bs \<noteq> []" and "set js = {i. unat i < num_chunks bs}"
  shows "let ch = chunker_new C fid bs;
             a = receive_all C ch js (assembler_new (chunker_meta ch nm z))
         in content (asm_file a) = bs \<and> verify_file C a = Err (Io ''Bad file descriptor'')"
proof -
  let ?ch = "chunker_new C fid bs"
  let ?a = "receive_all C ?ch js (assembler_new (chunker_meta ?ch nm z))"
  have r: "asm_inv C bs ?a" "\<forall>i. unat i < num_chunks bs \<longrightarrow> i \<in> set (received ?a)" "\<not> readable (asm_file ?a)"
    using receive_all_inv [OF assms(1) asm_inv_new [OF assms(1)], of js C fid fid nm z] assms(3)
    by (auto simp: assembler_new_def)
  with complete_content(1) [OF assms(1) r(1,2)] assms(2) show ?thesis
    by (simp add: verify_file_def asm_inv_def Let_def)
qed

theorem fresh_transfer_verify_fails_witness:
  "let ch = chunker_new demo_crypto (FileId []) [1, 2, 3];
       a = receive_all demo_crypto ch [0, 0] (assembler_new (chunker_meta ch [] False))
   in content (asm_file a) = [1, 2, 3] \<and> verify_file demo_crypto a = Err (Io ''Bad file descriptor'')"
  by (rule fresh_transfer_verify_fails) (simp_all only: small_file, simp)

end
