(* ===== verification/Transfer_Sender.thy ===== *)
theory Transfer_Sender
  imports File_Transfer
begin

text \<open>
  The windowed sender (\<^verbatim>\<open>crates/cypher-transfer/src/sender.rs\<close>).  The transport callback is the
  argument \<^verbatim>\<open>send\<close>, giving the outcome of its n-th call; the acknowledgement channel is the list of
  indices it delivers before it is closed.
\<close>

section \<open>Sending\<close>

record TransferSender =
  snd_chunker :: FileChunker
  window_size :: nat
  acked :: "u32 list"

type_synonym sent_chunks = "(u32 \<times> bytes \<times> bytes) list"

definition sender_new :: "FileChunker \<Rightarrow> nat \<Rightarrow> TransferSender" where
  "sender_new ch w = \<lparr>snd_chunker = ch, window_size = w, acked = []\<rparr>"

text \<open>The two inner loops: while chunks remain and the condition holds, read the next chunk and send it.
  The first argument is the number of chunks not sent yet.\<close>

primrec pump ::
  "nat \<Rightarrow> crypto \<Rightarrow> (nat \<Rightarrow> unit result) \<Rightarrow> FileChunker \<Rightarrow> (nat \<Rightarrow> bool) \<Rightarrow> nat \<Rightarrow> sent_chunks
    \<Rightarrow> nat \<times> sent_chunks \<times> unit result" where
  "pump 0 C send ch cond n sent = (n, sent, Ok ())"
| "pump (Suc k) C send ch cond n sent =
    (if \<not> cond n then (n, sent, Ok ())
     else case read_chunk C ch (word_of_nat n) of
            Err e \<Rightarrow> (n, sent, Err e)
          | Ok (data, hash) \<Rightarrow>
              (case send (length sent) of
                 Err e \<Rightarrow> (n, sent, Err e)
               | Ok _ \<Rightarrow> pump k C send ch cond (n + 1) (sent @ [(word_of_nat n, data, hash)])))"

text \<open>\<^verbatim>\<open>next_to_send as usize - acked.len()\<close>, wrapping at 64 bits.\<close>

definition in_flight :: "nat \<Rightarrow> u32 list \<Rightarrow> nat" where
  "in_flight n ak = unat (word_of_nat n - word_of_nat (length ak) :: u64)"

fun ack_loop ::
  "crypto \<Rightarrow> (nat \<Rightarrow> unit result) \<Rightarrow> u32 list \<Rightarrow> nat \<Rightarrow> nat \<Rightarrow> sent_chunks \<Rightarrow> TransferSender
    \<Rightarrow> TransferSender \<times> sent_chunks \<times> unit result" where
  "ack_loop C send acks tot n sent s =
    (if length (acked s) \<ge> tot then (s, sent, Ok ())
     else case acks of
       [] \<Rightarrow> (s, sent, Err (Transfer ''ack channel closed prematurely''))
     | a # rest \<Rightarrow>
         let s' = s\<lparr>acked := List.insert a (acked s)\<rparr> in
         (case pump (tot - n) C send (snd_chunker s')
                 (\<lambda>n. in_flight n (acked s') < window_size s') n sent of
            (n', sent', Err e) \<Rightarrow> (s', sent', Err e)
          | (n', sent', Ok _) \<Rightarrow> ack_loop C send rest tot n' sent' s'))"

declare ack_loop.simps [simp del]

definition run ::
  "crypto \<Rightarrow> (nat \<Rightarrow> unit result) \<Rightarrow> u32 list \<Rightarrow> TransferSender \<Rightarrow> TransferSender \<times> sent_chunks \<times> unit result" where
  "run C send acks s =
    (let tot = unat (chunk_count (snd_chunker s)) in
     if tot = 0 then (s, [], Ok ())
     else case pump tot C send (snd_chunker s) (\<lambda>n. n < window_size s) 0 [] of
            (n, sent, Err e) \<Rightarrow> (s, sent, Err e)
          | (n, sent, Ok _) \<Rightarrow> ack_loop C send acks tot n sent s)"

text \<open>\<^verbatim>\<open>run_selective\<close> has the same two loops over an iterator of indices; what the iterator still holds
  is the first component.\<close>

primrec pump_sel ::
  "u32 list \<Rightarrow> crypto \<Rightarrow> (nat \<Rightarrow> unit result) \<Rightarrow> FileChunker \<Rightarrow> (nat \<Rightarrow> bool) \<Rightarrow> nat \<Rightarrow> sent_chunks
    \<Rightarrow> u32 list \<times> nat \<times> sent_chunks \<times> unit result" where
  "pump_sel [] C send ch cond n sent = ([], n, sent, Ok ())"
| "pump_sel (i # is) C send ch cond n sent =
    (if \<not> cond n then (i # is, n, sent, Ok ())
     else case read_chunk C ch i of
            Err e \<Rightarrow> (is, n, sent, Err e)
          | Ok (data, hash) \<Rightarrow>
              (case send (length sent) of
                 Err e \<Rightarrow> (is, n, sent, Err e)
               | Ok _ \<Rightarrow> pump_sel is C send ch cond (n + 1) (sent @ [(i, data, hash)])))"

fun ack_loop_sel ::
  "crypto \<Rightarrow> (nat \<Rightarrow> unit result) \<Rightarrow> u32 list \<Rightarrow> nat \<Rightarrow> u32 list \<Rightarrow> nat \<Rightarrow> sent_chunks \<Rightarrow> TransferSender
    \<Rightarrow> TransferSender \<times> sent_chunks \<times> unit result" where
  "ack_loop_sel C send acks tot is n sent s =
    (if length (acked s) \<ge> tot then (s, sent, Ok ())
     else case acks of
       [] \<Rightarrow> (s, sent, Err (Transfer ''ack channel closed prematurely''))
     | a # rest \<Rightarrow>
         let s' = s\<lparr>acked := List.insert a (acked s)\<rparr> in
         (case pump_sel is C send (snd_chunker s')
                 (\<lambda>n. in_flight n (acked s') < window_size s') n sent of
            (is', n', sent', Err e) \<Rightarrow> (s', sent', Err e)
          | (is', n', sent', Ok _) \<Rightarrow> ack_loop_sel C send rest tot is' n' sent' s'))"

declare ack_loop_sel.simps [simp del]

definition run_selective ::
  "crypto \<Rightarrow> (nat \<Rightarrow> unit result) \<Rightarrow> u32 list \<Rightarrow> u32 list \<Rightarrow> TransferSender
    \<Rightarrow> TransferSender \<times> sent_chunks \<times> unit result" where
  "run_selective C send indices acks s =
    (if length indices = 0 then (s, [], Ok ())
     else case pump_sel indices C send (snd_chunker s) (\<lambda>n. n < window_size s) 0 [] of
            (is, n, sent, Err e) \<Rightarrow> (s, sent, Err e)
          | (is, n, sent, Ok _) \<Rightarrow> ack_loop_sel C send acks (length indices) is n sent s)"

section \<open>The full transfer is the selective transfer of every index\<close>

lemma pump_is_pump_sel:
  "case pump_sel (map word_of_nat [n..<n + k]) C send ch cond n sent of
     (is, n', sent', r) \<Rightarrow> pump k C send ch cond n sent = (n', sent', r)
       \<and> (r = Ok () \<longrightarrow> n' \<le> n + k \<and> is = map word_of_nat [n'..<n + k])"
proof (induction k arbitrary: n sent)
  case (Suc k)
  have upt: "[n..<n + Suc k] = n # [Suc n..<Suc n + k]" by (simp add: upt_rec)
  show ?case
    unfolding upt using Suc.IH [of "Suc n"] by (auto split: result.splits simp del: upt_Suc simp: upt_conv_Cons)
qed simp

lemma ack_loop_is_sel:
  assumes "n \<le> tot"
  shows "ack_loop C send acks tot n sent s
    = ack_loop_sel C send acks tot (map word_of_nat [n..<tot]) n sent s"
  using assms
proof (induction acks arbitrary: n sent s)
  case Nil
  show ?case by (simp add: ack_loop.simps [of _ _ "[]"] ack_loop_sel.simps [of _ _ "[]"])
next
  case (Cons a acks)
  have eq: "n + (tot - n) = tot" using Cons.prems by simp
  let ?s = "s\<lparr>acked := List.insert a (acked s)\<rparr>"
  obtain is' n' sent' r where p: "pump_sel (map word_of_nat [n..<tot]) C send (snd_chunker s)
      (\<lambda>n. in_flight n (List.insert a (acked s)) < window_size s) n sent = (is', n', sent', r)"
    by (metis prod_cases4)
  note h = pump_is_pump_sel [where n = n and k = "tot - n" and C = C and send = send
      and ch = "snd_chunker s" and sent = sent
      and cond = "\<lambda>n. in_flight n (List.insert a (acked s)) < window_size s", unfolded eq p prod.case]
  show ?case
    using h Cons.IH [of n' sent' ?s]
    by (simp add: ack_loop.simps [of _ _ "_ # _"] ack_loop_sel.simps [of _ _ "_ # _"] p Let_def
        split: result.split)
qed

text \<open>The full transfer is the selective transfer of all indices: for any transport outcomes, any
  acknowledgements and any sender state, \<^verbatim>\<open>run\<close> sends the same chunks, ends in the same state and returns the
  same result as \<^verbatim>\<open>run_selective\<close> on 0, ..., total - 1.\<close>

theorem run_is_selective:
  "run C send acks s
     = run_selective C send (map word_of_nat [0..<unat (chunk_count (snd_chunker s))]) acks s"
proof -
  let ?t = "unat (chunk_count (snd_chunker s))"
  obtain is' n' sent' r where p: "pump_sel (map word_of_nat [0..<?t]) C send (snd_chunker s)
      (\<lambda>n. n < window_size s) 0 [] = (is', n', sent', r)"
    by (metis prod_cases4)
  note h = pump_is_pump_sel [where n = 0 and k = ?t and C = C and send = send and ch = "snd_chunker s"
      and sent = "[]" and cond = "\<lambda>n. n < window_size s", unfolded add_0 p prod.case]
  show ?thesis
    using h by (simp add: run_def run_selective_def Let_def p ack_loop_is_sel split: result.split)
qed

section \<open>Flow control\<close>

definition chunks_for :: "crypto \<Rightarrow> bytes \<Rightarrow> u32 list \<Rightarrow> sent_chunks" where
  "chunks_for C bs is = map (\<lambda>i. (i, chunk_at bs (unat i), sha256 C (chunk_at bs (unat i)))) is"

lemma pump_sel_spec:
  assumes tr: "transferable bs"
    and "\<And>i. i \<in> set is \<Longrightarrow> unat i < num_chunks bs" and "n \<le> B"
    and "\<And>m. n \<le> m \<Longrightarrow> m < n + length is \<Longrightarrow> cond m \<longleftrightarrow> m < B"
  shows "pump_sel is C (\<lambda>_. Ok ()) (chunker_new C fid bs) cond n sent
    = (drop (B - n) is, min (n + length is) B, sent @ chunks_for C bs (take (B - n) is), Ok ())"
  using assms(2-)
proof (induction "is" arbitrary: n sent)
  case Nil
  then show ?case by (simp add: chunks_for_def)
next
  case (Cons i "is")
  show ?case
  proof (cases "n < B")
    case True
    then have "B - n = Suc (B - Suc n)" by simp
    with True Cons.prems(1) [of i] Cons.prems(3) [of n] show ?thesis
      by (simp add: read_chunk_new [OF tr] chunks_for_def) (subst Cons.IH, use Cons.prems in \<open>auto simp: chunks_for_def\<close>)
  next
    case False
    with Cons.prems(2) Cons.prems(3) [of n] show ?thesis by (simp add: chunks_for_def)
  qed
qed

lemma in_flight_less:
  assumes "length ak \<le> m" "m < 2 ^ 64"
  shows "in_flight m ak < w \<longleftrightarrow> m < length ak + w"
proof -
  have "word_of_nat m - word_of_nat (length ak) = (word_of_nat (m - length ak) :: u64)"
    using assms(1) by (simp add: of_nat_diff)
  then have "in_flight m ak = m - length ak"
    using assms(2) by (simp add: in_flight_def unat_of_nat_small)
  then show ?thesis using assms(1) by auto
qed

lemma ack_loop_sel_flow:
  assumes tr: "transferable bs" and idx: "\<And>i. i \<in> set indices \<Longrightarrow> unat i < num_chunks bs"
    and w: "0 < window_size s" and N: "N = length indices" "N < 2 ^ 64"
    and ch: "snd_chunker s = chunker_new C fid bs"
    and inv: "distinct (acked s)" "length (acked s) \<le> N" "n = min N (window_size s + length (acked s))"
  shows "snd (ack_loop_sel C (\<lambda>_. Ok ()) acks N (drop n indices) n (chunks_for C bs (take n indices)) s)
    = (chunks_for C bs (take (window_size s + card (set (acked s) \<union> set acks)) indices),
       if N \<le> card (set (acked s) \<union> set acks) then Ok () else Err (Transfer ''ack channel closed prematurely''))"
  using w ch inv
proof (induction acks arbitrary: s n)
  case Nil
  then show ?case
    by (simp add: ack_loop_sel.simps [of _ _ "[]"] distinct_card N(1) min_def)
next
  case (Cons a acks)
  let ?s = "s\<lparr>acked := List.insert a (acked s)\<rparr>"
  have card: "card (set (acked s)) = length (acked s)" using Cons.prems(3) by (rule distinct_card)
  show ?case
  proof (cases "N \<le> length (acked s)")
    case True
    have "card (set (acked s)) \<le> card (set (acked s) \<union> set (a # acks))" by (rule card_mono) auto
    with True Cons.prems card show ?thesis
      by (simp add: ack_loop_sel.simps [of _ _ "_ # _"] N(1) del: Un_insert_right)
  next
    case False
    let ?k = "length (List.insert a (acked s))"
    have k: "length (acked s) \<le> ?k" "?k \<le> Suc (length (acked s))" by (simp_all add: List.insert_def)
    let ?B = "window_size s + ?k"
    have kn: "?k \<le> n" using k False Cons.prems by auto
    have p: "pump_sel (drop n indices) C (\<lambda>_. Ok ()) (chunker_new C fid bs)
        (\<lambda>n. in_flight n (List.insert a (acked s)) < window_size s) n (chunks_for C bs (take n indices))
      = (drop (?B - n) (drop n indices), min (n + length (drop n indices)) ?B,
         chunks_for C bs (take n indices) @ chunks_for C bs (take (?B - n) (drop n indices)), Ok ())"
    proof (rule pump_sel_spec [OF tr])
      show "n \<le> ?B" using Cons.prems(5) k by simp
    next
      fix m assume "n \<le> m" "m < n + length (drop n indices)"
      then show "in_flight m (List.insert a (acked s)) < window_size s \<longleftrightarrow> m < ?B"
        using kn N by (subst in_flight_less) auto
    qed (use idx in \<open>auto dest: in_set_dropD\<close>)
    have n': "min (n + length (drop n indices)) ?B = min N ?B" using Cons.prems(5) N(1) by simp
    have d: "drop (?B - n) (drop n indices) = drop (min N ?B) indices"
      using Cons.prems(5) k N(1) by (auto simp: min_def)
    have t: "chunks_for C bs (take n indices) @ chunks_for C bs (take (?B - n) (drop n indices))
        = chunks_for C bs (take (min N ?B) indices)"
      using Cons.prems(5) k N(1)
      by (auto simp: chunks_for_def min_def simp flip: map_append take_add)
    show ?thesis
      using Cons.IH [of ?s "min N ?B"] False Cons.prems(1-4) k
      by (simp add: ack_loop_sel.simps [of _ _ "_ # _"] p [unfolded n' d t] Let_def)
  qed
qed

text \<open>C29. Flow control: with a window of \<^verbatim>\<open>w > 0\<close>, after \<^verbatim>\<open>k\<close> distinct acknowledgements the sender has sent exactly
  the first \<^verbatim>\<open>w + k\<close> of the requested chunks, in order, each once and with its hash, so at most \<^verbatim>\<open>w\<close> are
  unacknowledged; it returns Ok exactly when as many distinct acknowledgements arrived as chunks were requested,
  whatever indices they name, and otherwise fails when the channel closes.\<close>

theorem selective_flow_control:
  assumes "transferable bs" and "\<And>i. i \<in> set indices \<Longrightarrow> unat i < num_chunks bs" and "0 < w"
    and "length indices < 2 ^ 64"
  shows "snd (run_selective C (\<lambda>_. Ok ()) indices acks (sender_new (chunker_new C fid bs) w))
    = (chunks_for C bs (take (w + card (set acks)) indices),
       if length indices \<le> card (set acks) then Ok () else Err (Transfer ''ack channel closed prematurely''))"
proof (cases "indices = []")
  case True
  then show ?thesis by (simp add: run_selective_def chunks_for_def)
next
  case False
  let ?n = "min (length indices) w"
  let ?s = "sender_new (chunker_new C fid bs) w"
  have "pump_sel indices C (\<lambda>_. Ok ()) (chunker_new C fid bs) (\<lambda>n. n < w) 0 []
      = (drop ?n indices, ?n, chunks_for C bs (take ?n indices), Ok ())"
    by (subst pump_sel_spec [where B = w, OF assms(1,2)]) (auto simp: min_def)
  then show ?thesis
    using ack_loop_sel_flow [where s = ?s and N = "length indices" and n = ?n and acks = acks and C = C and fid = fid,
        OF assms(1,2)] assms(3,4) False
    by (simp add: run_selective_def sender_new_def)
qed

lemma small_indices:
  "i \<in> set [0::u32, 0, 0] \<Longrightarrow> unat i < num_chunks [1, 2, 3]"
  by (simp add: num_chunks_def div_ceil_def CHUNK_SIZE_def)

theorem selective_flow_control_witness:
  "snd (run_selective demo_crypto (\<lambda>_. Ok ()) [0, 0, 0] [0] (sender_new (chunker_new demo_crypto (FileId []) [1, 2, 3]) 1))
    = (chunks_for demo_crypto [1, 2, 3] [0, 0], Err (Transfer ''ack channel closed prematurely''))"
  using selective_flow_control [of "[1, 2, 3]" "[0, 0, 0]" 1 demo_crypto "[0]" "FileId []", OF small_file(1) small_indices]
  by simp

end
