(* ===== verification/Service_Common.thy ===== *)
theory Service_Common
  imports Cypher_Prelude "HOL-Library.Countable"
begin

text \<open>
  What the services share: JSON values with the accessors of \<^verbatim>\<open>serde_json::Value\<close>, the JSON text codec as a
  parameter (\<^verbatim>\<open>json_lib\<close>), the hexadecimal helpers of the gateway and the signaling service, the decimal
  rendering of session numbers in subjects and keys, and the envelope that travels between the two services.
\<close>

section \<open>JSON values\<close>

datatype json = JNull | JBool bool | JNum int | JStr rstring | JArr "json list" | JObj "(rstring \<times> json) list"

instance json :: countable
  by countable_datatype

primrec json_get :: "json \<Rightarrow> rstring \<Rightarrow> json option" where
  "json_get JNull k = None"
| "json_get (JBool b) k = None"
| "json_get (JNum i) k = None"
| "json_get (JStr s) k = None"
| "json_get (JArr xs) k = None"
| "json_get (JObj kvs) k = map_of kvs k"

fun as_str :: "json \<Rightarrow> rstring option" where
  "as_str (JStr s) = Some s"
| "as_str _ = None"

fun as_bool :: "json \<Rightarrow> bool option" where
  "as_bool (JBool b) = Some b"
| "as_bool _ = None"

fun as_array :: "json \<Rightarrow> json list option" where
  "as_array (JArr xs) = Some xs"
| "as_array _ = None"

text \<open>Deserialisation of unsigned integers: a number in range.\<close>

fun as_u64 :: "json \<Rightarrow> u64 option" where
  "as_u64 (JNum i) = (if 0 \<le> i \<and> i < 2 ^ 64 then Some (word_of_int i) else None)"
| "as_u64 _ = None"

fun as_u8 :: "json \<Rightarrow> u8 option" where
  "as_u8 (JNum i) = (if 0 \<le> i \<and> i < 256 then Some (word_of_int i) else None)"
| "as_u8 _ = None"

text \<open>\<^verbatim>\<open>Vec<u8>\<close>: an array of bytes.\<close>

fun as_byte_vec :: "json \<Rightarrow> bytes option" where
  "as_byte_vec (JArr xs) =
    (if \<forall>x\<in>set xs. as_u8 x \<noteq> None then Some (map (\<lambda>x. the (as_u8 x)) xs) else None)"
| "as_byte_vec _ = None"

definition of_u64 :: "u64 \<Rightarrow> json" where
  "of_u64 w = JNum (uint w)"

definition of_bytes :: "bytes \<Rightarrow> json" where
  "of_bytes bs = JArr (map (\<lambda>b. JNum (uint b)) bs)"

lemma as_u64_of_u64 [simp]: "as_u64 (of_u64 w) = Some w"
  using uint_bounded [of w] by (simp add: of_u64_def)

lemma as_u8_byte [simp]: "as_u8 (JNum (uint b)) = Some b"
  using uint_bounded [of b] by simp

lemma as_byte_vec_of_bytes [simp]: "as_byte_vec (of_bytes bs) = Some bs"
  by (simp add: of_bytes_def comp_def del: as_u8.simps)

text \<open>The JSON text codec: \<^verbatim>\<open>serde_json::from_slice\<close> and \<^verbatim>\<open>to_string\<close>.\<close>

record json_lib =
  from_slice :: "bytes \<Rightarrow> json option"
  to_text :: "json \<Rightarrow> bytes"

definition json_ok :: "json_lib \<Rightarrow> bool" where
  "json_ok J \<longleftrightarrow> (\<forall>j. from_slice J (to_text J j) = Some j)"

lemma json_okD: "json_ok J \<Longrightarrow> from_slice J (to_text J j) = Some j"
  by (simp add: json_ok_def)

definition demo_json :: json_lib where
  "demo_json = \<lparr>from_slice = (\<lambda>b. Some (from_nat (length b))),
                to_text = (\<lambda>j. replicate (to_nat j) 0x7B)\<rparr>"

lemma demo_json_ok [simp]: "json_ok demo_json"
  by (simp add: json_ok_def demo_json_def)

section \<open>Text\<close>

text \<open>A byte in lower-case hexadecimal, \<^verbatim>\<open>{:02x}\<close>.\<close>

definition hex_digit :: "nat \<Rightarrow> u8" where
  "hex_digit n = (if n < 10 then word_of_nat (48 + n) else word_of_nat (87 + n))"

definition hex_encode :: "bytes \<Rightarrow> rstring" where
  "hex_encode bs = concat (map (\<lambda>b. [hex_digit (unat b div 16), hex_digit (unat b mod 16)]) bs)"

definition hex_value :: "u8 \<Rightarrow> nat option" where
  "hex_value c =
    (if 48 \<le> c \<and> c \<le> 57 then Some (unat c - 48)
     else if 97 \<le> c \<and> c \<le> 102 then Some (unat c - 87)
     else if 65 \<le> c \<and> c \<le> 70 then Some (unat c - 55)
     else None)"

text \<open>\<^verbatim>\<open>u8::from_str_radix(s, 16)\<close> on a string of two bytes; a leading plus sign is accepted.\<close>

definition byte_from_hex :: "u8 \<Rightarrow> u8 \<Rightarrow> u8 option" where
  "byte_from_hex a b =
    (case hex_value b of
       None \<Rightarrow> None
     | Some l \<Rightarrow>
         if a = 43 then Some (word_of_nat l)
         else case hex_value a of
                None \<Rightarrow> None
              | Some h \<Rightarrow> Some (word_of_nat (16 * h + l)))"

text \<open>The pairs of a string; invalid pairs are dropped.  (Slicing at a byte offset that is not a character
  boundary would panic; the strings decoded are ASCII.)\<close>

fun hex_pairs :: "rstring \<Rightarrow> bytes" where
  "hex_pairs (a # b # r) = (case byte_from_hex a b of Some x \<Rightarrow> x # hex_pairs r | None \<Rightarrow> hex_pairs r)"
| "hex_pairs _ = []"

definition hex_decode_bytes :: "rstring \<Rightarrow> bytes" where
  "hex_decode_bytes hx = (if odd (length hx) then [] else hex_pairs hx)"

lemma hex_value_digit: "n < 16 \<Longrightarrow> hex_value (hex_digit n) = Some n"
proof -
  assume "n < 16"
  then have "n \<in> set [0..<16]" by simp
  moreover have "\<forall>n\<in>set [0..<16]. hex_value (hex_digit n) = Some n" by code_simp
  ultimately show ?thesis by blast
qed

lemma hex_digit_not_plus: "n < 16 \<Longrightarrow> hex_digit n \<noteq> 43"
  using hex_value_digit [of n] by (auto simp: hex_value_def)

lemma byte_from_hex_digits: "byte_from_hex (hex_digit (unat b div 16)) (hex_digit (unat b mod 16)) = Some b"
proof -
  have "unat b < 256" using unsigned_less [of b, where ?'a = nat] by simp
  then have "unat b div 16 < 16" by (simp add: less_mult_imp_div_less)
  then show ?thesis
    by (simp add: byte_from_hex_def hex_value_digit hex_digit_not_plus)
qed

lemma hex_decode_encode [simp]: "hex_decode_bytes (hex_encode bs) = bs"
proof -
  have "even (length (hex_encode bs))" by (induction bs) (simp_all add: hex_encode_def)
  moreover have "hex_pairs (hex_encode bs) = bs"
    by (induction bs) (simp_all add: hex_encode_def byte_from_hex_digits)
  ultimately show ?thesis by (simp add: hex_decode_bytes_def)
qed

lemma hex_encode_inject [simp]: "hex_encode a = hex_encode b \<longleftrightarrow> a = b"
  by (metis hex_decode_encode)

lemma hex_encode_empty [simp]: "hex_encode bs = [] \<longleftrightarrow> bs = []"
  by (cases bs) (simp_all add: hex_encode_def)

lemma set_hex_encode: "c \<in> set (hex_encode bs) \<Longrightarrow> hex_value c \<noteq> None"
proof -
  have "unat b div 16 < 16" for b :: u8
    using unsigned_less [of b, where ?'a = nat] by (simp add: less_mult_imp_div_less)
  then show "c \<in> set (hex_encode bs) \<Longrightarrow> hex_value c \<noteq> None"
    by (auto simp: hex_encode_def hex_value_digit)
qed

text \<open>Decimal rendering of a number.\<close>

fun dec :: "nat \<Rightarrow> rstring" where
  "dec n = (if n < 10 then [word_of_nat (48 + n)] else dec (n div 10) @ [word_of_nat (48 + n mod 10)])"

declare dec.simps [simp del]

definition undec :: "rstring \<Rightarrow> nat" where
  "undec s = foldl (\<lambda>n c. 10 * n + (unat c - 48)) 0 s"

lemma undec_dec: "undec (dec n) = n"
proof (induction n rule: dec.induct)
  case (1 n)
  have small: "m < 10 \<Longrightarrow> unat (word_of_nat (48 + m) :: u8) = 48 + m" for m
    by (rule unat_of_nat_small) simp
  show ?case
  proof (cases "n < 10")
    case True
    then show ?thesis using small [OF True] by (simp add: dec.simps [of n] undec_def)
  next
    case False
    then show ?thesis
      using 1 [OF False] small [of "n mod 10"] by (simp add: dec.simps [of n] undec_def)
  qed
qed

lemma dec_inject [simp]: "dec a = dec b \<longleftrightarrow> a = b"
  by (metis undec_dec)

definition session_subject :: "u64 \<Rightarrow> rstring" where
  "session_subject sid = ascii ''gateway.session.'' @ dec (unat sid)"

lemma session_subject_inject [simp]: "session_subject a = session_subject b \<longleftrightarrow> a = b"
  by (simp add: session_subject_def word_unat_eq_iff)

section \<open>The envelope between gateway and signaling service\<close>

definition envelope_json :: "u64 \<Rightarrow> bytes \<Rightarrow> json" where
  "envelope_json sid data = JObj [(ascii ''session_id'', of_u64 sid), (ascii ''payload'', of_bytes data)]"

definition json_field :: "json \<Rightarrow> string \<Rightarrow> (json \<Rightarrow> 'a option) \<Rightarrow> 'a option" where
  "json_field j k conv = Option.bind (json_get j (ascii k)) conv"

definition envelope_of :: "json \<Rightarrow> (u64 \<times> bytes) option" where
  "envelope_of j =
    (case (json_field j ''session_id'' as_u64, json_field j ''payload'' as_byte_vec) of
       (Some sid, Some data) \<Rightarrow> Some (sid, data)
     | _ \<Rightarrow> None)"

lemma envelope_roundtrip [simp]: "envelope_of (envelope_json sid data) = Some (sid, data)"
  by (simp add: envelope_of_def envelope_json_def json_field_def ascii_def)

end
