(* ===== verification/Gateway.thy ===== *)
theory Gateway
  imports Service_Common Proto_Wire Frame_Codec Common_Types "HOL-Library.AList"
begin

text \<open>
  The gateway service (\<^verbatim>\<open>services/gateway/src/main.rs\<close>): the connection and peer tables, session
  registration, the read loop with its rate limit, routing of frames to local peers or to the message bus,
  removal of connections and the heartbeat.  The random nonce, the clock and the outcome of a publication on
  the bus are arguments; what is published and what is put into the outbound queue of a session are recorded
  in the state.  Addresses are only logged and are left out.
\<close>

section \<open>State\<close>

record ConnectionState =
  conn_session_id :: u64
  conn_peer_id :: bytes
  last_activity :: real

record Gateway =
  connections :: "(u64 \<times> ConnectionState) list"
  peers :: "(bytes \<times> u64) list"
  next_session_id :: u64
  published :: "(rstring \<times> bytes) list"
  queued :: "(u64 \<times> bytes \<times> FrameFlags) list"

definition gateway_new :: Gateway where
  "gateway_new = \<lparr>connections = [], peers = [], next_session_id = 1, published = [], queued = []\<rparr>"

definition publish :: "rstring \<Rightarrow> bytes \<Rightarrow> Gateway \<Rightarrow> Gateway" where
  "publish subject data g = g\<lparr>published := published g @ [(subject, data)]\<rparr>"

definition enqueue :: "u64 \<Rightarrow> bytes \<Rightarrow> FrameFlags \<Rightarrow> Gateway \<Rightarrow> Gateway" where
  "enqueue sid data fl g = g\<lparr>queued := queued g @ [(sid, data, fl)]\<rparr>"

definition publish_error :: cerror where
  "publish_error = InvalidData ''nats publish failed''"

text \<open>The identifier is the old value of the counter.\<close>

definition allocate_session_id :: "Gateway \<Rightarrow> u64 \<times> Gateway" where
  "allocate_session_id g = (next_session_id g, g\<lparr>next_session_id := next_session_id g + 1\<rparr>)"

text \<open>The start of \<^verbatim>\<open>handle_session\<close> and of \<^verbatim>\<open>handle_ws_session\<close>: the connection is registered with an
  empty peer identifier.\<close>

definition open_session :: "real \<Rightarrow> Gateway \<Rightarrow> u64 \<times> Gateway" where
  "open_session now g =
    (let (sid, g1) = allocate_session_id g
     in (sid, g1\<lparr>connections :=
           AList.update sid \<lparr>conn_session_id = sid, conn_peer_id = [], last_activity = now\<rparr> (connections g1)\<rparr>))"

text \<open>Messages from the bus are forwarded to the session's queue.\<close>

definition forward_from_bus :: "u64 \<Rightarrow> bytes \<Rightarrow> Gateway \<Rightarrow> Gateway" where
  "forward_from_bus sid data g = enqueue sid data NONE g"

section \<open>Routing\<close>

text \<open>The double lookup used for every delivery: the session of the peer, if it is still connected.\<close>

definition local_session :: "Gateway \<Rightarrow> bytes \<Rightarrow> u64 option" where
  "local_session g p =
    (case map_of (peers g) p of
       None \<Rightarrow> None
     | Some s \<Rightarrow> (case map_of (connections g) s of None \<Rightarrow> None | Some _ \<Rightarrow> Some s))"

definition peer_of_session :: "Gateway \<Rightarrow> u64 \<Rightarrow> bytes" where
  "peer_of_session g sid = (case map_of (connections g) sid of None \<Rightarrow> [] | Some c \<Rightarrow> conn_peer_id c)"

definition handle_session_init ::
  "json_lib \<Rightarrow> bool \<Rightarrow> bytes \<Rightarrow> u64 \<Rightarrow> u64 \<Rightarrow> bytes \<Rightarrow> Gateway \<Rightarrow> Gateway \<times> unit result" where
  "handle_session_init J pub_ok server_nonce timestamp sid data g =
    (case dispatch data of
       Ok (SessionInit client_id nonce) \<Rightarrow>
         let g1 = g\<lparr>connections := AList.map_entry sid (\<lambda>c. c\<lparr>conn_peer_id := client_id\<rparr>) (connections g)\<rparr>;
             g2 = g1\<lparr>peers := AList.update client_id sid (peers g1)\<rparr>
         in if \<not> pub_ok then (g2, Err publish_error)
            else let g3 = publish (ascii ''signaling.session.register'')
                            (to_text J (JObj [(ascii ''session_id'', of_u64 sid),
                                              (ascii ''peer_id'', JStr (hex_encode client_id))])) g2
                 in (enqueue sid (serialize (SessionAck server_nonce timestamp)) SESSION_INIT g3, Ok ())
     | _ \<Rightarrow> (g, Ok ()))"

text \<open>An empty subject stands for a delivery that is already done.\<close>

definition try_direct_or_subject ::
  "bytes \<Rightarrow> frame \<Rightarrow> string \<Rightarrow> Gateway \<Rightarrow> Gateway \<times> rstring \<times> bytes option" where
  "try_direct_or_subject p fr subject g =
    (case local_session g p of
       Some s \<Rightarrow> (enqueue s (payload fr) NONE g, [], None)
     | None \<Rightarrow> (g, ascii subject, Some p))"

text \<open>The \<^verbatim>\<open>match\<close> of \<^verbatim>\<open>route_frame\<close>: direct deliveries, the subject for the signaling service and the peer
  addressed.\<close>

definition route_message ::
  "u64 \<Rightarrow> frame \<Rightarrow> Message \<Rightarrow> Gateway \<Rightarrow> Gateway \<times> rstring \<times> bytes option" where
  "route_message sid fr m g =
    (case m of
       SignalRequestPeer _ \<Rightarrow> (g, ascii ''signaling.request_peer'', None)
     | SignalIceCandidate _ p \<Rightarrow> (g, ascii ''signaling.ice_candidate'', Some p)
     | SignalOffer _ p \<Rightarrow> (g, ascii ''signaling.offer'', Some p)
     | SignalAnswer _ p \<Rightarrow> (g, ascii ''signaling.answer'', Some p)
     | KeysUploadPrekeys _ _ _ \<Rightarrow> (g, ascii ''signaling.upload_prekeys'', None)
     | KeysGetPrekeys _ \<Rightarrow> (g, ascii ''signaling.get_prekeys'', None)
     | TransportBootstrap \<Rightarrow> (g, ascii ''signaling.transport_bootstrap'', None)
     | InboxStore _ _ \<Rightarrow> (g, ascii ''signaling.inbox_store'', None)
     | InboxFetch _ \<Rightarrow> (g, ascii ''signaling.inbox_fetch'', None)
     | InboxAck _ _ \<Rightarrow> (g, ascii ''signaling.inbox_ack'', None)
     | ChatSend p ct rk n \<Rightarrow>
         let rewritten = serialize (ChatSend (peer_of_session g sid) ct rk n)
         in (case local_session g p of
               Some s \<Rightarrow> (enqueue s rewritten NONE g, [], None)
             | None \<Rightarrow> (g, ascii ''signaling.chat_send'', Some p))
     | FileOffer p _ _ _ _ _ _ \<Rightarrow> try_direct_or_subject p fr ''signaling.file_offer'' g
     | FileAccept p _ \<Rightarrow> try_direct_or_subject p fr ''signaling.file_accept'' g
     | FileChunk p _ _ _ _ _ _ \<Rightarrow> try_direct_or_subject p fr ''signaling.file_chunk'' g
     | FileComplete p _ \<Rightarrow> try_direct_or_subject p fr ''signaling.file_complete'' g
     | FileChunkAck p _ _ \<Rightarrow> try_direct_or_subject p fr ''signaling.file_chunk_ack'' g
     | FileResume p _ _ \<Rightarrow> try_direct_or_subject p fr ''signaling.file_resume'' g
     | _ \<Rightarrow> (g, ascii ''signaling.data'', None))"

definition route_frame :: "json_lib \<Rightarrow> bool \<Rightarrow> u64 \<Rightarrow> frame \<Rightarrow> Gateway \<Rightarrow> Gateway \<times> unit result" where
  "route_frame J pub_ok sid fr g =
    (if payload fr = [] then (g, Ok ())
     else case (if hd (payload fr) = 0x7B then from_slice J (payload fr) else None) of
       Some j \<Rightarrow>
         let action = (case Option.bind (json_get j (ascii ''action'')) as_str of Some a \<Rightarrow> a | None \<Rightarrow> []);
             subject = (if action = ascii ''create_link'' then ascii ''signaling.create_link''
                        else ascii ''signaling.raw'')
         in if \<not> pub_ok then (g, Err publish_error)
            else (publish subject
                    (to_text J (JObj [(ascii ''session_id'', of_u64 sid),
                                      (ascii ''peer_id'', JStr (hex_encode (peer_of_session g sid)))])) g, Ok ())
     | None \<Rightarrow>
         (case dispatch (payload fr) of
            Ok m \<Rightarrow>
              let (g1, subject, target) = route_message sid fr m g
              in if subject = [] then (g1, Ok ())
                 else if \<not> pub_ok then (g1, Err publish_error)
                 else let g2 = publish subject (to_text J (envelope_json sid (payload fr))) g1
                      in (case Option.bind target (local_session g2) of
                            Some s \<Rightarrow> (enqueue s (payload fr) NONE g2, Ok ())
                          | None \<Rightarrow> (g2, Ok ()))
          | Err e \<Rightarrow>
              if \<not> pub_ok then (g, Err publish_error)
              else (publish (ascii ''signaling.raw'') (to_text J (envelope_json sid (payload fr))) g, Ok ())))"

section \<open>The read loop\<close>

datatype loop_outcome = Continue | Closed | Failed cerror

text \<open>What one iteration takes from outside: the clock, the outcome of a publication, the random nonce and the
  Unix time of an acknowledgement.\<close>

record env =
  env_now :: real
  env_pub_ok :: bool
  env_nonce :: bytes
  env_unix :: u64

definition touch :: "real \<Rightarrow> u64 \<Rightarrow> Gateway \<Rightarrow> Gateway" where
  "touch now sid g =
    g\<lparr>connections := AList.map_entry sid (\<lambda>c. c\<lparr>last_activity := now\<rparr>) (connections g)\<rparr>"

definition read_step ::
  "json_lib \<Rightarrow> u64 \<Rightarrow> env \<Rightarrow> frame \<Rightarrow> TokenBucket \<Rightarrow> Gateway \<Rightarrow> Gateway \<times> TokenBucket \<times> loop_outcome" where
  "read_step J sid e fr b g0 =
    (let g = touch (env_now e) sid g0 in
     if contains (flags fr) PING then (enqueue sid [] PONG g, b, Continue)
     else if contains (flags fr) PONG then (g, b, Continue)
     else if contains (flags fr) SESSION_CLOSE then (g, b, Closed)
     else if contains (flags fr) SESSION_INIT then
       (case handle_session_init J (env_pub_ok e) (env_nonce e) (env_unix e) sid (payload fr) g of
          (g1, Ok _) \<Rightarrow> (g1, b, Continue)
        | (g1, Err er) \<Rightarrow> (g1, b, Failed er))
     else let (b1, granted) = try_consume (env_now e) 1 b in
       if \<not> granted then (g, b1, Continue)
       else (case route_frame J (env_pub_ok e) sid fr g of
               (g1, Ok _) \<Rightarrow> (g1, b1, Continue)
             | (g1, Err er) \<Rightarrow> (g1, b1, Failed er)))"

text \<open>The frames the session task hands over before its channel is closed.\<close>

primrec read_loop ::
  "json_lib \<Rightarrow> u64 \<Rightarrow> (env \<times> frame) list \<Rightarrow> TokenBucket \<Rightarrow> Gateway \<Rightarrow> Gateway \<times> TokenBucket \<times> loop_outcome" where
  "read_loop J sid [] b g = (g, b, Closed)"
| "read_loop J sid (x # xs) b g =
    (case read_step J sid (fst x) (snd x) b g of
       (g1, b1, Continue) \<Rightarrow> read_loop J sid xs b1 g1
     | (g1, b1, Closed) \<Rightarrow> (g1, b1, Closed)
     | (g1, b1, Failed e) \<Rightarrow> (g1, b1, Failed e))"

definition rate_limiter_new :: "real \<Rightarrow> TokenBucket" where
  "rate_limiter_new now = bucket_new now MSG_RATE_LIMIT_BURST (as_f64 MSG_RATE_LIMIT_PER_SEC)"

section \<open>Removal and heartbeat\<close>

definition remove_connection :: "json_lib \<Rightarrow> bool \<Rightarrow> u64 \<Rightarrow> Gateway \<Rightarrow> Gateway" where
  "remove_connection J pub_ok sid g =
    (case map_of (connections g) sid of
       None \<Rightarrow> g
     | Some c \<Rightarrow>
         let g1 = g\<lparr>connections := AList.delete sid (connections g)\<rparr> in
         if conn_peer_id c = [] then g1
         else let g2 = (if map_of (peers g1) (conn_peer_id c) = Some sid
                        then g1\<lparr>peers := AList.delete (conn_peer_id c) (peers g1)\<rparr> else g1)
              in if pub_ok
                 then publish (ascii ''signaling.session.deregister'')
                        (to_text J (JObj [(ascii ''session_id'', of_u64 sid)])) g2
                 else g2)"

text \<open>A session from its first to its last frame.\<close>

definition handle_session ::
  "json_lib \<Rightarrow> real \<Rightarrow> (env \<times> frame) list \<Rightarrow> bool \<Rightarrow> Gateway \<Rightarrow> Gateway" where
  "handle_session J now xs pub_ok g =
    (let (sid, g1) = open_session now g;
         (g2, b, oc) = read_loop J sid xs (rate_limiter_new now) g1
     in remove_connection J pub_ok sid g2)"

definition heartbeat_interval :: real where "heartbeat_interval = real (unat HEARTBEAT_INTERVAL_SECS)"

definition heartbeat_timeout :: real where
  "heartbeat_timeout = heartbeat_interval * real (unat MAX_MISSED_HEARTBEATS)"

definition stale :: "real \<Rightarrow> ConnectionState \<Rightarrow> bool" where
  "stale now c \<longleftrightarrow> now - last_activity c > heartbeat_timeout"

text \<open>One round: idle connections are probed, unless their queue is full, then the stale ones are removed.\<close>

definition heartbeat_round :: "json_lib \<Rightarrow> real \<Rightarrow> (u64 \<Rightarrow> bool) \<Rightarrow> (u64 \<Rightarrow> bool) \<Rightarrow> Gateway \<Rightarrow> Gateway" where
  "heartbeat_round J now queue_full pub_ok g =
    (let conns = map snd (connections g);
         idle = filter (\<lambda>c. \<not> stale now c \<and> now - last_activity c > heartbeat_interval
                             \<and> \<not> queue_full (conn_session_id c)) conns;
         gone = map conn_session_id (filter (stale now) conns);
         g1 = fold (\<lambda>c. enqueue (conn_session_id c) [] PING) idle g
     in fold (\<lambda>sid. remove_connection J (pub_ok sid) sid) gone g1)"

section \<open>WebSocket clients\<close>

text \<open>A binary message becomes a frame; a session initialisation is recognised by its constructor.\<close>

definition ws_frame :: "bytes \<Rightarrow> frame" where
  "ws_frame data =
    (let fr = \<lparr>seq_no = 0, ack = 0, flags = NONE, payload = data\<rparr>
     in if length data \<ge> 4 \<and> (from_le (take 4 data) :: u32) = 0xA1000001
        then fr\<lparr>flags := SESSION_INIT\<rparr> else fr)"

datatype ws_msg = WsBinary bytes | WsClose | WsPing bytes | WsOther

text \<open>Each message comes with what the read loop takes from outside when it handles it.\<close>

fun ws_reader :: "(env \<times> ws_msg) list \<Rightarrow> (env \<times> frame) list" where
  "ws_reader [] = []"
| "ws_reader ((e, WsBinary data) # ms) = (e, ws_frame data) # ws_reader ms"
| "ws_reader ((e, WsClose) # ms) = []"
| "ws_reader ((e, _) # ms) = ws_reader ms"

definition handle_ws_session ::
  "json_lib \<Rightarrow> real \<Rightarrow> (env \<times> ws_msg) list \<Rightarrow> bool \<Rightarrow> Gateway \<Rightarrow> Gateway" where
  "handle_ws_session J now ms pub_ok g = handle_session J now (ws_reader ms) pub_ok g"

section \<open>The session task\<close>

text \<open>The task that owns the socket: queued frames are sent, received frames are handed to the read loop.  An
  event carries the outcome of the socket operation, or whether the read loop still takes frames.\<close>

datatype task_event =
    Outbound bytes FrameFlags "unit result"
  | SendersDropped "unit result" "unit result"
  | Inbound "frame result option" bool

fun session_task :: "task_event list \<Rightarrow> transport_session \<Rightarrow> transport_session \<times> frame list" where
  "session_task [] s = (s, [])"
| "session_task (Outbound pl fl flushed # es) s =
    (case send_frame flushed s pl fl of
       (s1, Err _) \<Rightarrow> (s1, [])
     | (s1, Ok _) \<Rightarrow> session_task es s1)"
| "session_task (SendersDropped flushed shut # es) s = (fst (close flushed shut s), [])"
| "session_task (Inbound item accepted # es) s =
    (case recv_frame item s of
       (s1, Err _) \<Rightarrow> (s1, [])
     | (s1, Ok f) \<Rightarrow>
         if accepted then (let (s2, fs) = session_task es s1 in (s2, f # fs)) else (s1, []))"

section \<open>Invariant\<close>

definition gw_inv :: "Gateway \<Rightarrow> bool" where
  "gw_inv g \<longleftrightarrow> distinct (map fst (connections g)) \<and> distinct (map fst (peers g))
     \<and> (\<forall>s c. map_of (connections g) s = Some c \<longrightarrow> conn_session_id c = s \<and> s < next_session_id g)
     \<and> (\<forall>p s. map_of (peers g) p = Some s \<longrightarrow> s < next_session_id g)"

text \<open>Everything that can happen to a gateway: connections, frames, disconnections, messages from the bus and
  heartbeats, in any order.  A session may still process frames after its connection was removed.\<close>

inductive gw_step :: "json_lib \<Rightarrow> Gateway \<Rightarrow> Gateway \<Rightarrow> bool" for J where
  gw_open: "next_session_id g < 0xFFFFFFFFFFFFFFFF \<Longrightarrow> gw_step J g (snd (open_session now g))"
| gw_read: "sid < next_session_id g \<Longrightarrow> read_step J sid e fr b g = (g', b', oc) \<Longrightarrow> gw_step J g g'"
| gw_bus: "gw_step J g (forward_from_bus sid data g)"
| gw_remove: "gw_step J g (remove_connection J ok sid g)"
| gw_heartbeat: "gw_step J g (heartbeat_round J now qf ok g)"

lemma gw_inv_queue_publish [simp]:
  "gw_inv (enqueue sid data fl g) = gw_inv g" "gw_inv (publish sub d g) = gw_inv g"
  "gw_inv (g\<lparr>queued := q\<rparr>) = gw_inv g"
  by (simp_all add: gw_inv_def enqueue_def publish_def)

lemma table_simps [simp]:
  "connections (enqueue s d fl g) = connections g" "peers (enqueue s d fl g) = peers g"
  "next_session_id (enqueue s d fl g) = next_session_id g"
  "connections (publish sub d' g) = connections g" "peers (publish sub d' g) = peers g"
  "next_session_id (publish sub d' g) = next_session_id g"
  "queued (publish sub d' g) = queued g" "published (enqueue s d fl g) = published g"
  "queued (enqueue s d fl g) = queued g @ [(s, d, fl)]" "published (publish sub d' g) = published g @ [(sub, d')]"
  by (simp_all add: enqueue_def publish_def)

lemma route_message_tables:
  "route_message sid fr m g = (g', sub, t) \<Longrightarrow>
   connections g' = connections g \<and> peers g' = peers g \<and> next_session_id g' = next_session_id g
   \<and> published g' = published g"
  by (auto simp: route_message_def try_direct_or_subject_def Let_def split: Message.splits option.splits)

lemma route_frame_tables:
  "route_frame J ok sid fr g = (g', r) \<Longrightarrow>
   connections g' = connections g \<and> peers g' = peers g \<and> next_session_id g' = next_session_id g"
  by (auto simp: route_frame_def Let_def split: if_splits option.splits result.splits prod.splits
      dest: route_message_tables)

lemma map_of_map_entry:
  "map_of (AList.map_entry k f al) k' = (if k' = k then map_option f (map_of al k) else map_of al k')"
  by (induction al) auto

lemma gw_inv_touch: "gw_inv g \<Longrightarrow> gw_inv (touch now sid g)"
  by (auto simp: gw_inv_def touch_def map_of_map_entry distinct_map_entry split: if_splits)

lemma gw_inv_session_init:
  assumes "gw_inv g" "sid < next_session_id g" "handle_session_init J ok nonce ts sid data g = (g', r)"
  shows "gw_inv g' \<and> next_session_id g' = next_session_id g"
  using assms
  by (auto simp: handle_session_init_def gw_inv_def Let_def map_of_map_entry update_conv' distinct_map_entry
      distinct_update split: Message.splits result.splits if_splits)

lemma gw_inv_read_step:
  assumes "gw_inv g" "sid < next_session_id g" "read_step J sid e fr b g = (g', b', oc)"
  shows "gw_inv g' \<and> next_session_id g' = next_session_id g"
proof -
  let ?g = "touch (env_now e) sid g"
  have t: "gw_inv ?g" "sid < next_session_id ?g" "next_session_id ?g = next_session_id g"
    using assms(1,2) gw_inv_touch by (simp_all add: touch_def)
  have init: "handle_session_init J ok n ts sid d ?g = (g1, r) \<Longrightarrow> gw_inv g1 \<and> next_session_id g1 = next_session_id g"
    for ok n ts d g1 r
    using gw_inv_session_init [OF t(1,2)] t(3) by metis
  have route: "route_frame J ok sid fr ?g = (g1, r) \<Longrightarrow> gw_inv g1 \<and> next_session_id g1 = next_session_id g"
    for ok g1 r
    using route_frame_tables [of J ok sid fr ?g g1 r] t by (simp add: gw_inv_def)
  show ?thesis
    using assms(3) t by (auto simp: read_step_def Let_def split: if_splits prod.splits result.splits dest: init route)
qed

lemma gw_inv_remove: "gw_inv g \<Longrightarrow> gw_inv (remove_connection J ok sid g)"
  unfolding remove_connection_def gw_inv_def Let_def
  by (auto simp: distinct_delete delete_conv' simp del: map_of_eq_Some_iff split: option.splits if_splits)

lemma next_remove [simp]: "next_session_id (remove_connection J ok sid g) = next_session_id g"
  by (simp add: remove_connection_def Let_def split: option.split)

lemma gw_inv_open:
  assumes "gw_inv g" "next_session_id g < 0xFFFFFFFFFFFFFFFF"
  shows "gw_inv (snd (open_session now g))"
proof -
  have "unat (next_session_id g + 1) = unat (next_session_id g) + 1"
    using assms(2) by (simp add: word_less_nat_alt unat_word_ariths)
  then have "next_session_id g < next_session_id g + 1" "s < next_session_id g \<Longrightarrow> s < next_session_id g + 1" for s
    by (simp_all add: word_less_nat_alt)
  then show ?thesis
    using assms(1) unfolding gw_inv_def open_session_def allocate_session_id_def Let_def
    by (auto simp: update_conv' distinct_update)
qed

lemma gw_inv_heartbeat: "gw_inv g \<Longrightarrow> gw_inv (heartbeat_round J now qf ok g)"
proof -
  have q: "gw_inv g' \<Longrightarrow> gw_inv (fold (\<lambda>c. enqueue (conn_session_id c) [] PING) cs g')" for cs g'
    by (induction cs arbitrary: g') simp_all
  have r: "gw_inv g' \<Longrightarrow> gw_inv (fold (\<lambda>sid. remove_connection J (ok sid) sid) ss g')" for ss g'
    by (induction ss arbitrary: g') (simp_all add: gw_inv_remove)
  assume "gw_inv g"
  then show ?thesis by (simp add: heartbeat_round_def Let_def q r)
qed


inductive gw_reachable :: "json_lib \<Rightarrow> Gateway \<Rightarrow> bool" for J where
  gw_start: "gw_reachable J gateway_new"
| gw_next: "gw_reachable J g \<Longrightarrow> gw_step J g g' \<Longrightarrow> gw_reachable J g'"

inductive_cases gw_step_cases: "gw_step J g g'"

section \<open>Routing lemmas\<close>

lemma route_frame_message:
  assumes "payload fr = serialize m" "msg_wf m"
  shows "route_frame J pub_ok sid fr g =
    (let (g1, subject, target) = route_message sid fr m g
     in if subject = [] then (g1, Ok ())
        else if \<not> pub_ok then (g1, Err publish_error)
        else let g2 = publish subject (to_text J (envelope_json sid (serialize m))) g1
             in (case Option.bind target (local_session g2) of
                   Some s \<Rightarrow> (enqueue s (serialize m) NONE g2, Ok ())
                 | None \<Rightarrow> (g2, Ok ())))"
  unfolding route_frame_def assms(1)
  using serialize_not_json [of m] dispatch_serialize [OF assms(2), of "[]"] by simp

lemma local_session_simps [simp]:
  "local_session (enqueue s d fl g) p = local_session g p" "local_session (publish sub d' g) p = local_session g p"
  by (simp_all add: local_session_def split: option.split)

lemma local_session_remove_other:
  assumes "local_session g p = Some s2" "s1 \<noteq> s2"
  shows "local_session (remove_connection J ok s1 g) p = Some s2"
  using assms
  by (auto simp: local_session_def remove_connection_def Let_def delete_conv' split: option.splits if_splits)

lemma local_session_removed: "local_session (remove_connection J ok s g) p \<noteq> Some s"
  by (auto simp: local_session_def remove_connection_def Let_def delete_conv' split: option.splits if_splits)

lemma route_frame_chat:
  assumes "payload fr = serialize (ChatSend p ct rk n)" "msg_wf (ChatSend p ct rk n)"
  shows "route_frame J ok sid fr g =
    (case local_session g p of
       Some s \<Rightarrow> (enqueue s (serialize (ChatSend (peer_of_session g sid) ct rk n)) NONE g, Ok ())
     | None \<Rightarrow> if \<not> ok then (g, Err publish_error)
               else (publish (ascii ''signaling.chat_send'')
                       (to_text J (envelope_json sid (serialize (ChatSend p ct rk n)))) g, Ok ()))"
  by (subst route_frame_message [OF assms])
     (simp add: route_message_def ascii_def split: option.split)

text \<open>Steps during which peer \<^verbatim>\<open>p\<close> stays with session \<^verbatim>\<open>s\<close>: nobody else registers \<^verbatim>\<open>p\<close>, and \<^verbatim>\<open>s\<close> is neither removed
  nor silent for so long that the heartbeat removes it.  Everything else may happen, including frames and
  disconnections of other sessions that are registered as \<^verbatim>\<open>p\<close>.\<close>

inductive gw_quiet :: "json_lib \<Rightarrow> bytes \<Rightarrow> u64 \<Rightarrow> Gateway \<Rightarrow> Gateway \<Rightarrow> bool" for J p s where
  quiet_open: "next_session_id g < 0xFFFFFFFFFFFFFFFF \<Longrightarrow> gw_quiet J p s g (snd (open_session now g))"
| quiet_read: "sid < next_session_id g \<Longrightarrow> (\<forall>nn. dispatch (payload fr) \<noteq> Ok (SessionInit p nn)) \<Longrightarrow>
    read_step J sid e fr b g = (g', b', oc) \<Longrightarrow> gw_quiet J p s g g'"
| quiet_bus: "gw_quiet J p s g (forward_from_bus sid data g)"
| quiet_remove: "sid \<noteq> s \<Longrightarrow> gw_quiet J p s g (remove_connection J ok sid g)"
| quiet_heartbeat: "(\<forall>c. map_of (connections g) s = Some c \<longrightarrow> \<not> stale now c) \<Longrightarrow>
    gw_quiet J p s g (heartbeat_round J now qf ok g)"

lemma gw_quiet_step: "gw_quiet J p s g g' \<Longrightarrow> gw_step J g g'"
  by (induction rule: gw_quiet.induct) (auto intro: gw_step.intros)

lemma gw_inv_step: "gw_step J g g' \<Longrightarrow> gw_inv g \<Longrightarrow> gw_inv g'"
  by (elim gw_step_cases)
     (auto simp: forward_from_bus_def gw_inv_open gw_inv_remove gw_inv_heartbeat dest: gw_inv_read_step)

lemma local_session_eq_Some:
  "local_session g p = Some s \<longleftrightarrow> map_of (peers g) p = Some s \<and> map_of (connections g) s \<noteq> None"
  by (auto simp: local_session_def split: option.splits)

lemma read_step_keeps_route:
  assumes "local_session g p = Some s" "\<forall>nn. dispatch (payload fr) \<noteq> Ok (SessionInit p nn)"
    "read_step J sid e fr b g = (g', b', oc)"
  shows "local_session g' p = Some s"
proof -
  let ?g = "touch (env_now e) sid g"
  have t: "local_session ?g p = Some s"
    using assms(1) by (auto simp: local_session_eq_Some touch_def map_of_map_entry)
  have init: "handle_session_init J ok n ts sid (payload fr) ?g = (g1, r) \<Longrightarrow> local_session g1 p = Some s" for ok n ts g1 r
    using t assms(2)
    by (auto simp: handle_session_init_def local_session_eq_Some map_of_map_entry update_conv' Let_def
        split: result.splits Message.splits if_splits)
  have route: "route_frame J ok sid fr ?g = (g1, r) \<Longrightarrow> local_session g1 p = Some s" for ok g1 r
    using route_frame_tables [of J ok sid fr ?g g1 r] t by (simp add: local_session_eq_Some)
  show ?thesis
    using assms(3) t
    by (auto simp: read_step_def Let_def split: if_splits prod.splits result.splits dest: init route)
qed

lemma fold_remove_keeps_route:
  "local_session g p = Some s \<Longrightarrow> s \<notin> set ss \<Longrightarrow>
   local_session (fold (\<lambda>sid. remove_connection J (ok sid) sid) ss g) p = Some s"
  by (induction ss arbitrary: g) (auto simp: local_session_remove_other)

lemma fold_enqueue_local [simp]:
  "local_session (fold (\<lambda>c. enqueue (conn_session_id c) d fl) cs g) p = local_session g p"
  by (induction cs arbitrary: g) simp_all

lemma gw_quiet_keeps_route:
  assumes "gw_quiet J p s g g'" "gw_inv g" "local_session g p = Some s"
  shows "local_session g' p = Some s"
  using assms(1)
proof cases
  case (quiet_open now)
  have "s < next_session_id g" using assms(2,3) by (auto simp: gw_inv_def local_session_eq_Some)
  then show ?thesis
    using assms(3) quiet_open
    by (auto simp: open_session_def allocate_session_id_def local_session_eq_Some update_conv')
next
  case (quiet_read sid fr e b b' oc)
  then show ?thesis using assms(3) by (metis read_step_keeps_route)
next
  case (quiet_heartbeat now qf ok)
  have "s \<notin> set (map conn_session_id (filter (stale now) (map snd (connections g))))"
  proof
    assume "s \<in> set (map conn_session_id (filter (stale now) (map snd (connections g))))"
    then obtain k c where c: "(k, c) \<in> set (connections g)" "stale now c" "conn_session_id c = s" by auto
    then have "map_of (connections g) k = Some c" using assms(2) by (simp add: gw_inv_def)
    then show False using assms(2) c quiet_heartbeat(2) by (auto simp: gw_inv_def)
  qed
  then show ?thesis
    using assms(3) unfolding quiet_heartbeat(1) heartbeat_round_def Let_def
    by (intro fold_remove_keeps_route) simp_all
qed (use assms(3) in \<open>simp_all add: forward_from_bus_def local_session_remove_other\<close>)

lemma gw_quiet_star_keeps_route:
  assumes "(gw_quiet J p s)\<^sup>*\<^sup>* g g'" "gw_inv g" "local_session g p = Some s"
  shows "gw_inv g' \<and> local_session g' p = Some s"
  using assms
  by (induction rule: rtranclp_induct) (auto intro: gw_quiet_keeps_route gw_inv_step gw_quiet_step)

definition data_frame :: "frame \<Rightarrow> bool" where
  "data_frame fr \<longleftrightarrow> \<not> contains (flags fr) PING \<and> \<not> contains (flags fr) PONG
     \<and> \<not> contains (flags fr) SESSION_CLOSE \<and> \<not> contains (flags fr) SESSION_INIT"

definition traffic :: "Gateway \<Rightarrow> nat" where
  "traffic g = length (published g) + length (queued g)"

lemma traffic_simps [simp]:
  "traffic (enqueue s d fl g) = traffic g + 1" "traffic (publish sub d' g) = traffic g + 1"
  "traffic (touch now s g) = traffic g"
  by (simp_all add: traffic_def touch_def)

lemma route_message_traffic:
  "route_message sid fr m g = (g', sub, t) \<Longrightarrow> traffic g' \<le> traffic g + 1 \<and> (sub \<noteq> [] \<longrightarrow> g' = g)"
  by (auto simp: route_message_def try_direct_or_subject_def Let_def split: Message.splits option.splits)

lemma route_frame_traffic: "route_frame J ok sid fr g = (g', r) \<Longrightarrow> traffic g' \<le> traffic g + 2"
  by (auto simp: route_frame_def Let_def split: if_splits option.splits result.splits prod.splits
      dest!: route_message_traffic)

lemma read_step_traffic:
  assumes "data_frame fr" "bucket_ok b" "last_refill b \<le> env_now e" "read_step J sid e fr b g = (g', b', oc)"
  shows "bucket_ok b' \<and> last_refill b' = env_now e \<and> refill_rate b' = refill_rate b
    \<and> real (traffic g') + 2 * tokens b'
        \<le> real (traffic g) + 2 * (tokens b + (env_now e - last_refill b) * refill_rate b)"
proof -
  obtain b1 ok where c: "try_consume (env_now e) 1 b = (b1, ok)" by force
  note s = try_consume_step [OF assms(2,3) c]
  have one: "as_f64 1 = 1" by (simp add: as_f64_def)
  have r: "route_frame J po sid fr (touch (env_now e) sid g) = (g1, x) \<Longrightarrow> traffic g1 \<le> traffic g + 2" for po g1 x
    using route_frame_traffic [of J po sid fr "touch (env_now e) sid g" g1 x] by simp
  show ?thesis
  proof (cases ok)
    case True
    obtain g1 x where rf: "route_frame J (env_pub_ok e) sid fr (touch (env_now e) sid g) = (g1, x)" by force
    have "g' = g1" "b' = b1"
      using assms(1,4) True by (auto simp: read_step_def data_frame_def c rf Let_def split: result.splits)
    with s one True r [OF rf] show ?thesis by simp
  next
    case False
    have "g' = touch (env_now e) sid g" "b' = b1"
      using assms(1,4) False by (auto simp: read_step_def data_frame_def c Let_def)
    with s False show ?thesis by simp
  qed
qed

lemma read_loop_traffic:
  assumes "\<forall>x\<in>set xs. data_frame (snd x)" "bucket_ok b" "sorted (last_refill b # map (\<lambda>x. env_now (fst x)) xs)"
    "read_loop J sid xs b g = (g', b', oc)"
  shows "real (traffic g') + 2 * tokens b'
     \<le> real (traffic g) + 2 * (tokens b + (last (last_refill b # map (\<lambda>x. env_now (fst x)) xs) - last_refill b) * refill_rate b)
    \<and> 0 \<le> tokens b'"
  using assms
proof (induction xs arbitrary: b g)
  case Nil
  then show ?case by (simp add: bucket_ok_def)
next
  case (Cons x xs)
  obtain g1 b1 oc1 where s: "read_step J sid (fst x) (snd x) b g = (g1, b1, oc1)" by (metis prod_cases3)
  have le: "last_refill b \<le> env_now (fst x)" using Cons.prems(3) by simp
  note st = read_step_traffic [OF _ Cons.prems(2) le s]
  let ?l = "last (env_now (fst x) # map (\<lambda>x. env_now (fst x)) xs)"
  have rate: "0 \<le> refill_rate b" using Cons.prems(2) by (simp add: bucket_ok_def)
  have l: "env_now (fst x) \<le> ?l" using Cons.prems(3) by (cases xs rule: rev_cases) (auto simp: sorted_append)
  have split: "(?l - last_refill b) * refill_rate b
      = (?l - env_now (fst x)) * refill_rate b + (env_now (fst x) - last_refill b) * refill_rate b"
    by (simp add: algebra_simps)
  have nn: "0 \<le> (?l - env_now (fst x)) * refill_rate b" using l rate by simp
  show ?case
  proof (cases "oc1 = Continue")
    case True
    then have "read_loop J sid xs b1 g1 = (g', b', oc)" using Cons.prems(4) s by simp
    note ih = Cons.IH [OF _ _ _ this]
    have "sorted (last_refill b1 # map (\<lambda>x. env_now (fst x)) xs)" using st Cons.prems(1,3) by simp
    with ih st Cons.prems(1) split show ?thesis by simp
  next
    case False
    then have "g' = g1" "b' = b1" using Cons.prems(4) s by (auto split: loop_outcome.splits)
    with st Cons.prems(1) split nn show ?thesis by (simp add: bucket_ok_def)
  qed
qed

section \<open>Properties\<close>

text \<open>C18. In every state the gateway can reach by connections, frames, disconnections, bus messages and heartbeats
  in any order, the tables hold one entry per key, every connection is stored under its own session number and
  no session number in use will be allocated again.\<close>

theorem gateway_invariant:
  assumes "gw_reachable J g"
  shows "gw_inv g"
  using assms
proof induction
  case gw_start
  then show ?case by (simp add: gw_inv_def gateway_new_def)
qed (rule gw_inv_step)

theorem gateway_invariant_witness: "gw_inv (snd (open_session 0 gateway_new))"
  by (rule gateway_invariant [of demo_json], rule gw_next [OF gw_start], rule gw_open)
     (simp add: gateway_new_def)


definition demo_gateway :: Gateway where
  "demo_gateway = snd (open_session 0 (snd (open_session 0 gateway_new)))"

lemma demo_gateway_tables:
  "connections demo_gateway = [(1, \<lparr>conn_session_id = 1, conn_peer_id = [], last_activity = 0\<rparr>),
                               (2, \<lparr>conn_session_id = 2, conn_peer_id = [], last_activity = 0\<rparr>)]"
  "peers demo_gateway = []" "next_session_id demo_gateway = 3"
  by (simp_all add: demo_gateway_def open_session_def allocate_session_id_def gateway_new_def)

lemma demo_gateway_inv: "gw_inv demo_gateway"
  by (auto simp: gw_inv_def demo_gateway_tables split: if_splits)


text \<open>C34. Rate limit: on one session, data frames cause at most two effects (publications and queued frames) each,
  and over any run of the read loop the total stays within twice the burst of 200 plus 100 per second elapsed.\<close>

theorem gateway_rate_limit:
  assumes "\<forall>x\<in>set xs. data_frame (snd x)" "sorted (t0 # map (\<lambda>x. env_now (fst x)) xs)"
    and "read_loop J sid xs (rate_limiter_new t0) g = (g', b', oc)"
  shows "real (traffic g') \<le> real (traffic g) + 2 * (200 + (last (t0 # map (\<lambda>x. env_now (fst x)) xs) - t0) * 100)"
proof -
  let ?b = "rate_limiter_new t0"
  have b: "bucket_ok ?b" "tokens ?b = 200" "refill_rate ?b = 100" "last_refill ?b = t0"
    by (simp_all add: rate_limiter_new_def bucket_new_def bucket_ok_def as_f64_def MSG_RATE_LIMIT_BURST_def
        MSG_RATE_LIMIT_PER_SEC_def)
  show ?thesis
    using read_loop_traffic [OF assms(1) b(1) _ assms(3)] assms(2) by (simp add: b)
qed

theorem gateway_rate_limit_witness:
  "let e = \<lparr>env_now = 1, env_pub_ok = True, env_nonce = [], env_unix = 0\<rparr>;
       fr = \<lparr>seq_no = 0, ack = 0, flags = NONE, payload = [1]\<rparr>
   in real (traffic (fst (read_loop demo_json 1 [(e, fr)] (rate_limiter_new 0) demo_gateway)))
        \<le> real (traffic demo_gateway) + 600"
proof -
  let ?e = "\<lparr>env_now = 1, env_pub_ok = True, env_nonce = [], env_unix = 0\<rparr>"
  let ?fr = "\<lparr>seq_no = 0, ack = 0, flags = NONE, payload = [1]\<rparr>"
  have "data_frame ?fr" by (simp add: data_frame_def) code_simp
  then show ?thesis
    using gateway_rate_limit [of "[(?e, ?fr)]" 0 demo_json 1 demo_gateway]
    by (cases "read_loop demo_json 1 [(?e, ?fr)] (rate_limiter_new 0) demo_gateway")
       (simp del: read_loop.simps)
qed

text \<open>A session whose connection the heartbeat has removed is not ended: its next registration is acknowledged
  to the client, yet the peer stays unreachable, and a chat message from it is delivered with an empty sender.\<close>

theorem evicted_session_unreachable:
  assumes "map_of (connections g) s = None" and "msg_wf (SessionInit p nn)"
    and "handle_session_init J True nonce ts s (serialize (SessionInit p nn)) g = (g1, r)"
    and "local_session g q = Some t" "q \<noteq> p"
    and "payload fr = serialize (ChatSend q ct rk n)" "msg_wf (ChatSend q ct rk n)"
  shows "r = Ok () \<and> queued g1 = queued g @ [(s, serialize (SessionAck nonce ts), SESSION_INIT)]
    \<and> local_session g1 p = None
    \<and> route_frame J ok s fr g1 = (enqueue t (serialize (ChatSend [] ct rk n)) NONE g1, Ok ())"
proof -
  have d: "dispatch (serialize (SessionInit p nn)) = Ok (SessionInit p nn)"
    using dispatch_serialize [OF assms(2), of "[]"] by simp
  have g1: "g1 = enqueue s (serialize (SessionAck nonce ts)) SESSION_INIT
      (publish (ascii ''signaling.session.register'')
        (to_text J (JObj [(ascii ''session_id'', of_u64 s), (ascii ''peer_id'', JStr (hex_encode p))]))
        (g\<lparr>connections := AList.map_entry s (\<lambda>c. c\<lparr>conn_peer_id := p\<rparr>) (connections g),
           peers := AList.update p s (peers g)\<rparr>))" and r: "r = Ok ()"
    using assms(3) d by (auto simp: handle_session_init_def Let_def)
  have "local_session g1 q = Some t"
    using assms(4,5) unfolding g1 by (auto simp: local_session_eq_Some map_of_map_entry update_conv')
  moreover have "local_session g1 p = None" "peer_of_session g1 s = []" "queued g1 = queued g @ [(s, serialize (SessionAck nonce ts), SESSION_INIT)]"
    unfolding g1 using assms(1)
    by (simp_all add: local_session_def peer_of_session_def map_of_map_entry update_conv')
  ultimately show ?thesis using r by (simp add: route_frame_chat [OF assms(6,7)])
qed

theorem evicted_session_unreachable_witness:
  "let g = fst (handle_session_init demo_json True [] 0 2 (serialize (SessionInit [8] [])) demo_gateway);
       g0 = remove_connection demo_json True 1 g;
       g1 = fst (handle_session_init demo_json True [] 0 1 (serialize (SessionInit [7] [])) g0);
       fr = \<lparr>seq_no = 0, ack = 0, flags = NONE, payload = serialize (ChatSend [8] [1, 2] [3] 4)\<rparr>
   in local_session g1 [7] = None
      \<and> route_frame demo_json True 1 fr g1 = (enqueue 2 (serialize (ChatSend [] [1, 2] [3] 4)) NONE g1, Ok ())"
proof -
  let ?g = "fst (handle_session_init demo_json True [] 0 2 (serialize (SessionInit [8] [])) demo_gateway)"
  let ?h = "remove_connection demo_json True 1 ?g"
  let ?fr = "\<lparr>seq_no = 0, ack = 0, flags = NONE, payload = serialize (ChatSend [8] [1, 2] [3] 4)\<rparr>"
  have wf: "msg_wf (SessionInit [7] [])" "msg_wf (SessionInit [8] [])" "msg_wf (ChatSend [8] [1, 2] [3] 4)"
    by (simp_all add: msg_wf_def fits_u32_def)
  have none: "map_of (connections ?h) 1 = None"
    by (simp add: remove_connection_def Let_def delete_conv' split: option.split)
  have "local_session ?g [8] = Some 2"
    using dispatch_serialize [OF wf(2), of "[]"]
    by (simp add: handle_session_init_def local_session_eq_Some demo_gateway_tables update_conv')
  then have "local_session ?h [8] = Some 2" by (rule local_session_remove_other) simp
  from evicted_session_unreachable [OF none wf(1) surjective_pairing this _ _ wf(3), where fr = ?fr and ok = True]
  show ?thesis by (simp add: Let_def)
qed

section \<open>The gateway implements a directory\<close>

text \<open>What the two tables promise together: one map from peers to sessions with a live connection.  A frame may
  register its session, the end of a session drops what it holds, and nothing else changes the map.\<close>

type_synonym directory = "bytes \<Rightarrow> u64 option"

definition dir_register :: "bytes \<Rightarrow> u64 option \<Rightarrow> directory \<Rightarrow> directory" where
  "dir_register p s d = d(p := s)"

definition dir_drop :: "u64 \<Rightarrow> directory \<Rightarrow> directory" where
  "dir_drop s d = (\<lambda>p. if d p = Some s then None else d p)"

definition dir_frame :: "u64 option \<Rightarrow> frame \<Rightarrow> directory \<Rightarrow> directory" where
  "dir_frame s fr d =
    (if contains (flags fr) PING \<or> contains (flags fr) PONG \<or> contains (flags fr) SESSION_CLOSE
        \<or> \<not> contains (flags fr) SESSION_INIT then d
     else case dispatch (payload fr) of Ok (SessionInit p nn) \<Rightarrow> dir_register p s d | _ \<Rightarrow> d)"

definition live :: "Gateway \<Rightarrow> u64 \<Rightarrow> u64 option" where
  "live g s = (if map_of (connections g) s = None then None else Some s)"

lemma local_session_live: "local_session g p = Option.bind (map_of (peers g) p) (live g)"
  by (simp add: local_session_def live_def split: option.split)

lemma live_simps [simp]:
  "live (enqueue s d fl g) = live g" "live (publish sub d' g) = live g"
  "live (g\<lparr>connections := AList.map_entry s f (connections g)\<rparr>) = live g"
  "live (g\<lparr>connections := AList.map_entry s f (connections g), peers := ps\<rparr>) = live g"
  by (simp_all add: live_def fun_eq_iff map_of_map_entry)

lemma local_session_remove: "local_session (remove_connection J ok s g) = dir_drop s (local_session g)"
proof
  fix p
  have iff: "local_session (remove_connection J ok s g) p = Some t \<longleftrightarrow> local_session g p = Some t \<and> t \<noteq> s" for t
  proof (cases "t = s")
    case True
    then show ?thesis by (simp add: local_session_removed)
  next
    case False
    have "local_session (remove_connection J ok s g) p = Some t \<Longrightarrow> local_session g p = Some t"
      by (auto simp: local_session_eq_Some remove_connection_def Let_def delete_conv'
          split: option.splits if_splits)
    then show ?thesis using False local_session_remove_other by metis
  qed
  have "local_session (remove_connection J ok s g) p = Some t \<longleftrightarrow> dir_drop s (local_session g) p = Some t" for t
    unfolding iff dir_drop_def by (cases "local_session g p") auto
  then show "local_session (remove_connection J ok s g) p = dir_drop s (local_session g) p"
    by (cases "dir_drop s (local_session g) p") auto
qed

lemma local_session_tables:
  "connections g' = connections g \<Longrightarrow> peers g' = peers g \<Longrightarrow> local_session g' = local_session g"
  by (rule ext) (simp add: local_session_def cong: option.case_cong)

lemma local_session_touch: "local_session (touch now s g) = local_session g"
proof
  fix p show "local_session (touch now s g) p = local_session g p"
    by (cases "map_of (peers g) p") (simp_all add: local_session_live live_def touch_def map_of_map_entry)
qed

lemma local_session_init:
  "local_session (fst (handle_session_init J ok nonce ts s data g)) =
    (case dispatch data of Ok (SessionInit p nn) \<Rightarrow> dir_register p (live g s) (local_session g) | _ \<Rightarrow> local_session g)"
proof
  fix p show "local_session (fst (handle_session_init J ok nonce ts s data g)) p =
    (case dispatch data of Ok (SessionInit p nn) \<Rightarrow> dir_register p (live g s) (local_session g)
     | _ \<Rightarrow> local_session g) p"
    by (simp add: handle_session_init_def dir_register_def local_session_live Let_def update_conv'
        split: result.split Message.split)
qed

lemma local_session_route: "local_session (fst (route_frame J ok s fr g)) = local_session g"
  using route_frame_tables [of J ok s fr g] by (cases "route_frame J ok s fr g") (auto intro: local_session_tables)

lemma local_session_read:
  "local_session (fst (read_step J s e fr b g)) = dir_frame (live g s) fr (local_session g)"
proof -
  let ?g = "touch (env_now e) s g"
  have l: "live ?g s = live g s" by (simp add: live_def touch_def map_of_map_entry)
  obtain g1 r1 where i: "handle_session_init J (env_pub_ok e) (env_nonce e) (env_unix e) s (payload fr) ?g = (g1, r1)"
    by force
  obtain g2 r2 where r: "route_frame J (env_pub_ok e) s fr ?g = (g2, r2)" by force
  have "local_session g2 = local_session g"
    using local_session_route [of J "env_pub_ok e" s fr ?g] by (simp add: r local_session_touch)
  moreover have "local_session g1 =
      (case dispatch (payload fr) of Ok (SessionInit p nn) \<Rightarrow> dir_register p (live g s) (local_session g)
       | _ \<Rightarrow> local_session g)"
    using local_session_init [of J "env_pub_ok e" "env_nonce e" "env_unix e" s "payload fr" ?g]
    unfolding i l local_session_touch by simp
  moreover have "local_session (enqueue s [] PONG ?g) = local_session g" by (rule ext) (simp add: local_session_touch)
  ultimately show ?thesis
    by (cases r1; cases r2; cases "try_consume (env_now e) 1 b")
       (simp_all add: read_step_def dir_frame_def i r local_session_touch Let_def)
qed

lemma local_session_open:
  assumes "gw_inv g"
  shows "local_session (snd (open_session now g)) = local_session g"
proof
  fix p
  have "map_of (peers g) p \<noteq> Some (next_session_id g)" 
    using assms unfolding gw_inv_def by (metis less_irrefl)
  then show "local_session (snd (open_session now g)) p = local_session g p"
    by (cases "map_of (peers g) p")
       (simp_all add: open_session_def allocate_session_id_def local_session_live live_def update_conv')
qed

lemma local_session_fold_remove:
  "local_session (fold (\<lambda>s. remove_connection J (ok s) s) ss g) = fold dir_drop ss (local_session g)"
  by (induction ss arbitrary: g) (simp_all add: local_session_remove)

text \<open>C4. The gateway refines a directory of peers: opening a session and forwarding a message from the bus leave the
  map unchanged, a frame changes it only when it is a session initialisation (which points the announced peer
  at the session that sent it, or at nothing if that session has lost its connection), the end of a session
  drops exactly the entries that still point at it, and a heartbeat drops exactly those of the silent sessions.\<close>

theorem gateway_refines_directory:
  assumes "gw_inv g"
  shows "local_session (snd (open_session now g)) = local_session g
    \<and> local_session (forward_from_bus s data g) = local_session g
    \<and> local_session (fst (read_step J s e fr b g)) = dir_frame (live g s) fr (local_session g)
    \<and> local_session (remove_connection J ok s g) = dir_drop s (local_session g)
    \<and> local_session (heartbeat_round J now qf po g)
        = fold dir_drop (map conn_session_id (filter (stale now) (map snd (connections g)))) (local_session g)"
proof -
  have "local_session (forward_from_bus s data g) = local_session g"
    by (rule ext) (simp add: forward_from_bus_def)
  moreover have "local_session (heartbeat_round J now qf po g)
      = fold dir_drop (map conn_session_id (filter (stale now) (map snd (connections g)))) (local_session g)"
    unfolding heartbeat_round_def Let_def local_session_fold_remove
    by (rule arg_cong [of _ _ "fold dir_drop _"], rule ext, rule fold_enqueue_local)
  ultimately show ?thesis
    by (simp only: local_session_open [OF assms] local_session_read local_session_remove simp_thms)
qed

theorem gateway_refines_directory_witness:
  "local_session (remove_connection demo_json True 1 demo_gateway) = dir_drop 1 (local_session demo_gateway)"
  using gateway_refines_directory [OF demo_gateway_inv] by blast

end
