(* ===== verification/Signaling.thy ===== *)
theory Signaling
  imports Service_Common Proto_Wire
begin

text \<open>
  The signaling service (\<^verbatim>\<open>services/signaling/src/main.rs\<close>, \<^verbatim>\<open>peer.rs\<close>, \<^verbatim>\<open>delivery.rs\<close>): registration of peer
  sessions, links, pre-keys, forwarding of messages and the offline path into the blind inbox.  The Redis server
  is the parameter \<^verbatim>\<open>R\<close> acting on a state of type \<^verbatim>\<open>'r\<close>; \<^verbatim>\<open>redis_ok\<close> states the documented effect of each command
  on what a key holds, as long as nothing expires.  Lua scripts are translated command by command.  Session
  numbers are taken to be below 10^14, where Lua prints numbers exactly.  The random link identifier and the
  outcome of a publication on the bus are arguments.
\<close>

section \<open>The Redis server\<close>

datatype rvalue = RStr rstring | RList "rstring list" | RZset "(rstring \<times> int) list"

record 'r redis =
  r_get :: "'r \<Rightarrow> rstring \<Rightarrow> rstring option"
  r_set :: "'r \<Rightarrow> rstring \<Rightarrow> rstring \<Rightarrow> 'r"
  r_setex :: "'r \<Rightarrow> rstring \<Rightarrow> nat \<Rightarrow> rstring \<Rightarrow> 'r"
  r_del :: "'r \<Rightarrow> rstring \<Rightarrow> 'r"
  r_lpush :: "'r \<Rightarrow> rstring \<Rightarrow> rstring \<Rightarrow> 'r"
  r_rpush :: "'r \<Rightarrow> rstring \<Rightarrow> rstring \<Rightarrow> 'r"
  r_lrange_all :: "'r \<Rightarrow> rstring \<Rightarrow> rstring list"
  r_ltrim :: "'r \<Rightarrow> rstring \<Rightarrow> nat \<Rightarrow> nat \<Rightarrow> 'r"
  r_expire :: "'r \<Rightarrow> rstring \<Rightarrow> nat \<Rightarrow> 'r"
  r_zadd :: "'r \<Rightarrow> rstring \<Rightarrow> int \<Rightarrow> rstring \<Rightarrow> 'r"
  r_zrem :: "'r \<Rightarrow> rstring \<Rightarrow> rstring \<Rightarrow> 'r"
  r_zrangebyscore :: "'r \<Rightarrow> rstring \<Rightarrow> int \<Rightarrow> rstring list"

fun list_value :: "rvalue option \<Rightarrow> rstring list" where
  "list_value (Some (RList xs)) = xs"
| "list_value _ = []"

fun zset_value :: "rvalue option \<Rightarrow> (rstring \<times> int) list" where
  "zset_value (Some (RZset zs)) = zs"
| "zset_value _ = []"

fun str_value :: "rvalue option \<Rightarrow> rstring option" where
  "str_value (Some (RStr v)) = Some v"
| "str_value _ = None"

fun is_list_key :: "rvalue option \<Rightarrow> bool" where
  "is_list_key None = True"
| "is_list_key (Some (RList _)) = True"
| "is_list_key _ = False"

fun is_zset_key :: "rvalue option \<Rightarrow> bool" where
  "is_zset_key None = True"
| "is_zset_key (Some (RZset _)) = True"
| "is_zset_key _ = False"

text \<open>A key whose list or set becomes empty is removed.\<close>

definition list_or_none :: "rstring list \<Rightarrow> rvalue option" where
  "list_or_none xs = (if xs = [] then None else Some (RList xs))"

definition zset_or_none :: "(rstring \<times> int) list \<Rightarrow> rvalue option" where
  "zset_or_none zs = (if zs = [] then None else Some (RZset zs))"

definition redis_ok :: "'r redis \<Rightarrow> ('r \<Rightarrow> rstring \<Rightarrow> rvalue option) \<Rightarrow> bool" where
  "redis_ok R view \<longleftrightarrow>
     (\<forall>s k. r_get R s k = str_value (view s k))
   \<and> (\<forall>s k v. view (r_set R s k v) = (view s)(k := Some (RStr v)))
   \<and> (\<forall>s k t v. view (r_setex R s k t v) = (view s)(k := Some (RStr v)))
   \<and> (\<forall>s k. view (r_del R s k) = (view s)(k := None))
   \<and> (\<forall>s k v. is_list_key (view s k) \<longrightarrow> view (r_lpush R s k v) = (view s)(k := Some (RList (v # list_value (view s k)))))
   \<and> (\<forall>s k v. is_list_key (view s k) \<longrightarrow> view (r_rpush R s k v) = (view s)(k := Some (RList (list_value (view s k) @ [v]))))
   \<and> (\<forall>s k. is_list_key (view s k) \<longrightarrow> r_lrange_all R s k = list_value (view s k))
   \<and> (\<forall>s k a b. is_list_key (view s k) \<longrightarrow>
        view (r_ltrim R s k a b) = (view s)(k := list_or_none (take (Suc b - a) (drop a (list_value (view s k))))))
   \<and> (\<forall>s k t. view (r_expire R s k t) = view s)
   \<and> (\<forall>s k n m. is_zset_key (view s k) \<longrightarrow>
        view (r_zadd R s k n m) = (view s)(k := Some (RZset ((m, n) # filter (\<lambda>z. fst z \<noteq> m) (zset_value (view s k))))))
   \<and> (\<forall>s k m. is_zset_key (view s k) \<longrightarrow>
        view (r_zrem R s k m) = (view s)(k := zset_or_none (filter (\<lambda>z. fst z \<noteq> m) (zset_value (view s k)))))
   \<and> (\<forall>s k n. is_zset_key (view s k) \<longrightarrow>
        set (r_zrangebyscore R s k n) = fst ` {z \<in> set (zset_value (view s k)). snd z \<le> n}
        \<and> distinct (r_zrangebyscore R s k n))"

lemma redis_okD:
  assumes "redis_ok R view"
  shows "r_get R s k = str_value (view s k)"
    and "view (r_set R s k v) = (view s)(k := Some (RStr v))"
    and "view (r_setex R s k t v) = (view s)(k := Some (RStr v))"
    and "view (r_del R s k) = (view s)(k := None)"
    and "is_list_key (view s k) \<Longrightarrow> view (r_lpush R s k v) = (view s)(k := Some (RList (v # list_value (view s k))))"
    and "is_list_key (view s k) \<Longrightarrow> view (r_rpush R s k v) = (view s)(k := Some (RList (list_value (view s k) @ [v])))"
    and "is_list_key (view s k) \<Longrightarrow> r_lrange_all R s k = list_value (view s k)"
    and "is_list_key (view s k) \<Longrightarrow>
      view (r_ltrim R s k a b) = (view s)(k := list_or_none (take (Suc b - a) (drop a (list_value (view s k)))))"
    and "view (r_expire R s k t) = view s"
    and "is_zset_key (view s k) \<Longrightarrow>
      view (r_zadd R s k n m) = (view s)(k := Some (RZset ((m, n) # filter (\<lambda>z. fst z \<noteq> m) (zset_value (view s k)))))"
    and "is_zset_key (view s k) \<Longrightarrow>
      view (r_zrem R s k m) = (view s)(k := zset_or_none (filter (\<lambda>z. fst z \<noteq> m) (zset_value (view s k))))"
    and "is_zset_key (view s k) \<Longrightarrow>
      set (r_zrangebyscore R s k n) = fst ` {z \<in> set (zset_value (view s k)). snd z \<le> n}"
    and "is_zset_key (view s k) \<Longrightarrow> distinct (r_zrangebyscore R s k n)"
  using assms unfolding redis_ok_def by meson+

text \<open>A server that keeps a map.\<close>

definition demo_redis :: "(rstring \<Rightarrow> rvalue option) redis" where
  "demo_redis =
    \<lparr>r_get = (\<lambda>s k. str_value (s k)),
     r_set = (\<lambda>s k v. s(k := Some (RStr v))),
     r_setex = (\<lambda>s k t v. s(k := Some (RStr v))),
     r_del = (\<lambda>s k. s(k := None)),
     r_lpush = (\<lambda>s k v. s(k := Some (RList (v # list_value (s k))))),
     r_rpush = (\<lambda>s k v. s(k := Some (RList (list_value (s k) @ [v])))),
     r_lrange_all = (\<lambda>s k. list_value (s k)),
     r_ltrim = (\<lambda>s k a b. s(k := list_or_none (take (Suc b - a) (drop a (list_value (s k)))))),
     r_expire = (\<lambda>s k t. s),
     r_zadd = (\<lambda>s k n m. s(k := Some (RZset ((m, n) # filter (\<lambda>z. fst z \<noteq> m) (zset_value (s k)))))),
     r_zrem = (\<lambda>s k m. s(k := zset_or_none (filter (\<lambda>z. fst z \<noteq> m) (zset_value (s k))))),
     r_zrangebyscore = (\<lambda>s k n. remdups (map fst (filter (\<lambda>z. snd z \<le> n) (zset_value (s k)))))\<rparr>"

lemma demo_redis_ok [simp]: "redis_ok demo_redis (\<lambda>s. s)"
  unfolding redis_ok_def demo_redis_def by auto

section \<open>Keys\<close>

definition peer_session_key :: "rstring \<Rightarrow> rstring" where
  "peer_session_key p = ascii ''peer:'' @ p @ ascii '':session''"

definition peer_prekeys_key :: "rstring \<Rightarrow> rstring" where
  "peer_prekeys_key p = ascii ''peer:'' @ p @ ascii '':prekeys''"

definition session_peer_key :: "u64 \<Rightarrow> rstring" where
  "session_peer_key sid = ascii ''session:'' @ dec (unat sid) @ ascii '':peer''"

definition link_key :: "rstring \<Rightarrow> rstring" where
  "link_key l = ascii ''link:'' @ l"

definition ice_key :: "rstring \<Rightarrow> rstring \<Rightarrow> rstring" where
  "ice_key a b = ascii ''ice:'' @ a @ ascii '':'' @ b"

definition inbox_key :: "rstring \<Rightarrow> rstring" where
  "inbox_key h = ascii ''inbox:'' @ h"

lemmas key_defs = peer_session_key_def peer_prekeys_key_def session_peer_key_def link_key_def ice_key_def
  inbox_key_def

lemma key_inject [simp]:
  "peer_session_key p = peer_session_key q \<longleftrightarrow> p = q"
  "peer_prekeys_key p = peer_prekeys_key q \<longleftrightarrow> p = q"
  "session_peer_key a = session_peer_key b \<longleftrightarrow> a = b"
  "link_key l = link_key l' \<longleftrightarrow> l = l'"
  "inbox_key h = inbox_key h' \<longleftrightarrow> h = h'"
  by (simp_all add: key_defs word_unat_eq_iff)

lemma keys_differ [simp]:
  "peer_session_key p \<noteq> peer_prekeys_key q" "peer_prekeys_key q \<noteq> peer_session_key p"
  by (simp_all add: key_defs ascii_def append_eq_append_conv)

lemma key_prefixes_differ [simp]:
  "peer_session_key p \<noteq> session_peer_key a" "session_peer_key a \<noteq> peer_session_key p"
  "peer_prekeys_key p \<noteq> session_peer_key a" "session_peer_key a \<noteq> peer_prekeys_key p"
  "link_key l \<noteq> session_peer_key a" "session_peer_key a \<noteq> link_key l"
  "link_key l \<noteq> peer_session_key p" "peer_session_key p \<noteq> link_key l"
  "link_key l \<noteq> peer_prekeys_key p" "peer_prekeys_key p \<noteq> link_key l"
  "ice_key x y \<noteq> session_peer_key a" "session_peer_key a \<noteq> ice_key x y"
  "ice_key x y \<noteq> peer_session_key p" "peer_session_key p \<noteq> ice_key x y"
  "inbox_key h \<noteq> session_peer_key a" "session_peer_key a \<noteq> inbox_key h"
  "inbox_key h \<noteq> peer_session_key p" "peer_session_key p \<noteq> inbox_key h"
  "inbox_key h \<noteq> peer_prekeys_key p" "peer_prekeys_key p \<noteq> inbox_key h"
  by (simp_all add: key_defs ascii_def)

section \<open>State and helpers\<close>

record 'r sig_env =
  sg_redis :: "'r redis"
  sg_json :: json_lib
  sg_node :: rstring
  sg_pub_ok :: "rstring \<Rightarrow> bool"

record 'r sig_state =
  sig_store :: 'r
  sig_sent :: "(rstring \<times> bytes) list"

definition LINK_TTL_SECS :: nat where "LINK_TTL_SECS = 24 * 60 * 60"
definition SESSION_TTL_SECS :: nat where "SESSION_TTL_SECS = 2 * 60 * 60"
definition ICE_TTL_SECS :: nat where "ICE_TTL_SECS = 5 * 60"
definition PREKEY_TTL_SECS :: nat where "PREKEY_TTL_SECS = 2 * 60 * 60"
definition INBOX_TTL_SECS :: nat where "INBOX_TTL_SECS = 24 * 60 * 60"
definition INBOX_MAX_MESSAGES :: nat where "INBOX_MAX_MESSAGES = 100"

definition json_error :: cerror where "json_error = InvalidData ''invalid JSON''"
definition script_error :: cerror where "script_error = InvalidData ''script error''"
definition nats_error :: cerror where "nats_error = InvalidData ''nats publish failed''"

definition sig_publish :: "'r sig_env \<Rightarrow> rstring \<Rightarrow> bytes \<Rightarrow> 'r sig_state \<Rightarrow> 'r sig_state \<times> unit result" where
  "sig_publish E subject data st =
    (if sg_pub_ok E subject then (st\<lparr>sig_sent := sig_sent st @ [(subject, data)]\<rparr>, Ok ())
     else (st, Err nats_error))"

record PeerSession =
  ps_gateway_node :: rstring
  ps_session_id :: u64

definition peer_session_json :: "PeerSession \<Rightarrow> json" where
  "peer_session_json s =
    JObj [(ascii ''gateway_node'', JStr (ps_gateway_node s)), (ascii ''session_id'', of_u64 (ps_session_id s))]"

definition peer_session_of :: "json \<Rightarrow> PeerSession option" where
  "peer_session_of j =
    (case (json_field j ''gateway_node'' as_str, json_field j ''session_id'' as_u64) of
       (Some n, Some sid) \<Rightarrow> Some \<lparr>ps_gateway_node = n, ps_session_id = sid\<rparr>
     | _ \<Rightarrow> None)"

record PrekeyBundle =
  pb_identity_key :: bytes
  pb_signed_prekey :: bytes
  pb_inbox_id :: "rstring option"

definition opt_str_json :: "rstring option \<Rightarrow> json" where
  "opt_str_json s = (case s of None \<Rightarrow> JNull | Some t \<Rightarrow> JStr t)"

definition prekey_bundle_json :: "PrekeyBundle \<Rightarrow> json" where
  "prekey_bundle_json b =
    JObj [(ascii ''identity_key'', of_bytes (pb_identity_key b)),
          (ascii ''signed_prekey'', of_bytes (pb_signed_prekey b)),
          (ascii ''inbox_id'', opt_str_json (pb_inbox_id b))]"

text \<open>A missing or null \<^verbatim>\<open>inbox_id\<close> reads as \<^verbatim>\<open>None\<close>; another non-string is an error.\<close>

definition prekey_bundle_of :: "json \<Rightarrow> PrekeyBundle option" where
  "prekey_bundle_of j =
    (case (json_field j ''identity_key'' as_byte_vec, json_field j ''signed_prekey'' as_byte_vec) of
       (Some ik, Some spk) \<Rightarrow>
         (case json_get j (ascii ''inbox_id'') of
            None \<Rightarrow> Some \<lparr>pb_identity_key = ik, pb_signed_prekey = spk, pb_inbox_id = None\<rparr>
          | Some JNull \<Rightarrow> Some \<lparr>pb_identity_key = ik, pb_signed_prekey = spk, pb_inbox_id = None\<rparr>
          | Some (JStr h) \<Rightarrow> Some \<lparr>pb_identity_key = ik, pb_signed_prekey = spk, pb_inbox_id = Some h\<rparr>
          | Some _ \<Rightarrow> None)
     | _ \<Rightarrow> None)"

lemma peer_session_roundtrip [simp]: "peer_session_of (peer_session_json s) = Some s"
  by (cases s) (simp add: peer_session_of_def peer_session_json_def json_field_def ascii_def)

lemma prekey_bundle_roundtrip [simp]: "prekey_bundle_of (prekey_bundle_json b) = Some b"
  by (cases b)
     (simp add: prekey_bundle_of_def prekey_bundle_json_def json_field_def ascii_def opt_str_json_def split: option.split)

definition read_json :: "'r sig_env \<Rightarrow> bytes \<Rightarrow> (json \<Rightarrow> 'a option) \<Rightarrow> 'a result" where
  "read_json E data conv =
    (case Option.bind (from_slice (sg_json E) data) conv of None \<Rightarrow> Err json_error | Some x \<Rightarrow> Ok x)"

text \<open>The first two lines of every handler: the envelope and the message in it.\<close>

definition open_envelope :: "'r sig_env \<Rightarrow> bytes \<Rightarrow> (u64 \<times> bytes \<times> Message) result" where
  "open_envelope E data =
    and_then (read_json E data envelope_of)
      (\<lambda>(sid, payl). and_then (dispatch payl) (\<lambda>m. Ok (sid, payl, m)))"

section \<open>Delivery\<close>

definition store_inbox_payload :: "'r redis \<Rightarrow> rstring \<Rightarrow> bytes \<Rightarrow> 'r \<Rightarrow> 'r" where
  "store_inbox_payload R inbox_hex payl s =
    (let key = inbox_key inbox_hex;
         s1 = r_lpush R s key (hex_encode payl);
         s2 = r_ltrim R s1 key 0 (INBOX_MAX_MESSAGES - 1)
     in r_expire R s2 key INBOX_TTL_SECS)"

definition get_peer_id_for_session :: "'r sig_env \<Rightarrow> u64 \<Rightarrow> 'r sig_state \<Rightarrow> rstring result" where
  "get_peer_id_for_session E sid st =
    ok_or (r_get (sg_redis E) (sig_store st) (session_peer_key sid)) (InvalidData ''peer not found for session'')"

definition forward_to_peer :: "'r sig_env \<Rightarrow> rstring \<Rightarrow> bytes \<Rightarrow> 'r sig_state \<Rightarrow> 'r sig_state \<times> unit result" where
  "forward_to_peer E p payl st =
    (case r_get (sg_redis E) (sig_store st) (peer_session_key p) of
       Some text \<Rightarrow>
         (case read_json E text peer_session_of of
            Err e \<Rightarrow> (st, Err e)
          | Ok s \<Rightarrow> sig_publish E (session_subject (ps_session_id s)) payl st)
     | None \<Rightarrow> (st, Ok ()))"

definition try_forward_or_inbox ::
  "'r sig_env \<Rightarrow> rstring \<Rightarrow> bytes \<Rightarrow> 'r sig_state \<Rightarrow> 'r sig_state \<times> bool result" where
  "try_forward_or_inbox E p payl st =
    (case r_get (sg_redis E) (sig_store st) (peer_session_key p) of
       Some text \<Rightarrow>
         (case read_json E text peer_session_of of
            Err e \<Rightarrow> (st, Err e)
          | Ok s \<Rightarrow> (case sig_publish E (session_subject (ps_session_id s)) payl st of
                      (st1, Err e) \<Rightarrow> (st1, Err e)
                    | (st1, Ok _) \<Rightarrow> (st1, Ok True)))
     | None \<Rightarrow>
         (case r_get (sg_redis E) (sig_store st) (peer_prekeys_key p) of
            Some text \<Rightarrow>
              (case read_json E text prekey_bundle_of of
                 Ok b \<Rightarrow>
                   (case pb_inbox_id b of
                      Some h \<Rightarrow> (st\<lparr>sig_store := store_inbox_payload (sg_redis E) h payl (sig_store st)\<rparr>, Ok False)
                    | None \<Rightarrow> (st, Ok False))
               | Err _ \<Rightarrow> (st, Ok False))
          | None \<Rightarrow> (st, Ok False)))"
section \<open>Handlers\<close>

text \<open>The registration script: the reverse entry of an older session of the peer is dropped.\<close>

definition register_script ::
  "'r redis \<Rightarrow> json_lib \<Rightarrow> rstring \<Rightarrow> rstring \<Rightarrow> rstring \<Rightarrow> u64 \<Rightarrow> rstring \<Rightarrow> 'r \<Rightarrow> 'r" where
  "register_script R J key reverse_key val sid p s =
    (let s1 = (case r_get R s key of
                 None \<Rightarrow> s
               | Some old_json \<Rightarrow>
                   (case Option.bind (from_slice J old_json) (\<lambda>j. json_field j ''session_id'' as_u64) of
                      None \<Rightarrow> s
                    | Some old \<Rightarrow> if old = sid then s else r_del R s (session_peer_key old)))
     in r_setex R (r_setex R s1 key SESSION_TTL_SECS val) reverse_key SESSION_TTL_SECS p)"

definition register_msg_of :: "json \<Rightarrow> (u64 \<times> rstring) option" where
  "register_msg_of j =
    (case (json_field j ''session_id'' as_u64, json_field j ''peer_id'' as_str) of
       (Some sid, Some p) \<Rightarrow> Some (sid, p)
     | _ \<Rightarrow> None)"

definition handle_session_register :: "'r sig_env \<Rightarrow> bytes \<Rightarrow> 'r sig_state \<Rightarrow> 'r sig_state \<times> unit result" where
  "handle_session_register E data st =
    (case read_json E data register_msg_of of
       Err e \<Rightarrow> (st, Err e)
     | Ok (sid, p) \<Rightarrow>
         let val = to_text (sg_json E) (peer_session_json \<lparr>ps_gateway_node = sg_node E, ps_session_id = sid\<rparr>)
         in (st\<lparr>sig_store := register_script (sg_redis E) (sg_json E) (peer_session_key p) (session_peer_key sid)
                                val sid p (sig_store st)\<rparr>, Ok ()))"

text \<open>The deregistration script; decoding a broken session record ends it with an error.\<close>

definition deregister_script :: "'r redis \<Rightarrow> json_lib \<Rightarrow> rstring \<Rightarrow> rstring \<Rightarrow> u64 \<Rightarrow> 'r \<Rightarrow> 'r result" where
  "deregister_script R J key reverse_key sid s =
    (case r_get R s key of
       None \<Rightarrow> Ok (r_del R s reverse_key)
     | Some text \<Rightarrow>
         (case from_slice J text of
            None \<Rightarrow> Err script_error
          | Some j \<Rightarrow>
              if json_field j ''session_id'' as_u64 = Some sid
              then Ok (r_del R (r_del R s key) reverse_key)
              else Ok (r_del R s reverse_key)))"

definition handle_session_deregister :: "'r sig_env \<Rightarrow> bytes \<Rightarrow> 'r sig_state \<Rightarrow> 'r sig_state \<times> unit result" where
  "handle_session_deregister E data st =
    (case read_json E data (\<lambda>j. json_field j ''session_id'' as_u64) of
       Err e \<Rightarrow> (st, Err e)
     | Ok sid \<Rightarrow>
         (case r_get (sg_redis E) (sig_store st) (session_peer_key sid) of
            None \<Rightarrow> (st, Ok ())
          | Some p \<Rightarrow>
              (case deregister_script (sg_redis E) (sg_json E) (peer_session_key p) (session_peer_key sid) sid
                      (sig_store st) of
                 Err e \<Rightarrow> (st, Err e)
               | Ok s \<Rightarrow> (st\<lparr>sig_store := s\<rparr>, Ok ()))))"

definition link_found_json :: "rstring \<Rightarrow> PeerSession option \<Rightarrow> json" where
  "link_found_json p s =
    JObj [(ascii ''found'', JBool True), (ascii ''peer_id'', JStr p),
          (ascii ''session'', (case s of None \<Rightarrow> JNull | Some ps \<Rightarrow> peer_session_json ps))]"

definition peer_joined_json :: "rstring \<Rightarrow> json" where
  "peer_joined_json p = JObj [(ascii ''peer_joined'', JBool True), (ascii ''peer_id'', JStr p)]"

definition not_found_json :: "string \<Rightarrow> json" where
  "not_found_json e = JObj [(ascii ''found'', JBool False), (ascii ''error'', JStr (ascii e))]"

definition handle_request_peer :: "'r sig_env \<Rightarrow> bytes \<Rightarrow> 'r sig_state \<Rightarrow> 'r sig_state \<times> unit result" where
  "handle_request_peer E data st =
    (case open_envelope E data of
       Err e \<Rightarrow> (st, Err e)
     | Ok (sid, payl, SignalRequestPeer link_id) \<Rightarrow>
         (case r_get (sg_redis E) (sig_store st) (link_key link_id) of
            Some p \<Rightarrow>
              let session = (case r_get (sg_redis E) (sig_store st) (peer_session_key p) of
                               None \<Rightarrow> None
                             | Some text \<Rightarrow> Option.bind (from_slice (sg_json E) text) peer_session_of)
              in (case sig_publish E (session_subject sid) (to_text (sg_json E) (link_found_json p session)) st of
                    (st1, Err e) \<Rightarrow> (st1, Err e)
                  | (st1, Ok _) \<Rightarrow>
                      (case get_peer_id_for_session E sid st1 of
                         Ok joiner \<Rightarrow>
                           (fst (forward_to_peer E p (to_text (sg_json E) (peer_joined_json joiner)) st1), Ok ())
                       | Err _ \<Rightarrow> (st1, Ok ())))
          | None \<Rightarrow>
              sig_publish E (session_subject sid)
                (to_text (sg_json E) (not_found_json ''link not found or expired'')) st)
     | Ok _ \<Rightarrow> (st, Ok ()))"

definition handle_ice_candidate :: "'r sig_env \<Rightarrow> bytes \<Rightarrow> 'r sig_state \<Rightarrow> 'r sig_state \<times> unit result" where
  "handle_ice_candidate E data st =
    (case open_envelope E data of
       Err e \<Rightarrow> (st, Err e)
     | Ok (sid, payl, SignalIceCandidate candidate p) \<Rightarrow>
         (case get_peer_id_for_session E sid st of
            Err e \<Rightarrow> (st, Err e)
          | Ok source \<Rightarrow>
              let key = ice_key source (hex_encode p);
                  s1 = r_rpush (sg_redis E) (sig_store st) key candidate;
                  s2 = r_expire (sg_redis E) s1 key ICE_TTL_SECS
              in forward_to_peer E (hex_encode p) payl (st\<lparr>sig_store := s2\<rparr>))
     | Ok _ \<Rightarrow> (st, Ok ()))"

definition handle_offer :: "'r sig_env \<Rightarrow> bytes \<Rightarrow> 'r sig_state \<Rightarrow> 'r sig_state \<times> unit result" where
  "handle_offer E data st =
    (case open_envelope E data of
       Err e \<Rightarrow> (st, Err e)
     | Ok (sid, payl, SignalOffer sdp p) \<Rightarrow> forward_to_peer E (hex_encode p) payl st
     | Ok _ \<Rightarrow> (st, Ok ()))"

definition handle_answer :: "'r sig_env \<Rightarrow> bytes \<Rightarrow> 'r sig_state \<Rightarrow> 'r sig_state \<times> unit result" where
  "handle_answer E data st =
    (case open_envelope E data of
       Err e \<Rightarrow> (st, Err e)
     | Ok (sid, payl, SignalAnswer sdp p) \<Rightarrow> forward_to_peer E (hex_encode p) payl st
     | Ok _ \<Rightarrow> (st, Ok ()))"

definition handle_upload_prekeys :: "'r sig_env \<Rightarrow> bytes \<Rightarrow> 'r sig_state \<Rightarrow> 'r sig_state \<times> unit result" where
  "handle_upload_prekeys E data st =
    (case open_envelope E data of
       Err e \<Rightarrow> (st, Err e)
     | Ok (sid, payl, KeysUploadPrekeys ik spk inbox_id) \<Rightarrow>
         (case get_peer_id_for_session E sid st of
            Err e \<Rightarrow> (st, Err e)
          | Ok p \<Rightarrow>
              let b = \<lparr>pb_identity_key = ik, pb_signed_prekey = spk,
                       pb_inbox_id = (if inbox_id = [] then None else Some (hex_encode inbox_id))\<rparr>
              in (st\<lparr>sig_store := r_setex (sg_redis E) (sig_store st) (peer_prekeys_key p) PREKEY_TTL_SECS
                                    (to_text (sg_json E) (prekey_bundle_json b))\<rparr>, Ok ()))
     | Ok _ \<Rightarrow> (st, Ok ()))"

definition prekeys_found_json :: "PrekeyBundle \<Rightarrow> json" where
  "prekeys_found_json b =
    JObj [(ascii ''found'', JBool True), (ascii ''identity_key'', of_bytes (pb_identity_key b)),
          (ascii ''signed_prekey'', of_bytes (pb_signed_prekey b)),
          (ascii ''inbox_id'', opt_str_json (pb_inbox_id b))]"

definition handle_get_prekeys :: "'r sig_env \<Rightarrow> bytes \<Rightarrow> 'r sig_state \<Rightarrow> 'r sig_state \<times> unit result" where
  "handle_get_prekeys E data st =
    (case open_envelope E data of
       Err e \<Rightarrow> (st, Err e)
     | Ok (sid, payl, KeysGetPrekeys p) \<Rightarrow>
         (case r_get (sg_redis E) (sig_store st) (peer_prekeys_key (hex_encode p)) of
            Some text \<Rightarrow>
              (case read_json E text prekey_bundle_of of
                 Err e \<Rightarrow> (st, Err e)
               | Ok b \<Rightarrow> sig_publish E (session_subject sid) (to_text (sg_json E) (prekeys_found_json b)) st)
          | None \<Rightarrow>
              sig_publish E (session_subject sid)
                (to_text (sg_json E) (not_found_json ''prekeys not found for peer'')) st)
     | Ok _ \<Rightarrow> (st, Ok ()))"

definition handle_chat_send :: "'r sig_env \<Rightarrow> bytes \<Rightarrow> 'r sig_state \<Rightarrow> 'r sig_state \<times> unit result" where
  "handle_chat_send E data st =
    (case open_envelope E data of
       Err e \<Rightarrow> (st, Err e)
     | Ok (sid, payl, ChatSend p ct rk n) \<Rightarrow>
         (case get_peer_id_for_session E sid st of
            Err e \<Rightarrow> (st, Err e)
          | Ok sender_hex \<Rightarrow>
              (case try_forward_or_inbox E (hex_encode p)
                      (serialize (ChatSend (hex_decode_bytes sender_hex) ct rk n)) st of
                 (st1, Err e) \<Rightarrow> (st1, Err e)
               | (st1, Ok _) \<Rightarrow> (st1, Ok ())))
     | Ok _ \<Rightarrow> (st, Ok ()))"

fun file_target :: "Message \<Rightarrow> bytes option" where
  "file_target (FileOffer p _ _ _ _ _ _) = Some p"
| "file_target (FileAccept p _) = Some p"
| "file_target (FileChunk p _ _ _ _ _ _) = Some p"
| "file_target (FileComplete p _) = Some p"
| "file_target (FileChunkAck p _ _) = Some p"
| "file_target (FileResume p _ _) = Some p"
| "file_target _ = None"

definition handle_file_forward :: "'r sig_env \<Rightarrow> bytes \<Rightarrow> 'r sig_state \<Rightarrow> 'r sig_state \<times> unit result" where
  "handle_file_forward E data st =
    (case open_envelope E data of
       Err e \<Rightarrow> (st, Err e)
     | Ok (sid, payl, m) \<Rightarrow>
         (case file_target m of
            Some p \<Rightarrow> forward_to_peer E (hex_encode p) payl st
          | None \<Rightarrow> (st, Ok ())))"

definition handle_create_link :: "'r sig_env \<Rightarrow> rstring \<Rightarrow> bytes \<Rightarrow> 'r sig_state \<Rightarrow> 'r sig_state \<times> unit result" where
  "handle_create_link E link_id data st =
    (case read_json E data register_msg_of of
       Err e \<Rightarrow> (st, Err e)
     | Ok (sid, p) \<Rightarrow>
         let s1 = r_setex (sg_redis E) (sig_store st) (link_key link_id) LINK_TTL_SECS p
         in sig_publish E (session_subject sid)
              (to_text (sg_json E) (JObj [(ascii ''link_id'', JStr link_id)])) (st\<lparr>sig_store := s1\<rparr>))"

end
