(* ===== verification/Signaling_Inbox.thy ===== *)
theory Signaling_Inbox
  imports Signaling Crypto_Base
begin

text \<open>
  The blind inbox of the signaling service (\<^verbatim>\<open>services/signaling/src/inbox.rs\<close>, \<^verbatim>\<open>signing.rs\<close>, \<^verbatim>\<open>bootstrap.rs\<close>): signed
  two-phase fetch with claim tokens, acknowledgement, recovery of unacknowledged claims, the bootstrap answer,
  and the dispatch of bus messages to the handlers.  The clock is an argument.
\<close>

section \<open>Signatures and claim tokens\<close>

record ServerSigner =
  signing_seed :: bytes
  hmac_secret :: bytes

definition signed_inbox_data :: "bytes \<Rightarrow> u32 \<Rightarrow> bytes \<Rightarrow> u64 \<Rightarrow> bytes" where
  "signed_inbox_data blob count inbox_id timestamp = blob @ u32_le count @ inbox_id @ u64_le timestamp"

definition sign_inbox_response :: "crypto \<Rightarrow> ServerSigner \<Rightarrow> bytes \<Rightarrow> u32 \<Rightarrow> bytes \<Rightarrow> u64 \<Rightarrow> bytes" where
  "sign_inbox_response C sr blob count inbox_id timestamp
    = ed_sign C (signing_seed sr) (signed_inbox_data blob count inbox_id timestamp)"

definition signer_verifying_key :: "crypto \<Rightarrow> ServerSigner \<Rightarrow> bytes" where
  "signer_verifying_key C sr = ed_public C (signing_seed sr)"

definition generate_claim_token :: "crypto \<Rightarrow> ServerSigner \<Rightarrow> bytes \<Rightarrow> u64 \<Rightarrow> bytes" where
  "generate_claim_token C sr inbox_id timestamp
    = u64_le timestamp @ hmac C (hmac_secret sr) (inbox_id @ u64_le timestamp)"

text \<open>The differences are accumulated over the zipped bytes.\<close>

definition constant_time_eq :: "bytes \<Rightarrow> bytes \<Rightarrow> bool" where
  "constant_time_eq a b =
    (if length a \<noteq> length b then False
     else fold (\<lambda>(x, y) diff. or diff (xor x y)) (zip a b) 0 = 0)"

definition verify_claim_token :: "crypto \<Rightarrow> ServerSigner \<Rightarrow> u64 \<Rightarrow> bytes \<Rightarrow> bytes \<Rightarrow> u64 \<Rightarrow> bool" where
  "verify_claim_token C sr now inbox_id token max_age_secs =
    (if length token \<noteq> 40 then False
     else let timestamp = (from_le (slice_of 0 8 token) :: u64) in
       if (if timestamp \<le> now then now - timestamp else 0) > max_age_secs then False
       else if timestamp > now + 60 then False
       else constant_time_eq (generate_claim_token C sr inbox_id timestamp) token)"

lemma constant_time_eq_iff: "constant_time_eq a b \<longleftrightarrow> a = b"
  unfolding constant_time_eq_def or_fold_zero by (subst list_eq_iff_zip_eq) simp

section \<open>Inbox handlers\<close>

definition INBOX_CLAIM_TTL_SECS :: u64 where "INBOX_CLAIM_TTL_SECS = 300"

definition claims_index :: rstring where "claims_index = ascii ''inbox:claims''"

definition claim_key :: "bytes \<Rightarrow> rstring" where
  "claim_key token = ascii ''inbox:claim:'' @ hex_encode token"

definition claim_json :: "rstring \<Rightarrow> rstring list \<Rightarrow> json" where
  "claim_json inbox_hex msgs = JObj [(ascii ''inbox_id'', JStr inbox_hex), (ascii ''messages'', JArr (map JStr msgs))]"

fun as_str_list :: "json \<Rightarrow> rstring list option" where
  "as_str_list (JArr xs) =
    (if \<forall>x\<in>set xs. as_str x \<noteq> None then Some (map (\<lambda>x. the (as_str x)) xs) else None)"
| "as_str_list _ = None"

definition claim_of :: "json \<Rightarrow> (rstring \<times> rstring list) option" where
  "claim_of j =
    (case (json_field j ''inbox_id'' as_str, json_field j ''messages'' as_str_list) of
       (Some h, Some ms) \<Rightarrow> Some (h, ms)
     | _ \<Rightarrow> None)"

lemma claim_roundtrip [simp]: "claim_of (claim_json h ms) = Some (h, ms)"
  by (simp add: claim_of_def claim_json_def json_field_def ascii_def comp_def)

definition handle_inbox_store :: "'r sig_env \<Rightarrow> bytes \<Rightarrow> 'r sig_state \<Rightarrow> 'r sig_state \<times> unit result" where
  "handle_inbox_store E data st =
    (case open_envelope E data of
       Err e \<Rightarrow> (st, Err e)
     | Ok (sid, payl, InboxStore inbox_id ct) \<Rightarrow>
         (st\<lparr>sig_store := store_inbox_payload (sg_redis E) (hex_encode inbox_id) ct (sig_store st)\<rparr>, Ok ())
     | Ok _ \<Rightarrow> (st, Ok ()))"

text \<open>The fetch script: the messages are moved into a claim and the inbox is emptied.\<close>

definition fetch_script ::
  "'r redis \<Rightarrow> json_lib \<Rightarrow> rstring \<Rightarrow> rstring \<Rightarrow> int \<Rightarrow> rstring \<Rightarrow> 'r \<Rightarrow> 'r \<times> rstring list" where
  "fetch_script R J key ckey deadline inbox_hex s =
    (let msgs = r_lrange_all R s key;
         s1 = (if length msgs > 0
               then r_zadd R (r_set R s ckey (to_text J (claim_json inbox_hex msgs))) claims_index deadline ckey
               else s)
     in (r_del R s1 key, msgs))"

definition inbox_blob :: "rstring list \<Rightarrow> bytes" where
  "inbox_blob msgs =
    concat (map (\<lambda>m. let raw = hex_decode_bytes m
                      in if raw = [] then [] else u32_le (word_of_nat (length raw)) @ raw) msgs)"

definition reply_subject :: "rstring option \<Rightarrow> u64 \<Rightarrow> rstring" where
  "reply_subject reply sid = (case reply of Some s \<Rightarrow> s | None \<Rightarrow> session_subject sid)"

definition handle_inbox_fetch ::
  "'r sig_env \<Rightarrow> crypto \<Rightarrow> ServerSigner \<Rightarrow> u64 \<Rightarrow> rstring option \<Rightarrow> bytes \<Rightarrow> 'r sig_state \<Rightarrow> 'r sig_state \<times> unit result" where
  "handle_inbox_fetch E C sr now reply data st =
    (case open_envelope E data of
       Err e \<Rightarrow> (st, Err e)
     | Ok (sid, payl, InboxFetch inbox_id) \<Rightarrow>
         let claim_token = generate_claim_token C sr inbox_id now;
             (s1, msgs) = fetch_script (sg_redis E) (sg_json E) (inbox_key (hex_encode inbox_id)) (claim_key claim_token)
                            (sint (now + INBOX_CLAIM_TTL_SECS)) (hex_encode inbox_id) (sig_store st);
             count = word_of_nat (length msgs);
             blob = inbox_blob msgs;
             server_sig = sign_inbox_response C sr blob count inbox_id now
         in sig_publish E (reply_subject reply sid)
              (serialize (InboxMessages blob count) @ claim_token @ server_sig) (st\<lparr>sig_store := s1\<rparr>)
     | Ok _ \<Rightarrow> (st, Ok ()))"

definition handle_inbox_ack ::
  "'r sig_env \<Rightarrow> crypto \<Rightarrow> ServerSigner \<Rightarrow> u64 \<Rightarrow> rstring option \<Rightarrow> bytes \<Rightarrow> 'r sig_state \<Rightarrow> 'r sig_state \<times> unit result" where
  "handle_inbox_ack E C sr now reply data st =
    (case open_envelope E data of
       Err e \<Rightarrow> (st, Err e)
     | Ok (sid, payl, InboxAck inbox_id token) \<Rightarrow>
         if \<not> verify_claim_token C sr now inbox_id token INBOX_CLAIM_TTL_SECS then (st, Ok ())
         else let s1 = r_del (sg_redis E) (sig_store st) (claim_key token);
                  s2 = r_zrem (sg_redis E) s1 claims_index (claim_key token)
              in sig_publish E (reply_subject reply sid) (serialize (InboxMessages [] 0)) (st\<lparr>sig_store := s2\<rparr>)
     | Ok _ \<Rightarrow> (st, Ok ()))"

text \<open>One claim put back: the messages are pushed from the last to the first.\<close>

definition recover_script :: "'r redis \<Rightarrow> json_lib \<Rightarrow> rstring \<Rightarrow> 'r \<Rightarrow> 'r result" where
  "recover_script R J ckey s =
    (case r_get R s ckey of
       None \<Rightarrow> Ok (r_zrem R s claims_index ckey)
     | Some claim \<Rightarrow>
         (case Option.bind (from_slice J claim) claim_of of
            None \<Rightarrow> Err script_error
          | Some (h, msgs) \<Rightarrow>
              let key = inbox_key h;
                  s1 = fold (\<lambda>m s. r_lpush R s key m) (rev msgs) s;
                  s2 = r_ltrim R s1 key 0 (INBOX_MAX_MESSAGES - 1);
                  s3 = r_expire R s2 key INBOX_TTL_SECS
              in Ok (r_zrem R (r_del R s3 ckey) claims_index ckey)))"

primrec recover_keys :: "'r redis \<Rightarrow> json_lib \<Rightarrow> rstring list \<Rightarrow> 'r \<Rightarrow> 'r \<times> unit result" where
  "recover_keys R J [] s = (s, Ok ())"
| "recover_keys R J (k # ks) s =
    (case recover_script R J k s of Err e \<Rightarrow> (s, Err e) | Ok s1 \<Rightarrow> recover_keys R J ks s1)"

text \<open>One round of the recovery loop; an error ends the loop.\<close>

definition recover_round :: "'r sig_env \<Rightarrow> u64 \<Rightarrow> 'r sig_state \<Rightarrow> 'r sig_state \<times> unit result" where
  "recover_round E now st =
    (let keys = r_zrangebyscore (sg_redis E) (sig_store st) claims_index (sint now);
         (s, r) = recover_keys (sg_redis E) (sg_json E) keys (sig_store st)
     in (st\<lparr>sig_store := s\<rparr>, r))"

section \<open>Bootstrap\<close>

definition CAPABILITY_SIGNED_INBOX :: u32 where "CAPABILITY_SIGNED_INBOX = 1"
definition CAPABILITY_RELAY :: u32 where "CAPABILITY_RELAY = 2"

definition relay_record_of :: "json \<Rightarrow> (rstring \<times> bytes) option" where
  "relay_record_of j =
    (case (json_field j ''relay_addr'' as_str, json_field j ''relay_public_key'' as_byte_vec) of
       (Some a, Some k) \<Rightarrow> Some (a, k)
     | _ \<Rightarrow> None)"

definition bootstrap_key :: rstring where "bootstrap_key = ascii ''transport:relay:bootstrap''"

definition load_relay_bootstrap :: "'r sig_env \<Rightarrow> 'r sig_state \<Rightarrow> (rstring \<times> bytes) option result" where
  "load_relay_bootstrap E st =
    (case r_get (sg_redis E) (sig_store st) bootstrap_key of
       None \<Rightarrow> Ok None
     | Some text \<Rightarrow> and_then (read_json E text relay_record_of) (\<lambda>r. Ok (Some r)))"

definition handle_transport_bootstrap ::
  "'r sig_env \<Rightarrow> crypto \<Rightarrow> ServerSigner \<Rightarrow> bytes \<Rightarrow> 'r sig_state \<Rightarrow> 'r sig_state \<times> unit result" where
  "handle_transport_bootstrap E C sr data st =
    (case open_envelope E data of
       Err e \<Rightarrow> (st, Err e)
     | Ok (sid, payl, TransportBootstrap) \<Rightarrow>
         (case load_relay_bootstrap E st of
            Err e \<Rightarrow> (st, Err e)
          | Ok relay \<Rightarrow>
              let info = (case relay of
                            Some (a, k) \<Rightarrow> TransportBootstrapInfo a k (signer_verifying_key C sr)
                                            (or CAPABILITY_SIGNED_INBOX CAPABILITY_RELAY)
                          | None \<Rightarrow> TransportBootstrapInfo [] [] (signer_verifying_key C sr) CAPABILITY_SIGNED_INBOX)
              in sig_publish E (session_subject sid) (serialize info) st)
     | Ok _ \<Rightarrow> (st, Ok ()))"

section \<open>Dispatch by subject\<close>

text \<open>What a handler takes from outside: the Unix time, the reply subject of the message, a random link.\<close>

record sig_input =
  in_now :: u64
  in_reply :: "rstring option"
  in_link :: rstring

definition handle_message ::
  "'r sig_env \<Rightarrow> crypto \<Rightarrow> ServerSigner \<Rightarrow> sig_input \<Rightarrow> string \<Rightarrow> bytes \<Rightarrow> 'r sig_state \<Rightarrow> 'r sig_state \<times> unit result" where
  "handle_message E C sr i subject data st =
    (if subject = ''signaling.session.register'' then handle_session_register E data st
     else if subject = ''signaling.session.deregister'' then handle_session_deregister E data st
     else if subject = ''signaling.request_peer'' then handle_request_peer E data st
     else if subject = ''signaling.ice_candidate'' then handle_ice_candidate E data st
     else if subject = ''signaling.offer'' then handle_offer E data st
     else if subject = ''signaling.answer'' then handle_answer E data st
     else if subject = ''signaling.upload_prekeys'' then handle_upload_prekeys E data st
     else if subject = ''signaling.get_prekeys'' then handle_get_prekeys E data st
     else if subject = ''signaling.transport_bootstrap'' then handle_transport_bootstrap E C sr data st
     else if subject = ''signaling.chat_send'' then handle_chat_send E data st
     else if subject = ''signaling.create_link'' then handle_create_link E (in_link i) data st
     else if subject \<in> {''signaling.file_offer'', ''signaling.file_accept'', ''signaling.file_chunk'',
                        ''signaling.file_complete'', ''signaling.file_chunk_ack'', ''signaling.file_resume''}
       then handle_file_forward E data st
     else if subject = ''signaling.inbox_store'' then handle_inbox_store E data st
     else if subject = ''signaling.inbox_fetch'' then handle_inbox_fetch E C sr (in_now i) (in_reply i) data st
     else if subject = ''signaling.inbox_ack'' then handle_inbox_ack E C sr (in_now i) (in_reply i) data st
     else (st, Ok ()))"

end
