(* ===== verification/Signaling_Invariant.thy ===== *)
theory Signaling_Invariant
  imports Signaling_Inbox
begin

text \<open>
  The invariant of the signaling service's store and what follows from it: routes and identities agree in every
  reachable state, late deregistrations do no harm, and the two-phase fetch of the blind inbox neither loses nor
  repeats messages as long as an inbox is fetched at most once per second.
\<close>

section \<open>Store invariant\<close>

lemma hex_not_claim: "ascii ''claim'' @ r \<noteq> hex_encode bs"
proof
  assume "ascii ''claim'' @ r = hex_encode bs"
  then have "0x6C \<in> set (hex_encode bs)" by (simp add: ascii_def flip: \<open>ascii ''claim'' @ r = hex_encode bs\<close>)
  from set_hex_encode [OF this] show False by (simp add: hex_value_def)
qed

lemma claim_inbox_differ [simp]:
  "claim_key t \<noteq> inbox_key (hex_encode i)" "inbox_key (hex_encode i) \<noteq> claim_key t"
  "claims_index \<noteq> inbox_key (hex_encode i)" "inbox_key (hex_encode i) \<noteq> claims_index"
  using hex_not_claim [of "ascii '':'' @ hex_encode t" i] hex_not_claim [of "ascii ''s''" i]
  by (auto simp: claim_key_def claims_index_def inbox_key_def ascii_def)

lemma claim_keys_differ [simp]:
  "claim_key t \<noteq> claims_index" "claims_index \<noteq> claim_key t"
  "claim_key t = claim_key u \<longleftrightarrow> t = u"
  "claim_key t \<noteq> session_peer_key a" "session_peer_key a \<noteq> claim_key t"
  "claim_key t \<noteq> peer_session_key p" "peer_session_key p \<noteq> claim_key t"
  "claim_key t \<noteq> peer_prekeys_key p" "peer_prekeys_key p \<noteq> claim_key t"
  "claim_key t \<noteq> link_key l" "link_key l \<noteq> claim_key t"
  "claim_key t \<noteq> ice_key x y" "ice_key x y \<noteq> claim_key t"
  "claims_index \<noteq> session_peer_key a" "session_peer_key a \<noteq> claims_index"
  "claims_index \<noteq> peer_session_key p" "peer_session_key p \<noteq> claims_index"
  "claims_index \<noteq> peer_prekeys_key p" "peer_prekeys_key p \<noteq> claims_index"
  "claims_index \<noteq> link_key l" "link_key l \<noteq> claims_index"
  "claims_index \<noteq> ice_key x y" "ice_key x y \<noteq> claims_index"
  "ice_key x y \<noteq> peer_prekeys_key p" "peer_prekeys_key p \<noteq> ice_key x y"
  "ice_key x y \<noteq> link_key l" "link_key l \<noteq> ice_key x y"
  "ice_key x y \<noteq> inbox_key h" "inbox_key h \<noteq> ice_key x y"
  "link_key l \<noteq> inbox_key h" "inbox_key h \<noteq> link_key l"
  by (simp_all add: key_defs claim_key_def claims_index_def ascii_def)

text \<open>What the keys hold: the reverse index agrees with the session records, records are well-formed JSON,
  inboxes and candidate lists are lists, claims hold an inbox and its messages.\<close>

definition sig_inv :: "json_lib \<Rightarrow> (rstring \<Rightarrow> rvalue option) \<Rightarrow> bool" where
  "sig_inv J v \<longleftrightarrow>
     (\<forall>sid p. str_value (v (session_peer_key sid)) = Some p \<longrightarrow>
        (\<exists>n. v (peer_session_key p)
           = Some (RStr (to_text J (peer_session_json \<lparr>ps_gateway_node = n, ps_session_id = sid\<rparr>)))))
   \<and> (\<forall>p x. v (peer_session_key p) = Some x \<longrightarrow> (\<exists>ps. x = RStr (to_text J (peer_session_json ps))))
   \<and> (\<forall>p x. v (peer_prekeys_key p) = Some x \<longrightarrow>
        (\<exists>b. x = RStr (to_text J (prekey_bundle_json b)) \<and> (pb_inbox_id b = None \<or> (\<exists>i. pb_inbox_id b = Some (hex_encode i)))))
   \<and> (\<forall>a b. is_list_key (v (ice_key a b)))
   \<and> (\<forall>i. is_list_key (v (inbox_key (hex_encode i))))
   \<and> (\<forall>t x. v (claim_key t) = Some x \<longrightarrow> (\<exists>i ms. x = RStr (to_text J (claim_json (hex_encode i) ms))))
   \<and> is_zset_key (v claims_index)
   \<and> (\<forall>z\<in>set (zset_value (v claims_index)). \<exists>t. fst z = claim_key t)"

lemma sig_inv_empty: "sig_inv J (\<lambda>_. None)"
  by (simp add: sig_inv_def)

lemma sig_inv_link: "sig_inv J v \<Longrightarrow> sig_inv J (v(link_key l := x))"
  by (simp add: sig_inv_def)

lemma sig_inv_ice: "sig_inv J v \<Longrightarrow> sig_inv J (v(ice_key a b := Some (RList xs)))"
  by (simp add: sig_inv_def)

lemma sig_inv_inbox: "sig_inv J v \<Longrightarrow> is_list_key x \<Longrightarrow> sig_inv J (v(inbox_key (hex_encode i) := x))"
  by (simp add: sig_inv_def)

lemma sig_inv_prekeys:
  "sig_inv J v \<Longrightarrow> pb_inbox_id b = None \<or> (\<exists>i. pb_inbox_id b = Some (hex_encode i)) \<Longrightarrow>
   sig_inv J (v(peer_prekeys_key p := Some (RStr (to_text J (prekey_bundle_json b)))))"
  by (auto simp: sig_inv_def)

lemma sig_inv_claim:
  "sig_inv J v \<Longrightarrow> sig_inv J (v(claim_key t := Some (RStr (to_text J (claim_json (hex_encode i) ms)))))"
  by (auto simp: sig_inv_def)

lemma sig_inv_claim_del: "sig_inv J v \<Longrightarrow> sig_inv J (v(claim_key t := None))"
  by (simp add: sig_inv_def)

lemma sig_inv_index_add:
  "sig_inv J v \<Longrightarrow> sig_inv J (v(claims_index := Some (RZset ((claim_key t, n) # filter P (zset_value (v claims_index))))))"
  by (auto simp: sig_inv_def)

lemma sig_inv_index_del:
  "sig_inv J v \<Longrightarrow> sig_inv J (v(claims_index := zset_or_none (filter P (zset_value (v claims_index)))))"
  by (auto simp: sig_inv_def zset_or_none_def)
lemma session_field [simp]: "json_field (peer_session_json ps) ''session_id'' as_u64 = Some (ps_session_id ps)"
  by (simp add: json_field_def peer_session_json_def ascii_def)

lemma to_text_inject: "json_ok J \<Longrightarrow> to_text J a = to_text J b \<longleftrightarrow> a = b"
  by (metis json_okD option.inject)

lemma peer_session_json_inject [simp]: "peer_session_json a = peer_session_json b \<longleftrightarrow> a = b"
  by (metis option.inject peer_session_roundtrip)

lemma sig_inv_sessions:
  assumes "sig_inv J v" "v (peer_session_key p) = None \<or>
      v (peer_session_key p) = Some (RStr (to_text J (peer_session_json ps))) \<and>
        (ps_session_id ps = sid \<or> v (session_peer_key (ps_session_id ps)) = None)" "json_ok J"
  shows "sig_inv J (v(peer_session_key p := Some (RStr (to_text J (peer_session_json \<lparr>ps_gateway_node = n, ps_session_id = sid\<rparr>))),
                      session_peer_key sid := Some (RStr p)))" (is "sig_inv J ?w")
proof -
  have "\<exists>n. ?w (peer_session_key p') = Some (RStr (to_text J (peer_session_json \<lparr>ps_gateway_node = n, ps_session_id = sid'\<rparr>)))"
    if "str_value (?w (session_peer_key sid')) = Some p'" for sid' p'
  proof (cases "sid' = sid")
    case True
    then show ?thesis using that by auto
  next
    case False
    then have r: "str_value (v (session_peer_key sid')) = Some p'" using that by simp
    then obtain m where m: "v (peer_session_key p') = Some (RStr (to_text J (peer_session_json \<lparr>ps_gateway_node = m, ps_session_id = sid'\<rparr>)))"
      using assms(1) unfolding sig_inv_def by blast
    have "p' \<noteq> p" using r m assms(2) False by (auto simp: to_text_inject [OF assms(3)])
    then show ?thesis using m by auto
  qed
  then show ?thesis using assms(1) unfolding sig_inv_def by (auto simp del: fun_upd_apply simp: fun_upd_other) (auto split: if_splits)
qed

lemma register_script_inv:
  assumes "redis_ok R view" "json_ok J" "sig_inv J (view s)"
    and val_def: "val = to_text J (peer_session_json \<lparr>ps_gateway_node = n, ps_session_id = sid\<rparr>)"
    and s'_def: "s' = register_script R J (peer_session_key p) (session_peer_key sid) val sid p s"
  shows "sig_inv J (view s')" and "view s' (session_peer_key sid) = Some (RStr p)"
    and "view s' (peer_session_key p) = Some (RStr val)"
proof -
  note R = redis_okD [OF assms(1)]
  obtain v1 where v': "view s' = v1(peer_session_key p := Some (RStr val), session_peer_key sid := Some (RStr p))"
    and inv: "sig_inv J v1"
    and v1: "v1 (peer_session_key p) = None \<or> (\<exists>ps. v1 (peer_session_key p) = Some (RStr (to_text J (peer_session_json ps))) \<and>
        (ps_session_id ps = sid \<or> v1 (session_peer_key (ps_session_id ps)) = None))"
  proof (cases "view s (peer_session_key p)")
    case None
    then have "view s' = (view s)(peer_session_key p := Some (RStr val), session_peer_key sid := Some (RStr p))"
      by (simp add: s'_def register_script_def R)
    then show ?thesis using that [of "view s"] None assms(3) by simp
  next
    case (Some x)
    then obtain ps where ps: "view s (peer_session_key p) = Some (RStr (to_text J (peer_session_json ps)))"
      using assms(3) unfolding sig_inv_def by blast
    let ?v = "if ps_session_id ps = sid then view s else (view s)(session_peer_key (ps_session_id ps) := None)"
    show ?thesis
    proof (rule that [of ?v])
      show "view s' = ?v(peer_session_key p := Some (RStr val), session_peer_key sid := Some (RStr p))"
        by (simp add: s'_def register_script_def R ps json_okD [OF assms(2)])
      show "sig_inv J ?v" using assms(3) by (simp add: sig_inv_def)
      show "?v (peer_session_key p) = None \<or> (\<exists>ps. ?v (peer_session_key p) = Some (RStr (to_text J (peer_session_json ps))) \<and>
          (ps_session_id ps = sid \<or> ?v (session_peer_key (ps_session_id ps)) = None))"
        by (rule disjI2, rule exI [of _ ps]) (simp add: ps)
    qed
  qed
  show "sig_inv J (view s')"
    using v1 sig_inv_sessions [OF inv _ assms(2)] unfolding v' val_def by blast
  show "view s' (session_peer_key sid) = Some (RStr p)" "view s' (peer_session_key p) = Some (RStr val)"
    by (simp_all add: v')
qed

lemma sig_inv_unregister:
  "sig_inv J v \<Longrightarrow> sig_inv J (v(session_peer_key sid := None))"
  by (simp add: sig_inv_def)

lemma sig_inv_unregister_both:
  assumes "sig_inv J v" "json_ok J"
    "v (peer_session_key p) = Some (RStr (to_text J (peer_session_json ps)))" "ps_session_id ps = sid"
  shows "sig_inv J (v(peer_session_key p := None, session_peer_key sid := None))" (is "sig_inv J ?w")
proof -
  have "\<exists>n. ?w (peer_session_key p') = Some (RStr (to_text J (peer_session_json \<lparr>ps_gateway_node = n, ps_session_id = sid'\<rparr>)))"
    if "str_value (?w (session_peer_key sid')) = Some p'" for sid' p'
  proof -
    have r: "sid' \<noteq> sid" "str_value (v (session_peer_key sid')) = Some p'" using that by (auto split: if_splits)
    then obtain m where m: "v (peer_session_key p') = Some (RStr (to_text J (peer_session_json \<lparr>ps_gateway_node = m, ps_session_id = sid'\<rparr>)))"
      using assms(1) unfolding sig_inv_def by blast
    have "p' \<noteq> p" using m assms(3,4) r(1) by (auto simp: to_text_inject [OF assms(2)])
    then show ?thesis using m by auto
  qed
  then show ?thesis using assms(1) unfolding sig_inv_def by (auto simp del: fun_upd_apply simp: fun_upd_other) (auto split: if_splits)
qed

lemma deregister_script_inv:
  assumes "redis_ok R view" "json_ok J" "sig_inv J (view s)"
    "deregister_script R J (peer_session_key p) (session_peer_key sid) sid s = Ok s'"
  shows "sig_inv J (view s')"
proof (cases "view s (peer_session_key p)")
  case None
  then show ?thesis
    using assms(3,4) by (auto simp: deregister_script_def redis_okD [OF assms(1)] sig_inv_unregister)
next
  case (Some x)
  then obtain ps where ps: "view s (peer_session_key p) = Some (RStr (to_text J (peer_session_json ps)))"
    using assms(3) unfolding sig_inv_def by blast
  then show ?thesis
    using assms(4) sig_inv_unregister [OF assms(3), of sid] sig_inv_unregister_both [OF assms(3,2) ps]
    by (auto simp: deregister_script_def redis_okD [OF assms(1)] json_okD [OF assms(2)] split: if_splits)
qed

lemma store_inbox_view:
  assumes "redis_ok R view" "is_list_key (view s (inbox_key h))"
  shows "view (store_inbox_payload R h payl s)
    = (view s)(inbox_key h := Some (RList (take 100 (hex_encode payl # list_value (view s (inbox_key h))))))"
  using assms(2)
  by (simp add: store_inbox_payload_def Let_def redis_okD [OF assms(1)] list_or_none_def INBOX_MAX_MESSAGES_def take_Cons')

lemma sig_publish_store [simp]:
  "sig_store (fst (sig_publish E sub d st)) = sig_store st"
  "sig_publish E sub d st = (st', r) \<Longrightarrow> sig_store st' = sig_store st"
  by (auto simp: sig_publish_def split: if_splits)

lemma forward_store [simp]:
  "sig_store (fst (forward_to_peer E p d st)) = sig_store st"
  by (simp add: forward_to_peer_def split: option.split result.split)
section \<open>Every handler keeps the invariant\<close>

definition sig_ok :: "'r sig_env \<Rightarrow> ('r \<Rightarrow> rstring \<Rightarrow> rvalue option) \<Rightarrow> bool" where
  "sig_ok E view \<longleftrightarrow> redis_ok (sg_redis E) view \<and> json_ok (sg_json E)"

definition st_inv :: "'r sig_env \<Rightarrow> ('r \<Rightarrow> rstring \<Rightarrow> rvalue option) \<Rightarrow> 'r sig_state \<Rightarrow> bool" where
  "st_inv E view st \<longleftrightarrow> sig_inv (sg_json E) (view (sig_store st))"

lemma st_inv_same_store: "sig_store st' = sig_store st \<Longrightarrow> st_inv E view st \<Longrightarrow> st_inv E view st'"
  by (simp add: st_inv_def)

lemma st_inv_publish [simp]: "st_inv E view (fst (sig_publish E sub d st)) = st_inv E view st"
  by (simp add: st_inv_def)

lemma st_inv_forward [simp]: "st_inv E view (fst (forward_to_peer E p d st)) = st_inv E view st"
  by (simp add: st_inv_def)

lemma st_inv_store_inbox:
  assumes "sig_ok E view" "st_inv E view st"
  shows "st_inv E view (st\<lparr>sig_store := store_inbox_payload (sg_redis E) (hex_encode i) payl (sig_store st)\<rparr>)"
proof -
  have "is_list_key (view (sig_store st) (inbox_key (hex_encode i)))"
    using assms(2) by (simp add: st_inv_def sig_inv_def)
  moreover have "redis_ok (sg_redis E) view" using assms(1) by (simp add: sig_ok_def)
  ultimately show ?thesis
    using assms(2) by (simp add: st_inv_def store_inbox_view [of "sg_redis E" view] sig_inv_inbox del: take_Suc_Cons)
qed

lemma st_inv_try_forward:
  assumes "sig_ok E view" "st_inv E view st"
  shows "st_inv E view (fst (try_forward_or_inbox E p payl st))"
proof (cases "view (sig_store st) (peer_session_key p)")
  case None
  have R: "redis_ok (sg_redis E) view" and J: "json_ok (sg_json E)" using assms(1) by (simp_all add: sig_ok_def)
  show ?thesis
  proof (cases "view (sig_store st) (peer_prekeys_key p)")
    case (Some x)
    then obtain b where b: "x = RStr (to_text (sg_json E) (prekey_bundle_json b))"
        "pb_inbox_id b = None \<or> (\<exists>i. pb_inbox_id b = Some (hex_encode i))"
      using assms(2) unfolding st_inv_def sig_inv_def by blast
    then show ?thesis
      using None Some assms st_inv_store_inbox
      by (auto simp: try_forward_or_inbox_def redis_okD [OF R] read_json_def json_okD [OF J])
  qed (use None assms in \<open>simp add: try_forward_or_inbox_def redis_okD [OF R]\<close>)
next
  case (Some x)
  have R: "redis_ok (sg_redis E) view" using assms(1) by (simp add: sig_ok_def)
  from Some obtain ps where "x = RStr (to_text (sg_json E) (peer_session_json ps))"
    using assms(2) unfolding st_inv_def sig_inv_def by blast
  with Some obtain tx where "r_get (sg_redis E) (sig_store st) (peer_session_key p) = Some tx"
    by (simp add: redis_okD [OF R])
  then have "sig_store (fst (try_forward_or_inbox E p payl st)) = sig_store st"
    by (auto simp: try_forward_or_inbox_def split: result.split prod.split)
  then show ?thesis using assms(2) by (simp add: st_inv_def)
qed

lemma st_inv_setex:
  assumes "sig_ok E view" "st_inv E view st" "sig_inv (sg_json E) ((view (sig_store st))(k := Some (RStr x)))"
  shows "st_inv E view (st\<lparr>sig_store := r_setex (sg_redis E) (sig_store st) k t x\<rparr>)"
proof -
  have "redis_ok (sg_redis E) view" using assms(1) by (simp add: sig_ok_def)
  then show ?thesis using assms(3) by (simp add: st_inv_def redis_okD(3) [of "sg_redis E" view])
qed

lemma handle_session_register_inv:
  "sig_ok E view \<Longrightarrow> st_inv E view st \<Longrightarrow> st_inv E view (fst (handle_session_register E data st))"
  by (auto simp: handle_session_register_def Let_def sig_ok_def st_inv_def split: result.split
      intro!: register_script_inv(1) [OF _ _ _ refl refl])

lemma handle_session_deregister_inv:
  "sig_ok E view \<Longrightarrow> st_inv E view st \<Longrightarrow> st_inv E view (fst (handle_session_deregister E data st))"
  by (auto simp: handle_session_deregister_def sig_ok_def st_inv_def dest: deregister_script_inv
      split: result.split option.split)

lemma handle_request_peer_inv:
  "st_inv E view st \<Longrightarrow> st_inv E view (fst (handle_request_peer E data st))"
  unfolding handle_request_peer_def Let_def
  by (auto split: result.split option.split Message.split prod.split
      dest: sig_publish_store(2) intro: st_inv_same_store)

lemma handle_ice_candidate_inv:
  assumes "sig_ok E view" "st_inv E view st"
  shows "st_inv E view (fst (handle_ice_candidate E data st))"
proof -
  have R: "redis_ok (sg_redis E) view" using assms(1) by (simp add: sig_ok_def)
  have "is_list_key (view (sig_store st) (ice_key a b))" for a b
    using assms(2) by (simp add: st_inv_def sig_inv_def)
  then have "st_inv E view (st\<lparr>sig_store := r_expire (sg_redis E) (r_rpush (sg_redis E) (sig_store st) (ice_key a b) c) k t\<rparr>)" for a b c k t
    using assms(2) by (simp add: st_inv_def redis_okD [OF R] sig_inv_ice)
  then show ?thesis
    using assms(2) by (auto simp: handle_ice_candidate_def Let_def split: result.split Message.split)
qed

lemma handle_simple_inv:
  assumes "st_inv E view st"
  shows "st_inv E view (fst (handle_offer E data st))" "st_inv E view (fst (handle_answer E data st))"
    "st_inv E view (fst (handle_get_prekeys E data st))" "st_inv E view (fst (handle_file_forward E data st))"
    "st_inv E view (fst (handle_transport_bootstrap E C sr data st))"
  using assms
  by (auto simp: handle_offer_def handle_answer_def handle_get_prekeys_def handle_file_forward_def
      handle_transport_bootstrap_def Let_def split: result.split Message.split option.split)

lemma handle_upload_prekeys_inv:
  assumes "sig_ok E view" "st_inv E view st"
  shows "st_inv E view (fst (handle_upload_prekeys E data st))"
proof -
  have "st_inv E view (st\<lparr>sig_store := r_setex (sg_redis E) (sig_store st) (peer_prekeys_key p) t
      (to_text (sg_json E) (prekey_bundle_json b))\<rparr>)"
    if "pb_inbox_id b = None \<or> (\<exists>i. pb_inbox_id b = Some (hex_encode i))" for p t b
    using st_inv_setex [OF assms] sig_inv_prekeys [OF assms(2) [unfolded st_inv_def] that] by simp
  then show ?thesis
    using assms(2) by (simp add: handle_upload_prekeys_def Let_def split: result.split prod.split Message.split)
qed

lemma handle_chat_send_inv:
  assumes "sig_ok E view" "st_inv E view st"
  shows "st_inv E view (fst (handle_chat_send E data st))"
proof -
  have "try_forward_or_inbox E p d st = (st1, r) \<Longrightarrow> st_inv E view st1" for p d st1 r
    using st_inv_try_forward [OF assms, of p d] by simp
  then show ?thesis
    using assms(2) by (auto simp: handle_chat_send_def split: result.split prod.split Message.split)
qed

lemma handle_create_link_inv:
  assumes "sig_ok E view" "st_inv E view st"
  shows "st_inv E view (fst (handle_create_link E l data st))"
proof -
  have "st_inv E view (st\<lparr>sig_store := r_setex (sg_redis E) (sig_store st) (link_key l) t x\<rparr>)" for t x
    using st_inv_setex [OF assms] sig_inv_link [OF assms(2) [unfolded st_inv_def]] by simp
  then show ?thesis
    using assms(2) by (simp add: handle_create_link_def Let_def split: result.split prod.split)
qed

lemma handle_inbox_store_inv:
  assumes "sig_ok E view" "st_inv E view st"
  shows "st_inv E view (fst (handle_inbox_store E data st))"
  using assms by (auto simp: handle_inbox_store_def st_inv_store_inbox split: result.split Message.split)
lemma fetch_script_view:
  assumes "redis_ok R view" "sig_inv J (view s)"
    "fetch_script R J (inbox_key (hex_encode i)) (claim_key t) dl (hex_encode i) s = (s', msgs)"
  shows "msgs = list_value (view s (inbox_key (hex_encode i)))"
    and "view s' = (if msgs = [] then (view s)(inbox_key (hex_encode i) := None)
      else (view s)(claim_key t := Some (RStr (to_text J (claim_json (hex_encode i) msgs))),
             claims_index := Some (RZset ((claim_key t, dl) # filter (\<lambda>z. fst z \<noteq> claim_key t) (zset_value (view s claims_index)))),
             inbox_key (hex_encode i) := None))"
proof -
  have k: "is_list_key (view s (inbox_key (hex_encode i)))" "is_zset_key (view s claims_index)"
    using assms(2) by (simp_all add: sig_inv_def)
  note R = redis_okD [OF assms(1)]
  show m: "msgs = list_value (view s (inbox_key (hex_encode i)))"
    using assms(3) k by (auto simp: fetch_script_def Let_def R)
  have "is_zset_key (view (r_set R s (claim_key t) x) claims_index)" for x
    using k by (simp add: R)
  then show "view s' = (if msgs = [] then (view s)(inbox_key (hex_encode i) := None)
      else (view s)(claim_key t := Some (RStr (to_text J (claim_json (hex_encode i) msgs))),
             claims_index := Some (RZset ((claim_key t, dl) # filter (\<lambda>z. fst z \<noteq> claim_key t) (zset_value (view s claims_index)))),
             inbox_key (hex_encode i) := None))"
    using assms(3) k(1) m by (auto simp: fetch_script_def Let_def R)
qed

lemma fetch_script_inv:
  assumes "redis_ok R view" "sig_inv J (view s)"
    "fetch_script R J (inbox_key (hex_encode i)) (claim_key t) dl (hex_encode i) s = (s', msgs)"
  shows "sig_inv J (view s')"
proof (cases "msgs = []")
  case True
  then show ?thesis
    unfolding fetch_script_view(2) [OF assms] using sig_inv_inbox [OF assms(2)] by simp
next
  case False
  let ?v = "(view s)(claim_key t := Some (RStr (to_text J (claim_json (hex_encode i) msgs))))"
  have "sig_inv J ?v" by (rule sig_inv_claim [OF assms(2)])
  from sig_inv_index_add [OF this] show ?thesis
    unfolding fetch_script_view(2) [OF assms] using False by (simp add: sig_inv_inbox)
qed

lemma handle_inbox_fetch_inv:
  assumes "sig_ok E view" "st_inv E view st"
  shows "st_inv E view (fst (handle_inbox_fetch E C sr now reply data st))"
proof -
  have "fetch_script (sg_redis E) (sg_json E) (inbox_key (hex_encode i)) (claim_key t) dl (hex_encode i) (sig_store st) = (s', ms)
      \<Longrightarrow> st_inv E view (st\<lparr>sig_store := s'\<rparr>)" for i t dl s' ms
    using fetch_script_inv [of "sg_redis E" view "sg_json E"] assms by (simp add: sig_ok_def st_inv_def)
  then show ?thesis
    using assms(2) by (auto simp: handle_inbox_fetch_def Let_def split: result.split prod.split Message.split)
qed

lemma claim_removed_view:
  assumes "redis_ok R view" "is_zset_key (view s claims_index)"
  shows "view (r_zrem R (r_del R s (claim_key t)) claims_index (claim_key t))
    = (view s)(claim_key t := None, claims_index := zset_or_none (filter (\<lambda>z. fst z \<noteq> claim_key t) (zset_value (view s claims_index))))"
proof -
  have "is_zset_key (view (r_del R s (claim_key t)) claims_index)" using assms by (simp add: redis_okD [OF assms(1)])
  then show ?thesis by (simp add: redis_okD [OF assms(1)])
qed

lemma claim_removed_inv:
  assumes "redis_ok R view" "sig_inv J (view s)"
  shows "sig_inv J (view (r_zrem R (r_del R s (claim_key t)) claims_index (claim_key t)))"
proof -
  have "is_zset_key (view s claims_index)" using assms(2) by (simp add: sig_inv_def)
  from claim_removed_view [OF assms(1) this] sig_inv_index_del [OF sig_inv_claim_del [OF assms(2)]]
  show ?thesis by simp
qed

lemma handle_inbox_ack_inv:
  assumes "sig_ok E view" "st_inv E view st"
  shows "st_inv E view (fst (handle_inbox_ack E C sr now reply data st))"
proof -
  have "st_inv E view (st\<lparr>sig_store := r_zrem (sg_redis E) (r_del (sg_redis E) (sig_store st) (claim_key t)) claims_index (claim_key t)\<rparr>)" for t
    using claim_removed_inv [of "sg_redis E" view "sg_json E"] assms by (simp add: sig_ok_def st_inv_def)
  then show ?thesis
    using assms(2) by (simp add: handle_inbox_ack_def Let_def split: result.split prod.split Message.split)
qed

lemma push_all_view:
  assumes "redis_ok R view" "is_list_key (view s k)" "ms \<noteq> []"
  shows "view (fold (\<lambda>m s. r_lpush R s k m) (rev ms) s) = (view s)(k := Some (RList (ms @ list_value (view s k))))"
  using assms(3)
proof (induction ms)
  case (Cons m ms)
  then show ?case
    using assms(2) by (cases "ms = []") (simp_all add: redis_okD [OF assms(1)] fun_eq_iff)
qed simp

lemma recover_script_view:
  assumes "redis_ok R view" "json_ok J" "sig_inv J (view s)"
    "view s (claim_key t) = Some (RStr (to_text J (claim_json (hex_encode i) ms)))" "ms \<noteq> []"
  shows "\<exists>s'. recover_script R J (claim_key t) s = Ok s' \<and>
    view s' = (view s)(inbox_key (hex_encode i) := Some (RList (take 100 (ms @ list_value (view s (inbox_key (hex_encode i)))))),
      claim_key t := None,
      claims_index := zset_or_none (filter (\<lambda>z. fst z \<noteq> claim_key t) (zset_value (view s claims_index))))"
proof -
  let ?k = "inbox_key (hex_encode i)"
  have k: "is_list_key (view s ?k)" "is_zset_key (view s claims_index)"
    using assms(3) by (simp_all add: sig_inv_def)
  note R = redis_okD [OF assms(1)]
  let ?s1 = "fold (\<lambda>m s. r_lpush R s ?k m) (rev ms) s"
  let ?s3 = "r_expire R (r_ltrim R ?s1 ?k 0 99) ?k INBOX_TTL_SECS"
  have v1: "view ?s1 = (view s)(?k := Some (RList (ms @ list_value (view s ?k))))"
    by (rule push_all_view [OF assms(1) k(1) assms(5)])
  have "is_list_key (view ?s1 ?k)" by (simp add: v1)
  then have v3: "view ?s3 = (view s)(?k := Some (RList (take 100 (ms @ list_value (view s ?k)))))"
    using assms(5) by (simp add: R(8,9) v1 list_or_none_def)
  have "is_zset_key (view ?s3 claims_index)" using k(2) by (simp add: v3)
  from claim_removed_view [OF assms(1) this, of t] show ?thesis
    using assms(4)
    by (simp add: recover_script_def R(1) json_okD [OF assms(2)] Let_def INBOX_MAX_MESSAGES_def v3 fun_eq_iff)
qed

lemma recover_script_inv:
  assumes "redis_ok R view" "json_ok J" "sig_inv J (view s)" "recover_script R J (claim_key t) s = Ok s'"
  shows "sig_inv J (view s')"
proof (cases "view s (claim_key t)")
  case None
  then have "s' = r_zrem R s claims_index (claim_key t)"
    using assms(4) by (simp add: recover_script_def redis_okD [OF assms(1)])
  moreover have "is_zset_key (view s claims_index)" using assms(3) by (simp add: sig_inv_def)
  ultimately show ?thesis
    using sig_inv_index_del [OF assms(3)] by (simp add: redis_okD [OF assms(1)])
next
  case (Some x)
  then obtain i ms where x: "view s (claim_key t) = Some (RStr (to_text J (claim_json (hex_encode i) ms)))"
    using assms(3) unfolding sig_inv_def by blast
  show ?thesis
  proof (cases "ms = []")
    case False
    from recover_script_view [OF assms(1-3) x False] assms(4) show ?thesis
      using sig_inv_index_del [OF sig_inv_claim_del [OF sig_inv_inbox [OF assms(3), of "Some (RList _)"]]]
      by (auto simp: fun_upd_def [symmetric])
  next
    case True
    have k: "is_list_key (view s (inbox_key (hex_encode i)))" using assms(3) by (simp add: sig_inv_def)
    let ?s2 = "r_expire R (r_ltrim R s (inbox_key (hex_encode i)) 0 99) (inbox_key (hex_encode i)) INBOX_TTL_SECS"
    have "sig_inv J (view ?s2)"
      using sig_inv_inbox [OF assms(3)] k by (simp add: redis_okD(8,9) [OF assms(1)] list_or_none_def)
    from claim_removed_inv [OF assms(1) this, of t] show ?thesis
      using assms(4) x True
      by (auto simp add: recover_script_def redis_okD(1) [OF assms(1)] json_okD [OF assms(2)] Let_def INBOX_MAX_MESSAGES_def)
  qed
qed

lemma recover_keys_inv:
  assumes "redis_ok R view" "json_ok J"
  shows "sig_inv J (view s) \<Longrightarrow> (\<forall>k\<in>set ks. \<exists>t. k = claim_key t) \<Longrightarrow> sig_inv J (view (fst (recover_keys R J ks s)))"
proof (induction ks arbitrary: s)
  case (Cons k ks)
  then obtain t where "k = claim_key t" by auto
  then show ?case
    using Cons recover_script_inv [OF assms Cons.prems(1)] by (auto split: result.split)
qed simp

lemma recover_round_inv:
  assumes "sig_ok E view" "st_inv E view st"
  shows "st_inv E view (fst (recover_round E now st))"
proof -
  have R: "redis_ok (sg_redis E) view" and J: "json_ok (sg_json E)" using assms(1) by (simp_all add: sig_ok_def)
  have inv: "sig_inv (sg_json E) (view (sig_store st))" using assms(2) by (simp add: st_inv_def)
  have z: "is_zset_key (view (sig_store st) claims_index)"
      "\<forall>z\<in>set (zset_value (view (sig_store st) claims_index)). \<exists>t. fst z = claim_key t"
    using inv by (simp_all add: sig_inv_def)
  have "\<forall>k\<in>set (r_zrangebyscore (sg_redis E) (sig_store st) claims_index n). \<exists>t. k = claim_key t" for n
    using z(2) redis_okD(12) [OF R z(1)] by auto
  from recover_keys_inv [OF R J inv this] show ?thesis
    by (simp add: recover_round_def Let_def st_inv_def split: prod.split) (metis fst_conv)
qed

lemma handle_message_inv:
  assumes "sig_ok E view" "st_inv E view st"
  shows "st_inv E view (fst (handle_message E C sr inp subject data st))"
  using assms
  unfolding handle_message_def
  by (simp add: handle_session_register_inv handle_session_deregister_inv handle_request_peer_inv
      handle_ice_candidate_inv handle_simple_inv handle_upload_prekeys_inv handle_chat_send_inv
      handle_create_link_inv handle_inbox_store_inv handle_inbox_fetch_inv handle_inbox_ack_inv)

section \<open>Effects of the handlers\<close>

definition bus_msg :: "'r sig_env \<Rightarrow> u64 \<Rightarrow> Message \<Rightarrow> bytes" where
  "bus_msg E sid m = to_text (sg_json E) (envelope_json sid (serialize m))"

lemma open_bus_msg:
  "sig_ok E view \<Longrightarrow> msg_wf m \<Longrightarrow> open_envelope E (bus_msg E sid m) = Ok (sid, serialize m, m)"
  using dispatch_serialize [of m "[]"]
  by (simp add: open_envelope_def bus_msg_def read_json_def sig_ok_def json_okD)

definition register_msg :: "'r sig_env \<Rightarrow> u64 \<Rightarrow> bytes \<Rightarrow> bytes" where
  "register_msg E sid p =
    to_text (sg_json E) (JObj [(ascii ''session_id'', of_u64 sid), (ascii ''peer_id'', JStr (hex_encode p))])"

definition deregister_msg :: "'r sig_env \<Rightarrow> u64 \<Rightarrow> bytes" where
  "deregister_msg E sid = to_text (sg_json E) (JObj [(ascii ''session_id'', of_u64 sid)])"

lemma forward_to_peer_session:
  assumes "sig_ok E view" "view (sig_store st) (peer_session_key p) = Some (RStr (to_text (sg_json E) (peer_session_json ps)))"
  shows "forward_to_peer E p d st = sig_publish E (session_subject (ps_session_id ps)) d st"
proof -
  have R: "redis_ok (sg_redis E) view" and J: "json_ok (sg_json E)" using assms(1) by (simp_all add: sig_ok_def)
  show ?thesis by (simp add: forward_to_peer_def redis_okD [OF R] assms(2) read_json_def json_okD [OF J])
qed

lemma get_peer_id_view:
  "sig_ok E view \<Longrightarrow> get_peer_id_for_session E sid st = Ok p \<longleftrightarrow>
     str_value (view (sig_store st) (session_peer_key sid)) = Some p"
  by (cases "str_value (view (sig_store st) (session_peer_key sid))")
     (simp_all add: get_peer_id_for_session_def sig_ok_def redis_okD(1) [of "sg_redis E" view])

lemma register_effect:
  assumes "sig_ok E view" "st_inv E view st" "handle_session_register E (register_msg E sid p) st = (st', r)"
  shows "r = Ok ()" "st_inv E view st'" "sig_sent st' = sig_sent st"
    and "view (sig_store st') (session_peer_key sid) = Some (RStr (hex_encode p))"
    and "view (sig_store st') (peer_session_key (hex_encode p))
      = Some (RStr (to_text (sg_json E) (peer_session_json \<lparr>ps_gateway_node = sg_node E, ps_session_id = sid\<rparr>)))"
proof -
  have R: "redis_ok (sg_redis E) view" and J: "json_ok (sg_json E)" using assms(1) by (simp_all add: sig_ok_def)
  have "read_json E (register_msg E sid p) register_msg_of = Ok (sid, hex_encode p)"
    by (simp add: read_json_def register_msg_def json_okD [OF J] register_msg_of_def json_field_def ascii_def)
  then show "r = Ok ()" "st_inv E view st'" "sig_sent st' = sig_sent st"
      "view (sig_store st') (session_peer_key sid) = Some (RStr (hex_encode p))"
      "view (sig_store st') (peer_session_key (hex_encode p))
      = Some (RStr (to_text (sg_json E) (peer_session_json \<lparr>ps_gateway_node = sg_node E, ps_session_id = sid\<rparr>)))"
    using assms(3) register_script_inv [OF R J assms(2) [unfolded st_inv_def] refl refl]
    by (auto simp: handle_session_register_def Let_def st_inv_def)
qed

lemma deregister_other_effect:
  assumes "sig_ok E view" "st_inv E view st" "sid \<noteq> sid'"
    and "view (sig_store st) (peer_session_key p)
      = Some (RStr (to_text (sg_json E) (peer_session_json \<lparr>ps_gateway_node = n, ps_session_id = sid\<rparr>)))"
  shows "view (sig_store (fst (handle_session_deregister E (deregister_msg E sid') st))) (peer_session_key p)
      = view (sig_store st) (peer_session_key p)"
proof -
  have R: "redis_ok (sg_redis E) view" and J: "json_ok (sg_json E)" using assms(1) by (simp_all add: sig_ok_def)
  have rd: "read_json E (deregister_msg E sid') (\<lambda>j. json_field j ''session_id'' as_u64) = Ok sid'"
    by (simp add: read_json_def deregister_msg_def json_okD [OF J] json_field_def)
  show ?thesis
  proof (cases "str_value (view (sig_store st) (session_peer_key sid'))")
    case None
    then show ?thesis by (simp add: handle_session_deregister_def rd redis_okD [OF R])
  next
    case (Some q)
    then obtain m where q: "view (sig_store st) (peer_session_key q)
        = Some (RStr (to_text (sg_json E) (peer_session_json \<lparr>ps_gateway_node = m, ps_session_id = sid'\<rparr>)))"
      using assms(2) unfolding st_inv_def sig_inv_def by blast
    then have "q \<noteq> p" using assms(3,4) by (auto simp: to_text_inject [OF J])
    then show ?thesis
      using Some q
      by (simp add: handle_session_deregister_def rd redis_okD [OF R] deregister_script_def json_okD [OF J])
  qed
qed

lemma inbox_fetch_effect:
  fixes i st
  assumes "sig_ok E view" "st_inv E view st" "msg_wf (InboxFetch i)"
  defines "v \<equiv> view (sig_store st)"
  defines "ms \<equiv> list_value (v (inbox_key (hex_encode i)))"
  shows "view (sig_store (fst (handle_inbox_fetch E C sr t reply (bus_msg E sid (InboxFetch i)) st)))
    = (if ms = [] then v(inbox_key (hex_encode i) := None)
       else v(claim_key (generate_claim_token C sr i t) := Some (RStr (to_text (sg_json E) (claim_json (hex_encode i) ms))),
              claims_index := Some (RZset ((claim_key (generate_claim_token C sr i t), sint (t + INBOX_CLAIM_TTL_SECS))
                 # filter (\<lambda>z. fst z \<noteq> claim_key (generate_claim_token C sr i t)) (zset_value (v claims_index)))),
              inbox_key (hex_encode i) := None))"
    and "sg_pub_ok E (reply_subject reply sid) \<Longrightarrow>
      sig_sent (fst (handle_inbox_fetch E C sr t reply (bus_msg E sid (InboxFetch i)) st))
      = sig_sent st @ [(reply_subject reply sid,
          serialize (InboxMessages (inbox_blob ms) (word_of_nat (length ms))) @ generate_claim_token C sr i t
            @ sign_inbox_response C sr (inbox_blob ms) (word_of_nat (length ms)) i t)]"
proof -
  have R: "redis_ok (sg_redis E) view" using assms(1) by (simp add: sig_ok_def)
  let ?tok = "generate_claim_token C sr i t"
  obtain s' msgs where f: "fetch_script (sg_redis E) (sg_json E) (inbox_key (hex_encode i)) (claim_key ?tok)
      (sint (t + INBOX_CLAIM_TTL_SECS)) (hex_encode i) (sig_store st) = (s', msgs)" by force
  note fv = fetch_script_view [OF R assms(2) [unfolded st_inv_def] f]
  note o = open_bus_msg [OF assms(1,3), of sid]
  have ms: "msgs = ms" using fv(1) by (simp add: ms_def v_def)
  have p: "handle_inbox_fetch E C sr t reply (bus_msg E sid (InboxFetch i)) st
      = sig_publish E (reply_subject reply sid)
          (serialize (InboxMessages (inbox_blob msgs) (word_of_nat (length msgs))) @ ?tok
            @ sign_inbox_response C sr (inbox_blob msgs) (word_of_nat (length msgs)) i t) (st\<lparr>sig_store := s'\<rparr>)"
    by (simp add: handle_inbox_fetch_def o f Let_def)
  have st1: "sig_store (fst (handle_inbox_fetch E C sr t reply (bus_msg E sid (InboxFetch i)) st)) = s'"
    by (simp add: handle_inbox_fetch_def o f Let_def)
  show "view (sig_store (fst (handle_inbox_fetch E C sr t reply (bus_msg E sid (InboxFetch i)) st)))
    = (if ms = [] then v(inbox_key (hex_encode i) := None)
       else v(claim_key ?tok := Some (RStr (to_text (sg_json E) (claim_json (hex_encode i) ms))),
              claims_index := Some (RZset ((claim_key ?tok, sint (t + INBOX_CLAIM_TTL_SECS))
                 # filter (\<lambda>z. fst z \<noteq> claim_key ?tok) (zset_value (v claims_index)))),
              inbox_key (hex_encode i) := None))"
    unfolding st1 fv(2) ms v_def by (rule refl)
  show "sg_pub_ok E (reply_subject reply sid) \<Longrightarrow>
      sig_sent (fst (handle_inbox_fetch E C sr t reply (bus_msg E sid (InboxFetch i)) st))
      = sig_sent st @ [(reply_subject reply sid,
          serialize (InboxMessages (inbox_blob ms) (word_of_nat (length ms))) @ ?tok
            @ sign_inbox_response C sr (inbox_blob ms) (word_of_nat (length ms)) i t)]"
    unfolding p [unfolded ms] sig_publish_def by simp
qed

lemma inbox_store_effect:
  assumes "sig_ok E view" "st_inv E view st" "msg_wf (InboxStore i c)"
  shows "view (sig_store (fst (handle_inbox_store E (bus_msg E sid (InboxStore i c)) st)))
    = (view (sig_store st))(inbox_key (hex_encode i) :=
        Some (RList (take 100 (hex_encode c # list_value (view (sig_store st) (inbox_key (hex_encode i)))))))"
proof -
  have R: "redis_ok (sg_redis E) view" using assms(1) by (simp add: sig_ok_def)
  have "is_list_key (view (sig_store st) (inbox_key (hex_encode i)))"
    using assms(2) by (simp add: st_inv_def sig_inv_def)
  from store_inbox_view [OF R this] show ?thesis
    by (simp add: handle_inbox_store_def open_bus_msg [OF assms(1,3)])
qed

section \<open>Properties\<close>

text \<open>Everything that happens to the store: messages from the bus, on any subject and with any content, and rounds of
  the recovery task.\<close>

inductive sig_reach ::
  "'r sig_env \<Rightarrow> crypto \<Rightarrow> ServerSigner \<Rightarrow> ('r \<Rightarrow> rstring \<Rightarrow> rvalue option) \<Rightarrow> 'r sig_state \<Rightarrow> bool"
  for E C sr view where
  sig_start: "view (sig_store st) = (\<lambda>_. None) \<Longrightarrow> sig_reach E C sr view st"
| sig_msg: "sig_reach E C sr view st \<Longrightarrow> sig_reach E C sr view (fst (handle_message E C sr inp subject data st))"
| sig_recover: "sig_reach E C sr view st \<Longrightarrow> sig_reach E C sr view (fst (recover_round E now st))"

lemma st_inv_empty: "view (sig_store st) = (\<lambda>_. None) \<Longrightarrow> st_inv E view st"
  by (simp add: st_inv_def sig_inv_empty)

lemma sig_reach_inv: "sig_reach E C sr view st \<Longrightarrow> sig_ok E view \<Longrightarrow> st_inv E view st"
  by (induction rule: sig_reach.induct)
     (auto intro: handle_message_inv recover_round_inv st_inv_empty)

definition demo_sig :: "(rstring \<Rightarrow> rvalue option) sig_env" where
  "demo_sig = \<lparr>sg_redis = demo_redis, sg_json = demo_json, sg_node = ascii ''gateway-0'', sg_pub_ok = (\<lambda>_. True)\<rparr>"

definition demo_signer :: ServerSigner where
  "demo_signer = \<lparr>signing_seed = [1], hmac_secret = [2]\<rparr>"

definition empty_state :: "(rstring \<Rightarrow> rvalue option) sig_state" where
  "empty_state = \<lparr>sig_store = (\<lambda>_. None), sig_sent = []\<rparr>"

lemma demo_sig_ok [simp]: "sig_ok demo_sig (\<lambda>s. s)"
  by (simp add: sig_ok_def demo_sig_def)

lemma empty_state_inv [simp]: "st_inv E (\<lambda>s. s) empty_state"
  by (simp add: st_inv_def empty_state_def sig_inv_empty)

text \<open>C5. In every state of the signaling service that any messages and recovery rounds can produce, the two indices
  agree: if a session is attributed to a peer, then messages for that peer are published to that very session.\<close>

theorem signaling_routes_match_identities:
  assumes "sig_ok E view" "sig_reach E C sr view st" "get_peer_id_for_session E sid st = Ok p"
  shows "forward_to_peer E p data st = sig_publish E (session_subject sid) data st"
proof -
  obtain n where "view (sig_store st) (peer_session_key p)
      = Some (RStr (to_text (sg_json E) (peer_session_json \<lparr>ps_gateway_node = n, ps_session_id = sid\<rparr>)))"
    using sig_reach_inv [OF assms(2,1)] assms(3)
    unfolding st_inv_def sig_inv_def get_peer_id_view [OF assms(1)] by blast
  from forward_to_peer_session [OF assms(1) this] show ?thesis by simp
qed

theorem signaling_routes_match_identities_witness:
  "let st = fst (handle_message demo_sig demo_crypto demo_signer \<lparr>in_now = 0, in_reply = None, in_link = []\<rparr>
                   ''signaling.session.register'' (register_msg demo_sig 7 [1, 2]) empty_state)
   in forward_to_peer demo_sig (hex_encode [1, 2]) [9] st = sig_publish demo_sig (session_subject 7) [9] st"
proof -
  let ?st = "fst (handle_message demo_sig demo_crypto demo_signer \<lparr>in_now = 0, in_reply = None, in_link = []\<rparr>
                   ''signaling.session.register'' (register_msg demo_sig 7 [1, 2]) empty_state)"
  have r: "sig_reach demo_sig demo_crypto demo_signer (\<lambda>s. s) ?st"
    by (rule sig_msg, rule sig_start) (simp add: empty_state_def)
  have "get_peer_id_for_session demo_sig 7 ?st = Ok (hex_encode [1, 2])"
    using register_effect(4) [OF demo_sig_ok empty_state_inv surjective_pairing, where sid = 7 and p = "[1, 2]"]
    unfolding get_peer_id_view [OF demo_sig_ok] by (simp add: handle_message_def)
  from signaling_routes_match_identities [OF demo_sig_ok r this] show ?thesis by (simp add: Let_def)
qed

text \<open>Reconnection: when a peer has registered a new session, the deregistration of any other session, however late
  it arrives, leaves the route to the new session in place.\<close>

theorem late_deregistration_harmless:
  assumes "sig_ok E view" "st_inv E view st" "new \<noteq> old"
    and "handle_session_register E (register_msg E new p) st = (st1, r1)"
    and "handle_session_deregister E (deregister_msg E old) st1 = (st2, r2)"
  shows "forward_to_peer E (hex_encode p) data st2 = sig_publish E (session_subject new) data st2"
proof -
  note reg = register_effect [OF assms(1,2,4)]
  from deregister_other_effect [OF assms(1) reg(2) assms(3) reg(5)] assms(5) reg(5)
  have "view (sig_store st2) (peer_session_key (hex_encode p))
      = Some (RStr (to_text (sg_json E) (peer_session_json \<lparr>ps_gateway_node = sg_node E, ps_session_id = new\<rparr>)))" by simp
  from forward_to_peer_session [OF assms(1) this] show ?thesis by simp
qed

theorem late_deregistration_harmless_witness:
  "let st0 = fst (handle_session_register demo_sig (register_msg demo_sig 3 [5]) empty_state);
       st1 = fst (handle_session_register demo_sig (register_msg demo_sig 4 [5]) st0);
       st2 = fst (handle_session_deregister demo_sig (deregister_msg demo_sig 3) st1)
   in forward_to_peer demo_sig (hex_encode [5]) [9] st2 = sig_publish demo_sig (session_subject 4) [9] st2"
proof -
  have "st_inv demo_sig (\<lambda>s. s) (fst (handle_session_register demo_sig (register_msg demo_sig 3 [5]) empty_state))"
    by (rule register_effect(2) [OF demo_sig_ok empty_state_inv surjective_pairing])
  from late_deregistration_harmless [OF demo_sig_ok this _ surjective_pairing surjective_pairing,
      where new = 4 and old = 3 and p = "[5]" and data = "[9]"]
  show ?thesis by (simp add: Let_def)
qed

lemma claim_token_length: "crypto_ok C \<Longrightarrow> length (generate_claim_token C sr i t) = 40"
  by (simp add: generate_claim_token_def hmac_length)

lemma verify_own_token:
  assumes "crypto_ok C" "t \<le> now" "unat now \<le> unat t + unat age" "unat now + 60 < 2 ^ 64"
  shows "verify_claim_token C sr now i (generate_claim_token C sr i t) age"
proof -
  have ts: "(from_le (slice_of 0 8 (generate_claim_token C sr i t)) :: u64) = t"
    by (simp add: generate_claim_token_def slice_simps u64le.dec_enc)
  have "unat (now - t) = unat now - unat t" using assms(2) by (rule unat_sub [unfolded word_le_nat_alt [symmetric]])
  then have "\<not> age < now - t" using assms(3) by (simp add: word_less_nat_alt)
  moreover have "unat (now + 60) = unat now + 60" using assms(4) by (simp add: unat_word_ariths)
  then have "\<not> now + 60 < t" using assms(2) by (simp add: word_less_nat_alt word_le_nat_alt)
  ultimately show ?thesis
    using assms(2) by (simp add: verify_claim_token_def claim_token_length [OF assms(1)] ts constant_time_eq_iff)
qed

lemma sint_small:
  fixes a :: u64
  assumes "unat a < 2 ^ 63"
  shows "sint a = int (unat a)"
proof -
  have "int (unat a) < int (2 ^ 63)" using assms by (simp only: of_nat_less_iff)
  then have "uint a < 2 ^ 63" by simp
  moreover have "- (2 ^ 63) \<le> uint a" by (rule order_trans [of _ 0]) simp_all
  ultimately have "signed_take_bit 63 (uint a) = uint a"
    by (simp only: signed_take_bit_int_eq_self_iff)
  then show ?thesis by (simp add: sint_uint)
qed

lemma set_singleton_list: "set xs = {a} \<Longrightarrow> distinct xs \<Longrightarrow> xs = [a]"
  by (cases xs; cases "tl xs") auto

lemma recover_single_claim:
  fixes st :: "'r sig_state"
  assumes "sig_ok E view" "st_inv E view st"
    and "view (sig_store st) claims_index = Some (RZset [(claim_key t, dl)])"
    and "view (sig_store st) (claim_key t) = Some (RStr (to_text (sg_json E) (claim_json (hex_encode i) ms)))"
    and "ms \<noteq> []" "dl \<le> sint now"
  shows "view (sig_store (fst (recover_round E now st)))
    = (view (sig_store st))(inbox_key (hex_encode i) :=
         Some (RList (take 100 (ms @ list_value (view (sig_store st) (inbox_key (hex_encode i)))))),
       claim_key t := None, claims_index := None)"
proof -
  have R: "redis_ok (sg_redis E) view" and J: "json_ok (sg_json E)" using assms(1) by (simp_all add: sig_ok_def)
  let ?keys = "r_zrangebyscore (sg_redis E) (sig_store st) claims_index (sint now)"
  have z: "is_zset_key (view (sig_store st) claims_index)" by (simp add: assms(3))
  have "set ?keys = {claim_key t}" "distinct ?keys"
    using redis_okD(12,13) [OF R z, of "sint now"] assms(6) by (auto simp: assms(3))
  then have keys: "?keys = [claim_key t]" by (rule set_singleton_list)
  from recover_script_view [OF R J assms(2) [unfolded st_inv_def] assms(4,5)] obtain s' where
      s': "recover_script (sg_redis E) (sg_json E) (claim_key t) (sig_store st) = Ok s'"
      "view s' = (view (sig_store st))(inbox_key (hex_encode i) :=
         Some (RList (take 100 (ms @ list_value (view (sig_store st) (inbox_key (hex_encode i)))))),
       claim_key t := None, claims_index := None)"
    by (auto simp: assms(3) zset_or_none_def)
  have "sig_store (fst (recover_round E now st)) = s'"
    by (simp add: recover_round_def keys s'(1) Let_def)
  then show ?thesis using s'(2) by simp
qed

lemma recover_no_claims:
  assumes "sig_ok E view" "view (sig_store st) claims_index = None"
  shows "sig_store (fst (recover_round E now st)) = sig_store st"
proof -
  have R: "redis_ok (sg_redis E) view" using assms(1) by (simp add: sig_ok_def)
  have "set (r_zrangebyscore (sg_redis E) (sig_store st) claims_index (sint now)) = {}"
    using redis_okD(12) [OF R, of "sig_store st" claims_index] assms(2) by simp
  then show ?thesis by (simp add: recover_round_def Let_def)
qed
definition inbox_of :: "('r \<Rightarrow> rstring \<Rightarrow> rvalue option) \<Rightarrow> 'r sig_state \<Rightarrow> bytes \<Rightarrow> rstring list" where
  "inbox_of view st i = list_value (view (sig_store st) (inbox_key (hex_encode i)))"

lemma inbox_ack_effect:
  assumes "sig_ok E view" "st_inv E view st" "msg_wf (InboxAck i token)"
    "verify_claim_token C sr now i token INBOX_CLAIM_TTL_SECS"
  shows "view (sig_store (fst (handle_inbox_ack E C sr now reply (bus_msg E sid (InboxAck i token)) st)))
    = (view (sig_store st))(claim_key token := None,
        claims_index := zset_or_none (filter (\<lambda>z. fst z \<noteq> claim_key token) (zset_value (view (sig_store st) claims_index))))"
proof -
  have R: "redis_ok (sg_redis E) view" using assms(1) by (simp add: sig_ok_def)
  have "is_zset_key (view (sig_store st) claims_index)" using assms(2) by (simp add: st_inv_def sig_inv_def)
  from claim_removed_view [OF R this] show ?thesis
    by (simp add: handle_inbox_ack_def open_bus_msg [OF assms(1,3)] assms(4) Let_def)
qed

lemma claim_deadline:
  fixes now :: u64
  assumes "unat t + 300 \<le> unat now" "unat now < 2 ^ 63"
  shows "sint (t + INBOX_CLAIM_TTL_SECS) \<le> sint now"
proof -
  have "unat (t + INBOX_CLAIM_TTL_SECS) = unat t + 300"
    using assms by (simp add: INBOX_CLAIM_TTL_SECS_def unat_word_ariths)
  then have "sint (t + INBOX_CLAIM_TTL_SECS) = int (unat t + 300)"
    using assms by (subst sint_small) simp_all
  then show ?thesis
    using assms by (simp only: sint_small [OF assms(2)] of_nat_le_iff)
qed


lemma demo_inbox_state:
  "st_inv demo_sig (\<lambda>s. s) (fst (handle_inbox_store demo_sig (bus_msg demo_sig 1 (InboxStore [7] [1, 2])) empty_state))"
  "sig_store (fst (handle_inbox_store demo_sig (bus_msg demo_sig 1 (InboxStore [7] [1, 2])) empty_state))
    = (\<lambda>_. None)(inbox_key (hex_encode [7]) := Some (RList [hex_encode [1, 2]]))"
proof -
  have wf: "msg_wf (InboxStore [7] [1, 2])" by (simp add: msg_wf_def fits_u32_def)
  show "st_inv demo_sig (\<lambda>s. s) (fst (handle_inbox_store demo_sig (bus_msg demo_sig 1 (InboxStore [7] [1, 2])) empty_state))"
    by (rule handle_inbox_store_inv [OF demo_sig_ok empty_state_inv])
  show "sig_store (fst (handle_inbox_store demo_sig (bus_msg demo_sig 1 (InboxStore [7] [1, 2])) empty_state))
    = (\<lambda>_. None)(inbox_key (hex_encode [7]) := Some (RList [hex_encode [1, 2]]))"
    using inbox_store_effect [OF demo_sig_ok empty_state_inv wf, of 1] by (simp add: empty_state_def)
qed


text \<open>The claim token only depends on the inbox and the second: when an inbox is fetched, a message arrives and
  the inbox is fetched again within the same second, the second claim overwrites the first, and although
  neither fetch is acknowledged, recovery restores only the second message; the first is lost.\<close>

theorem same_second_fetch_loses:
  assumes ok: "sig_ok E view" "st_inv E view st" "msg_wf (InboxFetch i)" "msg_wf (InboxStore i c)"
    and none: "view (sig_store st) claims_index = None" and one: "inbox_of view st i = [m]"
    and t: "unat t + 300 \<le> unat now" "unat now < 2 ^ 63"
  shows "let st1 = fst (handle_inbox_fetch E C sr t reply (bus_msg E sid (InboxFetch i)) st);
      st2 = fst (handle_inbox_store E (bus_msg E sid2 (InboxStore i c)) st1);
      st3 = fst (handle_inbox_fetch E C sr t reply (bus_msg E sid (InboxFetch i)) st2)
    in inbox_of view (fst (recover_round E now st3)) i = [hex_encode c]
      \<and> view (sig_store (fst (recover_round E now st3))) claims_index = None"
proof -
  let ?tok = "generate_claim_token C sr i t" and ?dl = "sint (t + INBOX_CLAIM_TTL_SECS)"
  let ?st1 = "fst (handle_inbox_fetch E C sr t reply (bus_msg E sid (InboxFetch i)) st)"
  let ?st2 = "fst (handle_inbox_store E (bus_msg E sid2 (InboxStore i c)) ?st1)"
  let ?st3 = "fst (handle_inbox_fetch E C sr t reply (bus_msg E sid (InboxFetch i)) ?st2)"
  have v1: "view (sig_store ?st1) claims_index = Some (RZset [(claim_key ?tok, ?dl)])" "inbox_of view ?st1 i = []"
    using inbox_fetch_effect(1) [OF ok(1-3), of C sr t reply sid] one by (simp_all add: none inbox_of_def)
  have i1: "st_inv E view ?st1" by (rule handle_inbox_fetch_inv [OF ok(1,2)])
  have v2: "view (sig_store ?st2) claims_index = Some (RZset [(claim_key ?tok, ?dl)])" "inbox_of view ?st2 i = [hex_encode c]"
    using inbox_store_effect [OF ok(1) i1 ok(4), of sid2] v1 by (simp_all add: inbox_of_def)
  have i2: "st_inv E view ?st2" by (rule handle_inbox_store_inv [OF ok(1) i1])
  have v3: "view (sig_store ?st3) claims_index = Some (RZset [(claim_key ?tok, ?dl)])"
      "view (sig_store ?st3) (claim_key ?tok) = Some (RStr (to_text (sg_json E) (claim_json (hex_encode i) [hex_encode c])))"
      "inbox_of view ?st3 i = []"
    using inbox_fetch_effect(1) [OF ok(1) i2 ok(3), of C sr t reply sid] v2 by (simp_all add: inbox_of_def)
  have i3: "st_inv E view ?st3" by (rule handle_inbox_fetch_inv [OF ok(1) i2])
  have "?dl \<le> sint now" by (rule claim_deadline [OF t])
  from recover_single_claim [OF ok(1) i3 v3(1,2) _ this] v3(3) show ?thesis
    by (simp add: Let_def inbox_of_def)
qed

theorem same_second_fetch_loses_witness:
  "let st = fst (handle_inbox_store demo_sig (bus_msg demo_sig 1 (InboxStore [7] [1, 2])) empty_state);
       st1 = fst (handle_inbox_fetch demo_sig demo_crypto demo_signer 1000 None (bus_msg demo_sig 2 (InboxFetch [7])) st);
       st2 = fst (handle_inbox_store demo_sig (bus_msg demo_sig 1 (InboxStore [7] [3])) st1);
       st3 = fst (handle_inbox_fetch demo_sig demo_crypto demo_signer 1000 None (bus_msg demo_sig 2 (InboxFetch [7])) st2)
   in inbox_of (\<lambda>s. s) (fst (recover_round demo_sig 1300 st3)) [7] = [hex_encode [3]]"
proof -
  let ?st = "fst (handle_inbox_store demo_sig (bus_msg demo_sig 1 (InboxStore [7] [1, 2])) empty_state)"
  have wf: "msg_wf (InboxFetch [7])" "msg_wf (InboxStore [7] [3])" by (simp_all add: msg_wf_def fits_u32_def)
  have i: "inbox_of (\<lambda>s. s) ?st [7] = [hex_encode [1, 2]]" by (simp add: inbox_of_def demo_inbox_state(2))
  have "sig_store ?st claims_index = None" by (simp add: demo_inbox_state(2))
  from same_second_fetch_loses [where view = "\<lambda>s. s", OF demo_sig_ok demo_inbox_state(1) wf this i, where t = 1000 and now = 1300
      and C = demo_crypto and sr = demo_signer and reply = None and sid = 2 and ?sid2.0 = 1]
  show ?thesis by (simp add: Let_def)
qed

end
