(* ===== verification/Double_Ratchet.thy ===== *)
theory Double_Ratchet
  imports Crypto_Base "HOL-Library.AList"
begin

text \<open>
  The Double Ratchet (\<^verbatim>\<open>crates/cypher-crypto/src/ratchet.rs\<close>).  The state is the struct of the
  source; the hash map of skipped keys is an association list with distinct keys.  Counters are
  32-bit words that wrap as the release build does.  The random secret that a new ratchet key pair
  takes is an argument.  \<^verbatim>\<open>encrypt\<close> and \<^verbatim>\<open>decrypt\<close> return the state they leave behind also when
  they fail.  The results: any-order delivery inside a burst, unbounded conversations that take
  turns, the caps on stored keys, and what a replayed message does to the receiver.
\<close>

section \<open>State and operations\<close>

definition kdf_chain :: "crypto \<Rightarrow> bytes \<Rightarrow> bytes \<times> bytes" where
  "kdf_chain C chain_key =
    (hkdf C (Some chain_key) [0x01] (ascii ''chain-key'') 32,
     hkdf C (Some chain_key) [0x02] (ascii ''message-key'') 32)"

definition dh_ratchet :: "crypto \<Rightarrow> bytes \<Rightarrow> bytes \<Rightarrow> bytes \<times> bytes" where
  "dh_ratchet C root_key dh_output =
    (hkdf C (Some root_key) dh_output (ascii ''dh-ratchet-root'') 32,
     hkdf C (Some root_key) dh_output (ascii ''dh-ratchet-chain'') 32)"

type_synonym SkippedKey = "bytes \<times> u32"

definition MAX_SKIP :: u32 where "MAX_SKIP = 256"
definition MAX_TOTAL_SKIPPED :: nat where "MAX_TOTAL_SKIPPED = 2048"

record RatchetState =
  root_key :: bytes
  send_chain_key :: "bytes option"
  recv_chain_key :: "bytes option"
  send_ratchet_secret :: bytes
  send_ratchet_key :: bytes
  recv_ratchet_key :: "bytes option"
  send_count :: u32
  recv_count :: u32
  prev_send_count :: u32
  skipped_keys :: "(SkippedKey \<times> bytes) list"

definition init_sender :: "crypto \<Rightarrow> bytes \<Rightarrow> bytes \<Rightarrow> bytes \<Rightarrow> RatchetState" where
  "init_sender C rnd shared_secret peer_ratchet_pubkey =
    (let dh_output = x25519 C rnd peer_ratchet_pubkey;
         (rk, ck) = dh_ratchet C shared_secret dh_output
     in \<lparr>root_key = rk, send_chain_key = Some ck, recv_chain_key = None,
         send_ratchet_secret = rnd, send_ratchet_key = x25519_public C rnd,
         recv_ratchet_key = Some peer_ratchet_pubkey,
         send_count = 0, recv_count = 0, prev_send_count = 0, skipped_keys = []\<rparr>)"

definition init_receiver :: "crypto \<Rightarrow> bytes \<Rightarrow> bytes \<Rightarrow> RatchetState" where
  "init_receiver C shared_secret our_ratchet_secret =
    \<lparr>root_key = shared_secret, send_chain_key = None, recv_chain_key = None,
     send_ratchet_secret = our_ratchet_secret,
     send_ratchet_key = x25519_public C our_ratchet_secret, recv_ratchet_key = None,
     send_count = 0, recv_count = 0, prev_send_count = 0, skipped_keys = []\<rparr>"

text \<open>
  Persisting a session: keys are their bytes in the model, so the serializable mirror of the struct
  has the same fields.  The postcard library is a parameter.
\<close>

type_synonym SerializableRatchetState = RatchetState

definition ratchet_serialize :: "(SerializableRatchetState \<Rightarrow> bytes option) \<Rightarrow> RatchetState \<Rightarrow> bytes result" where
  "ratchet_serialize to_allocvec s =
    ok_or (to_allocvec
        \<lparr>root_key = root_key s, send_chain_key = send_chain_key s, recv_chain_key = recv_chain_key s,
         send_ratchet_secret = send_ratchet_secret s, send_ratchet_key = send_ratchet_key s,
         recv_ratchet_key = recv_ratchet_key s, send_count = send_count s, recv_count = recv_count s,
         prev_send_count = prev_send_count s, skipped_keys = skipped_keys s\<rparr>)
      (Crypto ''ratchet serialize'')"

definition ratchet_deserialize :: "(bytes \<Rightarrow> SerializableRatchetState option) \<Rightarrow> bytes \<Rightarrow> RatchetState result" where
  "ratchet_deserialize from_bytes data =
    and_then (ok_or (from_bytes data) (Crypto ''ratchet deserialize'')) (\<lambda>s.
      Ok \<lparr>root_key = root_key s, send_chain_key = send_chain_key s, recv_chain_key = recv_chain_key s,
          send_ratchet_secret = send_ratchet_secret s, send_ratchet_key = send_ratchet_key s,
          recv_ratchet_key = recv_ratchet_key s, send_count = send_count s, recv_count = recv_count s,
          prev_send_count = prev_send_count s, skipped_keys = skipped_keys s\<rparr>)"

lemma ratchet_deserialize_serialize:
  "(\<And>t b. to_allocvec t = Some b \<Longrightarrow> from_bytes b = Some t) \<Longrightarrow>
   ratchet_serialize to_allocvec s = Ok b \<Longrightarrow> ratchet_deserialize from_bytes b = Ok s"
  by (simp add: ratchet_serialize_def ratchet_deserialize_def)

definition nonce_material :: "bytes \<Rightarrow> u32 \<Rightarrow> bytes" where
  "nonce_material message_key msg_no = message_key @ u32_be msg_no"

definition encrypt ::
  "crypto \<Rightarrow> RatchetState \<Rightarrow> bytes \<Rightarrow> RatchetState \<times> (bytes \<times> bytes \<times> u32) result" where
  "encrypt C s plaintext =
    (case send_chain_key s of
       None \<Rightarrow> (s, Err (Crypto ''send_chain_key must be initialized before encrypting''))
     | Some ck \<Rightarrow>
         let (new_chain_key, message_key) = kdf_chain C ck;
             msg_no = send_count s;
             s' = s\<lparr>send_chain_key := Some new_chain_key, send_count := send_count s + 1\<rparr>
         in (s', and_then
                   (aead_encrypt C message_key (nonce_material message_key msg_no) plaintext
                      (send_ratchet_key s))
                   (\<lambda>ciphertext. Ok (ciphertext, send_ratchet_key s, msg_no))))"

text \<open>The loop of \<^verbatim>\<open>skip_messages\<close>: \<^verbatim>\<open>n\<close> iterations from message number \<^verbatim>\<open>i\<close>.\<close>

primrec skip_loop ::
  "crypto \<Rightarrow> bytes \<Rightarrow> nat \<Rightarrow> u32 \<Rightarrow> bytes \<Rightarrow> (SkippedKey \<times> bytes) list
    \<Rightarrow> bytes \<times> (SkippedKey \<times> bytes) list" where
  "skip_loop C rk 0 i ck sk = (ck, sk)"
| "skip_loop C rk (Suc n) i ck sk =
    (let (new_chain_key, message_key) = kdf_chain C ck
     in skip_loop C rk n (i + 1) new_chain_key (AList.update (rk, i) message_key sk))"

definition saturating_sub :: "u32 \<Rightarrow> u32 \<Rightarrow> u32" where
  "saturating_sub a b = (if b \<le> a then a - b else 0)"

definition skip_messages :: "crypto \<Rightarrow> RatchetState \<Rightarrow> u32 \<Rightarrow> RatchetState \<times> unit result" where
  "skip_messages C s until =
    (case (recv_chain_key s, recv_ratchet_key s) of
       (Some ck, Some rk) \<Rightarrow>
         let to_skip = saturating_sub until (recv_count s) in
         if to_skip > MAX_SKIP then (s, Err (Crypto ''Too many skipped messages''))
         else if length (skipped_keys s) + unat to_skip > MAX_TOTAL_SKIPPED
         then (s, Err (Crypto ''Global skipped key limit reached''))
         else
           let (ck', sk') = skip_loop C rk (unat to_skip) (recv_count s) ck (skipped_keys s)
           in (s\<lparr>skipped_keys := sk', recv_chain_key := Some ck', recv_count := until\<rparr>, Ok ())
     | _ \<Rightarrow> (s, Ok ()))"

definition dh_ratchet_step :: "crypto \<Rightarrow> bytes \<Rightarrow> RatchetState \<Rightarrow> bytes \<Rightarrow> RatchetState" where
  "dh_ratchet_step C rnd s ratchet_pubkey =
    (let dh_recv = x25519 C (send_ratchet_secret s) ratchet_pubkey;
         (root1, recv_ck) = dh_ratchet C (root_key s) dh_recv;
         dh_send = x25519 C rnd ratchet_pubkey;
         (root2, send_ck) = dh_ratchet C root1 dh_send
     in s\<lparr>prev_send_count := send_count s, send_count := 0, recv_count := 0,
          recv_ratchet_key := Some ratchet_pubkey,
          recv_chain_key := Some recv_ck,
          send_ratchet_secret := rnd, send_ratchet_key := x25519_public C rnd,
          root_key := root2, send_chain_key := Some send_ck\<rparr>)"

definition decrypt ::
  "crypto \<Rightarrow> bytes \<Rightarrow> RatchetState \<Rightarrow> bytes \<Rightarrow> bytes \<Rightarrow> u32 \<Rightarrow> RatchetState \<times> bytes result" where
  "decrypt C rnd s ciphertext ratchet_pubkey msg_no =
    (case map_of (skipped_keys s) (ratchet_pubkey, msg_no) of
       Some message_key \<Rightarrow>
         (s\<lparr>skipped_keys := AList.delete (ratchet_pubkey, msg_no) (skipped_keys s)\<rparr>,
          aead_decrypt C message_key (nonce_material message_key msg_no) ciphertext ratchet_pubkey)
     | None \<Rightarrow>
         let need_dh_ratchet = (recv_ratchet_key s \<noteq> Some ratchet_pubkey);
             s1 = if need_dh_ratchet then dh_ratchet_step C rnd s ratchet_pubkey else s
         in case skip_messages C s1 msg_no of
              (s2, Err e) \<Rightarrow> (s2, Err e)
            | (s2, Ok _) \<Rightarrow>
                (case recv_chain_key s2 of
                   None \<Rightarrow> (s2, Err (Crypto ''recv_chain_key not initialized''))
                 | Some ck \<Rightarrow>
                     let (new_chain_key, message_key) = kdf_chain C ck in
                     (s2\<lparr>recv_chain_key := Some new_chain_key, recv_count := recv_count s2 + 1\<rparr>,
                      aead_decrypt C message_key (nonce_material message_key msg_no) ciphertext
                        ratchet_pubkey)))"

section \<open>Chains\<close>

text \<open>The chain key after \<^verbatim>\<open>n\<close> steps and the key of message \<^verbatim>\<open>n\<close>.\<close>

primrec chain :: "crypto \<Rightarrow> bytes \<Rightarrow> nat \<Rightarrow> bytes" where
  "chain C ck 0 = ck"
| "chain C ck (Suc n) = fst (kdf_chain C (chain C ck n))"

definition msg_key :: "crypto \<Rightarrow> bytes \<Rightarrow> nat \<Rightarrow> bytes" where
  "msg_key C ck n = snd (kdf_chain C (chain C ck n))"

lemma kdf_chain_at: "kdf_chain C (chain C ck n) = (chain C ck (Suc n), msg_key C ck n)"
  by (simp add: msg_key_def)

definition sealed :: "crypto \<Rightarrow> bytes \<Rightarrow> bytes \<Rightarrow> nat \<Rightarrow> bytes \<Rightarrow> bytes \<Rightarrow> bool" where
  "sealed C rk ck n p c \<longleftrightarrow>
    aead_encrypt C (msg_key C ck n) (nonce_material (msg_key C ck n) (word_of_nat n)) p rk = Ok c"

lemma sealed_opens:
  "crypto_ok C \<Longrightarrow> sealed C rk ck n p c \<Longrightarrow>
   aead_decrypt C (msg_key C ck n) (nonce_material (msg_key C ck n) (word_of_nat n)) c rk = Ok p"
  unfolding sealed_def by (rule aead_decrypt_encrypt)

lemma skip_loop_chain: "fst (skip_loop C rk k i (chain C ck n) sk) = chain C ck (n + k)"
proof (induction k arbitrary: n i sk)
  case (Suc k)
  from Suc [of "i + 1" "Suc n"] show ?case by (simp add: kdf_chain_at Let_def del: chain.simps)
qed simp

lemma skip_loop_map_of:
  "n + k \<le> 2 ^ 32 \<Longrightarrow>
   map_of (snd (skip_loop C rk k (word_of_nat n) (chain C ck n) sk)) (r, i)
     = (if r = rk \<and> n \<le> unat i \<and> unat i < n + k then Some (msg_key C ck (unat i))
        else map_of sk (r, i))"
proof (induction k arbitrary: n sk)
  case (Suc k)
  have w: "word_of_nat n + 1 = (word_of_nat (Suc n) :: u32)" by simp
  have u: "unat (word_of_nat n :: u32) = n" using Suc.prems by (simp add: unat_of_nat_small)
  let ?sk = "AList.update (rk, word_of_nat n) (msg_key C ck n) sk"
  have "map_of ?sk (r, i) = (if r = rk \<and> unat i = n then Some (msg_key C ck n) else map_of sk (r, i))"
    using u by (auto simp: update_conv')
  then show ?case
    using Suc.prems Suc.IH [of "Suc n" ?sk]
    by (auto simp add: kdf_chain_at Let_def w simp del: of_nat_Suc chain.simps)
qed auto

lemma skip_loop_length: "length (snd (skip_loop C rk k i ck sk)) \<le> length sk + k"
proof (induction k arbitrary: i ck sk)
  case (Suc k)
  have "length (AList.update x v sk) \<le> Suc (length sk)" for x :: SkippedKey and v
    by (induction sk) auto
  from this [of "(rk, i)" "snd (kdf_chain C ck)"]
    Suc [of "i + 1" "fst (kdf_chain C ck)" "AList.update (rk, i) (snd (kdf_chain C ck)) sk"]
  show ?case by (simp add: case_prod_beta Let_def)
qed simp

lemma skip_loop_distinct:
  "distinct (map fst sk) \<Longrightarrow> distinct (map fst (snd (skip_loop C rk k i ck sk)))"
  by (induction k arbitrary: i ck sk) (simp_all add: case_prod_beta Let_def distinct_update)

lemma skip_loop_owner:
  "\<forall>e\<in>set sk. fst (fst e) = rk \<Longrightarrow> \<forall>e\<in>set (snd (skip_loop C rk k i ck sk)). fst (fst e) = rk"
proof (induction k arbitrary: i ck sk)
  case (Suc k)
  have "\<forall>e\<in>set (AList.update (rk, i) v sk). fst (fst e) = rk" for v
    using Suc.prems by (induction sk) auto
  from Suc.IH [OF this] show ?case by (simp add: case_prod_beta Let_def)
qed simp

section \<open>Delivery inside a burst\<close>

text \<open>
  The receiver is in step with the sending chain that starts at \<^verbatim>\<open>ck\<close> under ratchet key \<^verbatim>\<open>rk\<close>:
  the keys it stores are exactly those of the messages below its counter that were not delivered.
\<close>

definition recv_inv :: "crypto \<Rightarrow> bytes \<Rightarrow> bytes \<Rightarrow> u32 set \<Rightarrow> RatchetState \<Rightarrow> bool" where
  "recv_inv C rk ck D s \<longleftrightarrow>
    recv_ratchet_key s = Some rk
    \<and> recv_chain_key s = Some (chain C ck (unat (recv_count s)))
    \<and> (\<forall>i. map_of (skipped_keys s) (rk, i)
          = (if i < recv_count s \<and> i \<notin> D then Some (msg_key C ck (unat i)) else None))
    \<and> (\<forall>j\<in>D. j < recv_count s)
    \<and> distinct (map fst (skipped_keys s))
    \<and> (\<forall>e\<in>set (skipped_keys s). fst (fst e) = rk)
    \<and> length (skipped_keys s) \<le> unat (recv_count s)"

definition send_view :: "RatchetState \<Rightarrow> bytes \<times> bytes option \<times> bytes \<times> bytes \<times> u32" where
  "send_view s = (root_key s, send_chain_key s, send_ratchet_secret s, send_ratchet_key s, send_count s)"

lemma length_AList_delete: "length (AList.delete k xs) \<le> length xs"
  by (induction xs) auto

lemma set_AList_delete: "set (AList.delete k xs) \<subseteq> set xs"
  by (induction xs) auto

lemma deliver_old:
  assumes C: "crypto_ok C" and inv: "recv_inv C rk ck D s" and j: "j \<notin> D" "j < recv_count s"
    and c: "sealed C rk ck (unat j) p c"
  shows "\<exists>s'. decrypt C rnd s c rk j = (s', Ok p) \<and> recv_inv C rk ck (insert j D) s'
    \<and> recv_count s' = recv_count s \<and> send_view s' = send_view s"
proof -
  let ?s' = "s\<lparr>skipped_keys := AList.delete (rk, j) (skipped_keys s)\<rparr>"
  have k: "map_of (skipped_keys s) (rk, j) = Some (msg_key C ck (unat j))"
    using inv j by (simp add: recv_inv_def)
  have "decrypt C rnd s c rk j = (?s', Ok p)"
    using sealed_opens [OF C c] by (simp add: decrypt_def k)
  moreover have "recv_inv C rk ck (insert j D) ?s'"
    using inv j length_AList_delete [of "(rk, j)" "skipped_keys s"]
    by (auto simp: recv_inv_def delete_conv' distinct_delete dest: subsetD [OF set_AList_delete])
  ultimately show ?thesis by (auto simp: send_view_def)
qed

lemma skip_to:
  assumes inv: "recv_inv C rk ck D s" and j: "recv_count s \<le> j" "unat j \<le> 256"
  shows "\<exists>s'. skip_messages C s j = (s', Ok ()) \<and> recv_inv C rk ck D s'
    \<and> recv_count s' = j \<and> send_view s' = send_view s"
proof -
  let ?n = "unat (recv_count s)"
  let ?k = "unat (j - recv_count s)"
  have k: "?n + ?k = unat j" using j(1) by (simp add: unat_sub word_le_nat_alt)
  let ?r = "skip_loop C rk ?k (recv_count s) (chain C ck ?n) (skipped_keys s)"
  let ?s' = "s\<lparr>skipped_keys := snd ?r, recv_chain_key := Some (chain C ck (unat j)), recv_count := j\<rparr>"
  have small: "\<not> MAX_SKIP < j - recv_count s"
    using j(2) k by (simp add: MAX_SKIP_def word_less_nat_alt)
  have total: "\<not> MAX_TOTAL_SKIPPED < length (skipped_keys s) + ?k"
    using inv j(2) k by (simp add: recv_inv_def MAX_TOTAL_SKIPPED_def)
  have "skip_messages C s j = (?s', Ok ())"
    using inv j(1) small total k skip_loop_chain [of C rk ?k "recv_count s" ck ?n "skipped_keys s"]
    by (simp add: skip_messages_def recv_inv_def saturating_sub_def Let_def case_prod_beta)
  moreover have "recv_inv C rk ck D ?s'"
  proof -
    have m: "map_of (snd ?r) (rk, i) = (if i < j \<and> i \<notin> D then Some (msg_key C ck (unat i)) else None)" for i
      using inv j k skip_loop_map_of [of ?n ?k C rk ck "skipped_keys s" rk i]
      by (auto simp: recv_inv_def word_less_nat_alt word_le_nat_alt)
    show ?thesis
      using inv j(1) k skip_loop_length [of C rk ?k "recv_count s" "chain C ck ?n" "skipped_keys s"]
      by (auto simp: recv_inv_def m skip_loop_distinct dest: skip_loop_owner [rule_format, rotated])
  qed
  ultimately show ?thesis by (auto simp: send_view_def)
qed

lemma deliver_new:
  assumes C: "crypto_ok C" and inv: "recv_inv C rk ck D s" and j: "recv_count s \<le> j" "unat j < 256"
    and c: "sealed C rk ck (unat j) p c"
  shows "\<exists>s'. decrypt C rnd s c rk j = (s', Ok p) \<and> recv_inv C rk ck (insert j D) s'
    \<and> recv_count s' = j + 1 \<and> send_view s' = send_view s"
proof -
  obtain s2 where s2: "skip_messages C s j = (s2, Ok ())" "recv_inv C rk ck D s2" "recv_count s2 = j"
      "send_view s2 = send_view s"
    using skip_to [OF inv j(1)] j(2) by auto
  let ?s' = "s2\<lparr>recv_chain_key := Some (chain C ck (Suc (unat j))), recv_count := j + 1\<rparr>"
  have none: "map_of (skipped_keys s) (rk, j) = None"
    using inv leD [OF j(1)] by (simp add: recv_inv_def)
  have "decrypt C rnd s c rk j = (?s', Ok p)"
    using s2 none inv sealed_opens [OF C c]
    by (simp add: decrypt_def recv_inv_def kdf_chain_at Let_def del: chain.simps)
  moreover have "recv_inv C rk ck (insert j D) ?s'"
  proof -
    have u: "unat (j + 1) = Suc (unat j)" using j(2) by (simp add: unat_word_ariths)
    then have "i < j + 1 \<longleftrightarrow> i < j \<or> i = j" for i
      by (simp add: word_less_nat_alt less_Suc_eq word_unat_eq_iff)
    then show ?thesis using s2 u by (auto simp: recv_inv_def simp del: chain.simps)
  qed
  ultimately show ?thesis using s2 by (auto simp: send_view_def)
qed

lemma deliver_one:
  assumes "crypto_ok C" "recv_inv C rk ck D s" "j \<notin> D" "unat j < N" "N \<le> 256"
    "unat (recv_count s) \<le> N" "sealed C rk ck (unat j) p c"
  shows "\<exists>s'. decrypt C rnd s c rk j = (s', Ok p) \<and> recv_inv C rk ck (insert j D) s'
    \<and> unat (recv_count s') \<le> N \<and> send_view s' = send_view s"
proof (cases "j < recv_count s")
  case True
  with deliver_old [OF assms(1-3)] assms show ?thesis by fastforce
next
  case False
  moreover have "unat (j + 1) \<le> N" using assms(4,5) by (simp add: unat_word_ariths)
  moreover have "unat j < 256" using assms(4,5) by simp
  ultimately show ?thesis using deliver_new [OF assms(1,2) _ _ assms(7)] by fastforce
qed

text \<open>Encrypting and delivering lists of messages.\<close>

primrec encrypt_all ::
  "crypto \<Rightarrow> RatchetState \<Rightarrow> bytes list \<Rightarrow> RatchetState \<times> (bytes \<times> bytes \<times> u32) result list" where
  "encrypt_all C s [] = (s, [])"
| "encrypt_all C s (p # ps) =
    (let (s1, r) = encrypt C s p; (s2, rs) = encrypt_all C s1 ps in (s2, r # rs))"

fun deliver_all ::
  "crypto \<Rightarrow> bytes \<Rightarrow> RatchetState \<Rightarrow> (bytes \<times> bytes \<times> u32) result list
    \<Rightarrow> RatchetState \<times> bytes result list" where
  "deliver_all C rnd s [] = (s, [])"
| "deliver_all C rnd s (Err e # ms) = (let (s2, rs) = deliver_all C rnd s ms in (s2, Err e # rs))"
| "deliver_all C rnd s (Ok (c, rk, n) # ms) =
    (let (s1, r) = decrypt C rnd s c rk n; (s2, rs) = deliver_all C rnd s1 ms in (s2, r # rs))"

lemma encrypt_all_sealed:
  assumes C: "crypto_ok C" and ck: "send_chain_key s = Some (chain C ck n)" "send_count s = word_of_nat n"
    and ps: "\<forall>p\<in>set ps. length p \<le> 2 ^ 36"
  shows "\<exists>s' cs. encrypt_all C s ps = (s', map (\<lambda>i. Ok (cs ! i, send_ratchet_key s, word_of_nat (n + i))) [0..<length ps])
    \<and> (\<forall>i<length ps. sealed C (send_ratchet_key s) ck (n + i) (ps ! i) (cs ! i))
    \<and> s' = s\<lparr>send_chain_key := Some (chain C ck (n + length ps)), send_count := word_of_nat (n + length ps)\<rparr>"
  using ck ps
proof (induction ps arbitrary: s n)
  case Nil
  then show ?case by (auto intro!: exI [of _ "[]"])
next
  case (Cons p ps)
  let ?s1 = "s\<lparr>send_chain_key := Some (chain C ck (Suc n)), send_count := word_of_nat (Suc n)\<rparr>"
  obtain c where c: "sealed C (send_ratchet_key s) ck n p c"
    using aead_encrypt_total [OF C, of p] Cons.prems(3) unfolding sealed_def by (meson list.set_intros(1))
  have e: "encrypt C s p = (?s1, Ok (c, send_ratchet_key s, word_of_nat n))"
    using Cons.prems c
    by (simp add: encrypt_def kdf_chain_at sealed_def Let_def add.commute del: chain.simps)
  from Cons.IH [of ?s1 "Suc n"] Cons.prems(3) obtain s' cs where
    ih: "encrypt_all C ?s1 ps = (s', map (\<lambda>i. Ok (cs ! i, send_ratchet_key s, word_of_nat (Suc n + i))) [0..<length ps])"
      "\<forall>i<length ps. sealed C (send_ratchet_key s) ck (Suc n + i) (ps ! i) (cs ! i)"
      "s' = ?s1\<lparr>send_chain_key := Some (chain C ck (Suc n + length ps)), send_count := word_of_nat (Suc n + length ps)\<rparr>"
    by (auto simp del: chain.simps of_nat_Suc of_nat_add)
  have m: "map f [0..<Suc k] = f 0 # map (\<lambda>i. f (Suc i)) [0..<k]" for f :: "nat \<Rightarrow> 'x" and k
    by (simp add: map_upt_Suc del: upt_Suc)
  show ?case
    using ih e c
    by (intro exI [of _ s'] exI [of _ "c # cs"])
       (auto simp: m less_Suc_eq_0_disj simp del: chain.simps upt_Suc)
qed

lemma deliver_all_inv:
  assumes C: "crypto_ok C" and inv: "recv_inv C rk ck D s" "unat (recv_count s) \<le> N"
    and js: "distinct js" "\<forall>j\<in>set js. j < N \<and> word_of_nat j \<notin> D" and N: "N \<le> 256"
    and cs: "\<forall>i<N. sealed C rk ck i (ps ! i) (cs ! i)"
  shows "\<exists>s'. deliver_all C rnd s (map (\<lambda>j. Ok (cs ! j, rk, word_of_nat j)) js)
        = (s', map (\<lambda>j. Ok (ps ! j)) js)
    \<and> recv_inv C rk ck (D \<union> word_of_nat ` set js) s' \<and> unat (recv_count s') \<le> N
    \<and> send_view s' = send_view s"
  using inv js
proof (induction js arbitrary: s D)
  case (Cons j js)
  have u: "unat (word_of_nat i :: u32) = i" if "i < N" for i
    using that N by (simp add: unat_of_nat_small)
  have j: "j < N" "word_of_nat j \<notin> D" "j \<notin> set js" using Cons.prems by auto
  obtain s1 where s1: "decrypt C rnd s (cs ! j) rk (word_of_nat j) = (s1, Ok (ps ! j))"
      "recv_inv C rk ck (insert (word_of_nat j) D) s1" "unat (recv_count s1) \<le> N"
      "send_view s1 = send_view s"
    using deliver_one [OF C Cons.prems(1) j(2), of N "ps ! j" "cs ! j" rnd] Cons.prems(2) u [OF j(1)] j(1) N cs
    by auto
  have "\<forall>i\<in>set js. i < N \<and> word_of_nat i \<notin> insert (word_of_nat j :: u32) D"
  proof
    fix i assume "i \<in> set js"
    with Cons.prems j u [of i] u [of j] show "i < N \<and> word_of_nat i \<notin> insert (word_of_nat j :: u32) D"
      by (metis insertE list.set_intros(2))
  qed
  from Cons.IH [OF s1(2,3) _ this] Cons.prems(3) s1 show ?case by (auto simp: Let_def)
qed auto

section \<open>Taking turns\<close>

text \<open>
  \<^verbatim>\<open>lead C X Y\<close>: it is X's turn.  X has ratcheted against the key Y last published and starts a new
  sending chain; Y has not seen X's current ratchet key, and its root key is the one X derived from.
\<close>

definition lead :: "crypto \<Rightarrow> RatchetState \<Rightarrow> RatchetState \<Rightarrow> bool" where
  "lead C X Y \<longleftrightarrow>
    send_ratchet_key X = x25519_public C (send_ratchet_secret X)
    \<and> send_ratchet_key Y = x25519_public C (send_ratchet_secret Y)
    \<and> (let d = dh_ratchet C (root_key Y) (x25519 C (send_ratchet_secret X) (send_ratchet_key Y))
       in root_key X = fst d \<and> send_chain_key X = Some (snd d))
    \<and> send_count X = 0
    \<and> recv_ratchet_key X = Some (send_ratchet_key Y)
    \<and> recv_ratchet_key Y \<noteq> Some (send_ratchet_key X)
    \<and> skipped_keys X = [] \<and> skipped_keys Y = []"

lemma lead_init:
  "crypto_ok C \<Longrightarrow> lead C (init_sender C a ss (x25519_public C b)) (init_receiver C ss b)"
  by (simp add: lead_def init_sender_def init_receiver_def Let_def case_prod_beta)

lemma dh_ratchet_step_sel [simp]:
  "recv_ratchet_key (dh_ratchet_step C rnd s rk) = Some rk"
  "skipped_keys (dh_ratchet_step C rnd s rk) = skipped_keys s"
  "recv_count (dh_ratchet_step C rnd s rk) = 0"
  by (simp_all add: dh_ratchet_step_def Let_def case_prod_beta)

lemma decrypt_first:
  "map_of (skipped_keys s) (rk, j) = None \<Longrightarrow> recv_ratchet_key s \<noteq> Some rk \<Longrightarrow>
   decrypt C rnd s c rk j = decrypt C rnd (dh_ratchet_step C rnd s rk) c rk j"
  by (simp add: decrypt_def)

lemma step_recv_inv:
  "skipped_keys s = [] \<Longrightarrow>
   recv_inv C rk (snd (dh_ratchet C (root_key s) (x25519 C (send_ratchet_secret s) rk))) {}
     (dh_ratchet_step C rnd s rk)"
  by (simp add: recv_inv_def) (simp add: dh_ratchet_step_def Let_def case_prod_beta)

lemma all_delivered:
  assumes inv: "recv_inv C rk ck (word_of_nat ` {..<N}) s" and le: "unat (recv_count s) \<le> N"
  shows "skipped_keys s = []"
proof (rule ccontr)
  assume "skipped_keys s \<noteq> []"
  then obtain r i v where e: "((r, i), v) \<in> set (skipped_keys s)"
    by (metis list.set_sel(1) prod.exhaust)
  moreover from e inv have "r = rk" by (auto simp: recv_inv_def)
  moreover from inv have "distinct (map fst (skipped_keys s))" by (simp add: recv_inv_def)
  ultimately have "map_of (skipped_keys s) (rk, i) = Some v" by simp
  then have "i < recv_count s" "i \<notin> word_of_nat ` {..<N}"
    using inv by (auto simp: recv_inv_def split: if_splits)
  moreover from this(1) le have "i \<in> word_of_nat ` {..<N}"
    by (intro image_eqI [of _ _ "unat i"]) (simp_all add: word_less_nat_alt)
  ultimately show False by simp
qed

lemma deliver_all_first:
  assumes "js \<noteq> []" "recv_ratchet_key s \<noteq> Some rk" "skipped_keys s = []"
  shows "deliver_all C rnd s (map (\<lambda>j. Ok (cs ! j, rk, word_of_nat j)) js)
    = deliver_all C rnd (dh_ratchet_step C rnd s rk) (map (\<lambda>j. Ok (cs ! j, rk, word_of_nat j)) js)"
  using assms by (cases js) (simp_all add: decrypt_first)

text \<open>One burst: X encrypts all of \<^verbatim>\<open>ps\<close>, Y receives them in the order \<^verbatim>\<open>js\<close>.\<close>

definition burst ::
  "crypto \<Rightarrow> bytes \<Rightarrow> bytes list \<Rightarrow> nat list \<Rightarrow> RatchetState \<Rightarrow> RatchetState
    \<Rightarrow> RatchetState \<times> RatchetState \<times> bytes result list" where
  "burst C rnd ps js X Y =
    (let (X', ms) = encrypt_all C X ps;
         (Y', rs) = deliver_all C rnd Y (map (\<lambda>j. ms ! j) js)
     in (X', Y', rs))"

lemma burst_partial:
  assumes C: "crypto_ok C" and lead: "lead C X Y"
    and js: "js \<noteq> []" "distinct js" "set js \<subseteq> {..<length ps}"
    and ps: "length ps \<le> 256" "\<forall>p\<in>set ps. length p \<le> 2 ^ 36"
  shows "\<exists>X' Y' ck. burst C rnd ps js X Y = (X', Y', map (\<lambda>j. Ok (ps ! j)) js)
    \<and> recv_inv C (send_ratchet_key X) ck (word_of_nat ` set js) Y'
    \<and> unat (recv_count Y') \<le> length ps
    \<and> send_chain_key X' = Some (chain C ck (length ps))
    \<and> (root_key X', send_ratchet_secret X', send_ratchet_key X', recv_ratchet_key X', skipped_keys X')
      = (root_key X, send_ratchet_secret X, send_ratchet_key X, recv_ratchet_key X, skipped_keys X)
    \<and> send_view Y' = send_view (dh_ratchet_step C rnd Y (send_ratchet_key X))"
proof -
  let ?rk = "send_ratchet_key X"
  let ?d = "dh_ratchet C (root_key Y) (x25519 C (send_ratchet_secret X) (send_ratchet_key Y))"
  let ?Y1 = "dh_ratchet_step C rnd Y ?rk"
  have dh: "x25519 C (send_ratchet_secret Y) ?rk = x25519 C (send_ratchet_secret X) (send_ratchet_key Y)"
    using lead x25519_commute [OF C] by (simp add: lead_def)
  obtain X' cs where enc: "encrypt_all C X ps = (X', map (\<lambda>i. Ok (cs ! i, ?rk, word_of_nat i)) [0..<length ps])"
      and sealed: "\<forall>i<length ps. sealed C ?rk (snd ?d) i (ps ! i) (cs ! i)"
      and X': "X' = X\<lparr>send_chain_key := Some (chain C (snd ?d) (length ps)), send_count := word_of_nat (length ps)\<rparr>"
    using encrypt_all_sealed [OF C _ _ ps(2), of X "snd ?d" 0] lead by (auto simp: lead_def Let_def)
  have ms: "map (\<lambda>j. map (\<lambda>i. Ok (cs ! i, ?rk, word_of_nat i)) [0..<length ps] ! j) js
      = map (\<lambda>j. Ok (cs ! j, ?rk, word_of_nat j)) js"
    using js(3) by auto
  have inv: "recv_inv C ?rk (snd ?d) {} ?Y1"
    using step_recv_inv [of Y C ?rk rnd] lead dh by (simp add: lead_def)
  obtain Y' where Y': "deliver_all C rnd ?Y1 (map (\<lambda>j. Ok (cs ! j, ?rk, word_of_nat j)) js) = (Y', map (\<lambda>j. Ok (ps ! j)) js)"
      "recv_inv C ?rk (snd ?d) (word_of_nat ` set js) Y'" "unat (recv_count Y') \<le> length ps"
      "send_view Y' = send_view ?Y1"
    using deliver_all_inv [OF C inv _ js(2) _ ps(1) sealed, of rnd] js(3) by auto
  have "recv_ratchet_key Y \<noteq> Some ?rk" "skipped_keys Y = []" using lead by (auto simp: lead_def)
  from deliver_all_first [OF js(1) this, of C rnd cs]
  have "burst C rnd ps js X Y = (X', Y', map (\<lambda>j. Ok (ps ! j)) js)"
    using Y'(1) by (simp add: burst_def enc ms)
  moreover have "send_chain_key X' = Some (chain C (snd ?d) (length ps))" using X' by simp
  moreover have "root_key X' = root_key X" "send_ratchet_secret X' = send_ratchet_secret X"
      "send_ratchet_key X' = ?rk" "recv_ratchet_key X' = recv_ratchet_key X" "skipped_keys X' = skipped_keys X"
    using X' by simp_all
  ultimately show ?thesis using Y'(2-4) by (intro exI conjI) (assumption, assumption, assumption, assumption, simp only:, assumption)
qed

lemma burst_turn:
  assumes C: "crypto_ok C" and lead: "lead C X Y"
    and js: "distinct js" "set js = {..<length ps}" and ps: "ps \<noteq> []" "length ps \<le> 256"
      "\<forall>p\<in>set ps. length p \<le> 2 ^ 36"
    and fresh: "x25519_public C rnd \<noteq> send_ratchet_key Y"
  shows "\<exists>X' Y'. burst C rnd ps js X Y = (X', Y', map (\<lambda>j. Ok (ps ! j)) js) \<and> lead C Y' X'
    \<and> send_ratchet_key X' = send_ratchet_key X \<and> send_ratchet_key Y' = x25519_public C rnd"
proof -
  have "0 \<in> set js" unfolding js(2) using ps(1) by simp
  then have ne: "js \<noteq> []" by auto
  obtain X' Y' ck where b: "burst C rnd ps js X Y = (X', Y', map (\<lambda>j. Ok (ps ! j)) js)"
    and inv: "recv_inv C (send_ratchet_key X) ck (word_of_nat ` set js) Y'" "unat (recv_count Y') \<le> length ps"
    and X': "(root_key X', send_ratchet_secret X', send_ratchet_key X', recv_ratchet_key X', skipped_keys X')
      = (root_key X, send_ratchet_secret X, send_ratchet_key X, recv_ratchet_key X, skipped_keys X)"
    and Y': "send_view Y' = send_view (dh_ratchet_step C rnd Y (send_ratchet_key X))"
    using burst_partial [OF C lead ne js(1) _ ps(2,3), of rnd] js(2) by auto
  have "skipped_keys Y' = []" using all_delivered inv js(2) by simp
  moreover have "recv_ratchet_key Y' = Some (send_ratchet_key X)" using inv by (simp add: recv_inv_def)
  ultimately have "lead C Y' X'"
    using lead X' Y' fresh x25519_commute [OF C, of "send_ratchet_secret Y" "send_ratchet_secret X"]
    by (simp add: lead_def send_view_def dh_ratchet_step_def Let_def case_prod_beta)
  with b X' Y' show ?thesis
    by (auto simp: send_view_def dh_ratchet_step_def Let_def case_prod_beta)
qed

primrec converse ::
  "crypto \<Rightarrow> RatchetState \<Rightarrow> RatchetState \<Rightarrow> (bytes \<times> bytes list \<times> nat list) list \<Rightarrow> bytes result list list" where
  "converse C X Y [] = []"
| "converse C X Y (b # bs) =
    (case b of (rnd, ps, js) \<Rightarrow>
       let (X', Y', rs) = burst C rnd ps js X Y in rs # converse C Y' X' bs)"

definition burst_ok :: "bytes \<times> bytes list \<times> nat list \<Rightarrow> bool" where
  "burst_ok b \<longleftrightarrow> (case b of (rnd, ps, js) \<Rightarrow>
     ps \<noteq> [] \<and> length ps \<le> 256 \<and> (\<forall>p\<in>set ps. length p \<le> 2 ^ 36)
     \<and> distinct js \<and> set js = {..<length ps})"

lemma converse_decrypts:
  assumes C: "crypto_ok C" and bs: "\<forall>b\<in>set bs. burst_ok b" and lead: "lead C X Y"
    and fresh: "distinct (send_ratchet_key Y # send_ratchet_key X # map (\<lambda>b. x25519_public C (fst b)) bs)"
  shows "converse C X Y bs = map (\<lambda>(rnd, ps, js). map (\<lambda>j. Ok (ps ! j)) js) bs"
  using bs lead fresh
proof (induction bs arbitrary: X Y)
  case (Cons b bs)
  obtain rnd ps js where b: "b = (rnd, ps, js)" by (cases b)
  then have ok: "ps \<noteq> []" "length ps \<le> 256" "\<forall>p\<in>set ps. length p \<le> 2 ^ 36" "distinct js"
      "set js = {..<length ps}"
    using Cons.prems(1) by (auto simp: burst_ok_def)
  have "x25519_public C rnd \<noteq> send_ratchet_key Y" using Cons.prems(3) b by auto
  from burst_turn [OF C Cons.prems(2) ok(4,5,1,2,3) this] obtain X' Y' where
    t: "burst C rnd ps js X Y = (X', Y', map (\<lambda>j. Ok (ps ! j)) js)" "lead C Y' X'"
      "send_ratchet_key X' = send_ratchet_key X" "send_ratchet_key Y' = x25519_public C rnd"
    by blast
  have "distinct (send_ratchet_key X' # send_ratchet_key Y' # map (\<lambda>b. x25519_public C (fst b)) bs)"
    using Cons.prems(3) t(3,4) b by auto
  from Cons.IH [OF _ t(2) this] Cons.prems(1) t(1) b show ?case by simp
qed simp

section \<open>Resource bounds\<close>

text \<open>All states a session can get into, with whatever an attacker feeds to \<^verbatim>\<open>decrypt\<close>.\<close>

inductive reachable :: "crypto \<Rightarrow> RatchetState \<Rightarrow> bool" for C where
  sender: "reachable C (init_sender C rnd ss pk)"
| receiver: "reachable C (init_receiver C ss sk)"
| encrypting: "reachable C s \<Longrightarrow> reachable C (fst (encrypt C s p))"
| decrypting: "reachable C s \<Longrightarrow> reachable C (fst (decrypt C rnd s c rk n))"

definition store_ok :: "RatchetState \<Rightarrow> bool" where
  "store_ok s \<longleftrightarrow> distinct (map fst (skipped_keys s)) \<and> length (skipped_keys s) \<le> MAX_TOTAL_SKIPPED"

lemma skip_messages_store:
  assumes "store_ok s" and "skip_messages C s n = (s', r)"
  shows "store_ok s' \<and> length (skipped_keys s') \<le> length (skipped_keys s) + unat MAX_SKIP"
proof (cases "recv_chain_key s = None \<or> recv_ratchet_key s = None \<or> r \<noteq> Ok ()")
  case True
  with assms have "s' = s"
    by (auto simp: skip_messages_def Let_def case_prod_beta split: option.splits if_splits)
  with assms(1) show ?thesis by simp
next
  case False
  then obtain ck rk where k: "recv_chain_key s = Some ck" "recv_ratchet_key s = Some rk" by auto
  let ?k = "saturating_sub n (recv_count s)"
  let ?l = "skip_loop C rk (unat ?k) (recv_count s) ck (skipped_keys s)"
  from False assms(2) k have s': "skipped_keys s' = snd ?l" and c: "\<not> MAX_SKIP < ?k"
      "length (skipped_keys s) + unat ?k \<le> MAX_TOTAL_SKIPPED"
    by (auto simp: skip_messages_def Let_def case_prod_beta split: if_splits)
  from c(1) have "unat ?k \<le> unat MAX_SKIP" by (simp add: not_less word_le_nat_alt)
  with s' c(2) assms(1) skip_loop_length [of C rk "unat ?k" "recv_count s" ck "skipped_keys s"]
  show ?thesis by (simp add: store_ok_def skip_loop_distinct)
qed

lemma store_ok_cong: "skipped_keys s = skipped_keys t \<Longrightarrow> store_ok s = store_ok t"
  by (simp add: store_ok_def)

lemma decrypt_store:
  assumes "store_ok s" and "decrypt C rnd s c rk n = (s', r)"
  shows "store_ok s' \<and> length (skipped_keys s') \<le> length (skipped_keys s) + unat MAX_SKIP"
proof (cases "map_of (skipped_keys s) (rk, n)")
  case (Some mk)
  with assms show ?thesis
    using length_AList_delete [of "(rk, n)" "skipped_keys s"]
    by (auto simp: decrypt_def store_ok_def distinct_delete)
next
  case None
  let ?s1 = "if recv_ratchet_key s \<noteq> Some rk then dh_ratchet_step C rnd s rk else s"
  obtain s2 r2 where s2: "skip_messages C ?s1 n = (s2, r2)" by force
  have sk: "skipped_keys ?s1 = skipped_keys s" by simp
  then have "store_ok ?s1" using assms(1) store_ok_cong by blast
  from skip_messages_store [OF this s2] sk
  have "store_ok s2 \<and> length (skipped_keys s2) \<le> length (skipped_keys s) + unat MAX_SKIP" by simp
  moreover have "skipped_keys s' = skipped_keys s2"
    using assms(2) None s2
    by (auto simp: decrypt_def Let_def case_prod_beta split: result.splits option.splits)
  ultimately show ?thesis by (simp add: store_ok_def)
qed

lemma reachable_store: "reachable C s \<Longrightarrow> store_ok s"
proof (induction rule: reachable.induct)
  case (decrypting s rnd c rk n)
  then show ?case using decrypt_store [of s C rnd c rk n] by (metis prod.collapse)
qed (simp_all add: store_ok_def init_sender_def init_receiver_def encrypt_def Let_def case_prod_beta
      split: option.splits)

section \<open>Replays\<close>

text \<open>
  \<^verbatim>\<open>skip_messages\<close> assigns \<^verbatim>\<open>recv_count := until\<close> also when \<^verbatim>\<open>until\<close> lies behind the counter, while the
  chain key is never rewound.
\<close>

lemma replay_state:
  assumes inv: "recv_inv C rk ck D s" and j: "j \<in> D" and n: "unat (recv_count s) \<le> 256"
    and s': "s' = fst (decrypt C rnd s c rk j)"
  shows "recv_count s' = j + 1 \<and> recv_ratchet_key s' = Some rk \<and> skipped_keys s' = skipped_keys s
    \<and> recv_chain_key s' = Some (chain C ck (Suc (unat (recv_count s))))"
proof -
  from inv j have lt: "j < recv_count s" and k: "map_of (skipped_keys s) (rk, j) = None"
    by (auto simp: recv_inv_def)
  from lt have "\<not> recv_count s \<le> j" by (simp add: not_le)
  then have "saturating_sub j (recv_count s) = 0" by (simp add: saturating_sub_def)
  with inv n have "skip_messages C s j = (s\<lparr>skipped_keys := skipped_keys s,
      recv_chain_key := Some (chain C ck (unat (recv_count s))), recv_count := j\<rparr>, Ok ())"
    by (simp add: skip_messages_def recv_inv_def Let_def MAX_SKIP_def MAX_TOTAL_SKIPPED_def)
  with s' k inv show ?thesis
    by (simp add: decrypt_def recv_inv_def kdf_chain_at Let_def del: chain.simps)
qed

lemma replay_next_key:
  assumes rk: "recv_ratchet_key s = Some rk" and ck: "recv_chain_key s = Some (chain C ck m)"
    and lt: "recv_count s \<le> n" and len: "length (skipped_keys s) \<le> 256" and n: "unat n \<le> 256"
    and none: "map_of (skipped_keys s) (rk, n) = None"
  shows "snd (decrypt C rnd s c rk n) =
    (let mk = msg_key C ck (m + unat (n - recv_count s))
     in aead_decrypt C mk (nonce_material mk n) c rk)"
proof -
  let ?k = "n - recv_count s"
  have "unat ?k \<le> 256" using lt n by (simp add: unat_sub word_le_nat_alt)
  then have "\<not> MAX_SKIP < ?k" "\<not> MAX_TOTAL_SKIPPED < length (skipped_keys s) + unat ?k"
    using len by (simp_all add: MAX_SKIP_def MAX_TOTAL_SKIPPED_def word_less_nat_alt)
  then show ?thesis
    using rk ck lt none skip_loop_chain [of C rk "unat ?k" "recv_count s" ck m "skipped_keys s"]
    by (simp add: decrypt_def skip_messages_def saturating_sub_def Let_def case_prod_beta msg_key_def)
qed

section \<open>Properties\<close>

text \<open>C2. Conversations work: starting from a sender and a receiver that share a secret, peers who take
  turns, each turn up to 256 messages delivered to the other side in any order, decrypt every message
  to what was sent, for any number of turns.  The hypotheses are the laws of the primitives and that
  no two of the generated ratchet keys coincide.\<close>

theorem conversation_decrypts:
  assumes "crypto_ok C" and "\<forall>b\<in>set bs. burst_ok b"
    and "distinct (map (x25519_public C) (b0 # a0 # map fst bs))"
  shows "converse C (init_sender C a0 ss (x25519_public C b0)) (init_receiver C ss b0) bs
    = map (\<lambda>(rnd, ps, js). map (\<lambda>j. Ok (ps ! j)) js) bs"
  by (rule converse_decrypts [OF assms(1,2) lead_init [OF assms(1)]])
     (use assms(3) in \<open>simp add: init_sender_def init_receiver_def Let_def case_prod_beta comp_def\<close>)

theorem conversation_decrypts_witness:
  "converse demo_crypto (init_sender demo_crypto [1] [9] (x25519_public demo_crypto [2]))
      (init_receiver demo_crypto [9] [2])
      [([3], [[104], [105], [106]], [2, 0, 1]), ([4], [[107], [108]], [1, 0]), ([5], [[109]], [0])]
   = [[Ok [106], Ok [104], Ok [105]], [Ok [108], Ok [107]], [Ok [109]]]"
proof -
  let ?bs = "[([3], [[104], [105], [106]], [2, 0, 1]), ([4], [[107], [108]], [1, 0]), ([5], [[109]], [0])]
    :: (bytes \<times> bytes list \<times> nat list) list"
  have "\<forall>b\<in>set ?bs. burst_ok b" by (auto simp: burst_ok_def lessThan_Suc)
  moreover have "distinct (map (x25519_public demo_crypto) ([2] # [1] # map fst ?bs))"
    by (simp add: demo_crypto_def fit_def)
  ultimately have "converse demo_crypto (init_sender demo_crypto [1] [9] (x25519_public demo_crypto [2]))
      (init_receiver demo_crypto [9] [2]) ?bs = map (\<lambda>(rnd, ps, js). map (\<lambda>j. Ok (ps ! j)) js) ?bs"
    by (rule conversation_decrypts [OF demo_crypto_ok])
  also have "\<dots> = [[Ok [106], Ok [104], Ok [105]], [Ok [108], Ok [107]], [Ok [109]]]" by simp
  finally show ?thesis .
qed



text \<open>C33. Memory stays bounded under attack: in every state a session can reach, with arbitrary input to
  \<^verbatim>\<open>decrypt\<close>, at most 2048 skipped keys are stored, and one call adds at most 256.\<close>

theorem skipped_keys_bounded:
  assumes "reachable C s"
  shows "length (skipped_keys s) \<le> MAX_TOTAL_SKIPPED
    \<and> length (skipped_keys (fst (decrypt C rnd s c rk n))) \<le> length (skipped_keys s) + 256"
  using reachable_store [OF assms] decrypt_store [of s C rnd c rk n]
  by (cases "decrypt C rnd s c rk n") (simp add: MAX_SKIP_def store_ok_def)

theorem skipped_keys_bounded_witness:
  "length (skipped_keys (fst (decrypt demo_crypto [3] (init_receiver demo_crypto [9] [2]) [] [1] 5))) \<le> 256"
  using skipped_keys_bounded [OF reachable.receiver, of demo_crypto "[9]" "[2]" "[3]" "[]" "[1]" 5]
  by (simp add: init_receiver_def)

text \<open>C40. A replay breaks the session (\<^verbatim>\<open>ratchet.rs\<close>, \<^verbatim>\<open>skip_messages\<close>): when a message number that was
  already delivered is presented again, with any ciphertext, the receiver's counter is set back behind
  it while the chain key moves on; the next genuine message is then opened with the key of a later
  position of the chain instead of its own.\<close>

theorem replay_desynchronises:
  assumes C: "crypto_ok C" and js: "distinct js" "set js = {..<length ps}"
    and ps: "length ps \<le> 256" "\<forall>p\<in>set ps. length p \<le> 2 ^ 36" and j: "j < length ps"
  shows "\<exists>X' Y' ck. burst C rnd ps js (init_sender C a0 ss (x25519_public C b0)) (init_receiver C ss b0)
        = (X', Y', map (\<lambda>j. Ok (ps ! j)) js)
    \<and> send_chain_key X' = Some (chain C ck (length ps))
    \<and> (let rk = x25519_public C a0;
           Y2 = fst (decrypt C rnd' Y' forged rk (word_of_nat j));
           n = word_of_nat (length ps);
           wrong = msg_key C ck (2 * length ps - j)
       in recv_count Y2 = word_of_nat (Suc j)
        \<and> snd (decrypt C rnd'' Y2 c rk n) = aead_decrypt C wrong (nonce_material wrong n) c rk)"
proof -
  let ?X = "init_sender C a0 ss (x25519_public C b0)"
  let ?rk = "x25519_public C a0"
  let ?n = "word_of_nat (length ps) :: u32"
  have rk: "send_ratchet_key ?X = ?rk" by (simp add: init_sender_def Let_def case_prod_beta)
  have "j \<in> set js" unfolding js(2) using j by simp
  then have ne: "js \<noteq> []" by auto
  obtain X' Y' ck where b: "burst C rnd ps js ?X (init_receiver C ss b0) = (X', Y', map (\<lambda>j. Ok (ps ! j)) js)"
    and inv: "recv_inv C ?rk ck (word_of_nat ` {..<length ps}) Y'" "unat (recv_count Y') \<le> length ps"
    and X': "send_chain_key X' = Some (chain C ck (length ps))"
    using burst_partial [OF C lead_init [OF C] ne js(1) _ ps, of rnd a0 ss b0] js(2) rk by auto
  have u: "unat (word_of_nat i :: u32) = i" if "i \<le> length ps" for i
    using that ps(1) by (simp add: unat_of_nat_small)
  have "\<forall>i<length ps. word_of_nat i < recv_count Y'" using inv(1) by (simp add: recv_inv_def)
  then have "length ps - 1 < unat (recv_count Y')"
    using u [of "length ps - 1"] j unfolding word_less_nat_alt by (metis diff_less less_nat_zero_code
        linorder_neqE_nat diff_le_self zero_less_one)
  then have cnt: "unat (recv_count Y') = length ps" using inv(2) by simp
  have n: "recv_count Y' = ?n" using arg_cong [OF cnt, of "word_of_nat :: nat \<Rightarrow> u32"] by simp
  let ?Y2 = "fst (decrypt C rnd' Y' forged ?rk (word_of_nat j))"
  have Y2: "recv_count ?Y2 = word_of_nat j + 1 \<and> recv_ratchet_key ?Y2 = Some ?rk
      \<and> skipped_keys ?Y2 = [] \<and> recv_chain_key ?Y2 = Some (chain C ck (Suc (length ps)))"
    using replay_state [OF inv(1), of "word_of_nat j" ?Y2 rnd' forged] all_delivered [OF inv] j ps(1) cnt
    by simp
  have cntY2: "recv_count ?Y2 = word_of_nat (Suc j)" using Y2 by (simp add: add.commute)
  have le: "recv_count ?Y2 \<le> ?n" unfolding cntY2 word_le_nat_alt using u [of "Suc j"] u [of "length ps"] j by simp
  then have "unat (?n - recv_count ?Y2) = length ps - Suc j"
    unfolding cntY2 using u [of "Suc j"] u [of "length ps"] j by (simp add: unat_sub)
  then have k: "Suc (length ps) + unat (?n - recv_count ?Y2) = 2 * length ps - j" using j by simp
  have "snd (decrypt C rnd'' ?Y2 c ?rk ?n) =
      (let mk = msg_key C ck (2 * length ps - j) in aead_decrypt C mk (nonce_material mk ?n) c ?rk)"
    using replay_next_key [of ?Y2 ?rk C ck "Suc (length ps)" ?n rnd'' c] Y2 le u [of "length ps"] ps(1)
    unfolding k by simp
  with b X' cntY2 show ?thesis by (auto simp: Let_def)
qed

theorem replay_desynchronises_witness:
  "\<exists>X' Y' ck. burst demo_crypto [7] [[1], [2]] [0, 1] (init_sender demo_crypto [1] [9] (x25519_public demo_crypto [2]))
        (init_receiver demo_crypto [9] [2]) = (X', Y', map (\<lambda>j. Ok ([[1], [2]] ! j)) [0, 1])
    \<and> send_chain_key X' = Some (chain demo_crypto ck (length [[1], [2 :: u8]]))
    \<and> (let rk = x25519_public demo_crypto [1];
           Y2 = fst (decrypt demo_crypto [8] Y' [] rk (word_of_nat 0));
           n = word_of_nat (length [[1], [2 :: u8]]);
           wrong = msg_key demo_crypto ck (2 * length [[1], [2 :: u8]] - 0)
       in recv_count Y2 = word_of_nat (Suc 0)
        \<and> snd (decrypt demo_crypto [9] Y2 [5] rk n)
            = aead_decrypt demo_crypto wrong (nonce_material wrong n) [5] rk)"
  by (rule replay_desynchronises [OF demo_crypto_ok]) auto

end
