(* ===== verification/Nat_Stun.thy ===== *)
theory Nat_Stun
  imports Cypher_Prelude
begin

text \<open>
  Address discovery and NAT traversal: the STUN server of the signaling service
  (\<^verbatim>\<open>services/signaling/src/stun.rs\<close>), the STUN client, the candidate ordering, the hole puncher and the ICE
  agent (\<^verbatim>\<open>crates/cypher-nat/src/stun.rs\<close>, \<^verbatim>\<open>candidate.rs\<close>, \<^verbatim>\<open>hole_punch.rs\<close>, \<^verbatim>\<open>ice.rs\<close>).  What a UDP socket
  delivers is an argument: one outcome per receive call.
\<close>

section \<open>Socket addresses\<close>

text \<open>\<^verbatim>\<open>std::net::SocketAddr\<close>; an IPv6 address also carries flow information and a scope.\<close>

datatype SocketAddr =
    SockV4 (ip4: u32) (port4: u16)
  | SockV6 (ip6: "128 word") (port6: u16) (flowinfo: u32) (scope_id: u32)

primrec addr_port :: "SocketAddr \<Rightarrow> u16" where
  "addr_port (SockV4 a p) = p"
| "addr_port (SockV6 a p f s) = p"

text \<open>What survives of an address that is rebuilt from its IP and port alone (\<^verbatim>\<open>SocketAddr::new\<close>).\<close>

primrec ip_and_port :: "SocketAddr \<Rightarrow> SocketAddr" where
  "ip_and_port (SockV4 a p) = SockV4 a p"
| "ip_and_port (SockV6 a p f s) = SockV6 a p 0 0"

interpretation u128be: fixed_codec "to_be 16 :: 128 word \<Rightarrow> bytes" "from_be" 16
  by unfold_locales (simp_all add: from_be_to_be)

section \<open>Server\<close>

definition STUN_MAGIC_COOKIE :: u32 where "STUN_MAGIC_COOKIE = 0x2112A442"
definition BINDING_REQUEST :: u16 where "BINDING_REQUEST = 0x0001"
definition BINDING_RESPONSE :: u16 where "BINDING_RESPONSE = 0x0101"
definition ATTR_MAPPED_ADDRESS :: u16 where "ATTR_MAPPED_ADDRESS = 0x0001"
definition ATTR_XOR_MAPPED_ADDRESS :: u16 where "ATTR_XOR_MAPPED_ADDRESS = 0x0020"
definition STUN_HEADER_SIZE :: nat where "STUN_HEADER_SIZE = 20"

definition x_port_of :: "u16 \<Rightarrow> u16" where
  "x_port_of p = xor p (ucast (drop_bit 16 STUN_MAGIC_COOKIE))"

definition stun_xor_key :: "bytes \<Rightarrow> bytes" where
  "stun_xor_key transaction_id = u32_be STUN_MAGIC_COOKIE @ transaction_id"

text \<open>The loop \<^verbatim>\<open>for i in 0..16\<close> that xors address and key byte by byte.\<close>

definition xor_bytes :: "bytes \<Rightarrow> bytes \<Rightarrow> bytes" where
  "xor_bytes a k = map2 xor a k"

primrec stun_attr_value :: "bytes \<Rightarrow> SocketAddr \<Rightarrow> bytes" where
  "stun_attr_value transaction_id (SockV4 a p) =
    [0x00, 0x01] @ u16_be (x_port_of p) @ u32_be (xor a STUN_MAGIC_COOKIE)"
| "stun_attr_value transaction_id (SockV6 a p f s) =
    [0x00, 0x02] @ u16_be (x_port_of p) @ xor_bytes (to_be 16 a) (stun_xor_key transaction_id)"

definition build_binding_response :: "bytes \<Rightarrow> SocketAddr \<Rightarrow> bytes option" where
  "build_binding_response transaction_id peer =
    (let attr_value = stun_attr_value transaction_id peer;
         attr_len = (word_of_nat (length attr_value) :: u16);
         msg_attrs_len = 4 + length attr_value
     in Some (u16_be BINDING_RESPONSE @ u16_be (word_of_nat msg_attrs_len) @ u32_be STUN_MAGIC_COOKIE
          @ transaction_id @ u16_be ATTR_XOR_MAPPED_ADDRESS @ u16_be attr_len @ attr_value))"

text \<open>One iteration of \<^verbatim>\<open>StunServer::run\<close> on a received datagram: the response sent back, if any.\<close>

definition stun_serve :: "bytes \<Rightarrow> SocketAddr \<Rightarrow> bytes option" where
  "stun_serve datagram peer =
    (let data = take 576 datagram in
     if length data < STUN_HEADER_SIZE then None
     else if (from_be (slice_of 0 2 data) :: u16) \<noteq> BINDING_REQUEST
          \<or> (from_be (slice_of 4 8 data) :: u32) \<noteq> STUN_MAGIC_COOKIE then None
     else build_binding_response (slice_of 8 20 data) peer)"

section \<open>Client\<close>

definition build_binding_request :: "bytes \<Rightarrow> bytes" where
  "build_binding_request transaction_id =
    u16_be BINDING_REQUEST @ u16_be 0 @ u32_be STUN_MAGIC_COOKIE @ transaction_id"

definition parse_xor_mapped_address :: "bytes \<Rightarrow> bytes \<Rightarrow> SocketAddr result" where
  "parse_xor_mapped_address data transaction_id =
    (if length data < 8 then Err (Nat ''XOR-MAPPED-ADDRESS too short'')
     else let family = data ! 1; port = x_port_of (from_be (slice_of 2 4 data)) in
       if family = 0x01 then Ok (SockV4 (xor (from_be (slice_of 4 8 data)) STUN_MAGIC_COOKIE) port)
       else if family = 0x02 then
         (if length data < 20 then Err (Nat ''XOR-MAPPED-ADDRESS IPv6 too short'')
          else Ok (SockV6 (from_be (xor_bytes (slice_of 4 20 data) (stun_xor_key transaction_id))) port 0 0))
       else Err (Nat ''unknown address family''))"

definition parse_mapped_address :: "bytes \<Rightarrow> SocketAddr result" where
  "parse_mapped_address data =
    (if length data < 8 then Err (Nat ''MAPPED-ADDRESS too short'')
     else let family = data ! 1; port = (from_be (slice_of 2 4 data) :: u16) in
       if family = 0x01 then Ok (SockV4 (from_be (slice_of 4 8 data)) port)
       else if family = 0x02 then
         (if length data < 20 then Err (Nat ''MAPPED-ADDRESS IPv6 too short'')
          else Ok (SockV6 (from_be (slice_of 4 20 data)) port 0 0))
       else Err (Nat ''unknown address family''))"

text \<open>
  The attribute loop.  \<^verbatim>\<open>(attr_len + 3) & !3\<close> rounds up to a multiple of four; every iteration advances the
  offset by at least the four bytes of the attribute header, so the loop ends.
\<close>

function stun_attrs ::
  "bytes \<Rightarrow> bytes \<Rightarrow> nat \<Rightarrow> SocketAddr option \<Rightarrow> SocketAddr option
    \<Rightarrow> (SocketAddr option \<times> SocketAddr option) result" where
  "stun_attrs transaction_id attr_data offset xor_result mapped_result =
    (if \<not> offset + 4 \<le> length attr_data then Ok (xor_result, mapped_result)
     else let attr_type = (from_be (slice_of offset (offset + 2) attr_data) :: u16);
              attr_len = unat (from_be (slice_of (offset + 2) (offset + 4) attr_data) :: u16);
              value_start = offset + 4;
              value_end = value_start + attr_len
       in if length attr_data < value_end then Ok (xor_result, mapped_result)
          else let value = slice_of value_start value_end attr_data;
                   next_offset = value_start + 4 * ((attr_len + 3) div 4)
            in if attr_type = ATTR_XOR_MAPPED_ADDRESS then
                 and_then (parse_xor_mapped_address value transaction_id)
                   (\<lambda>a. stun_attrs transaction_id attr_data next_offset (Some a) mapped_result)
               else if attr_type = ATTR_MAPPED_ADDRESS then
                 and_then (parse_mapped_address value)
                   (\<lambda>a. stun_attrs transaction_id attr_data next_offset xor_result (Some a))
               else stun_attrs transaction_id attr_data next_offset xor_result mapped_result)"
  by pat_completeness auto

termination
  by (relation "measure (\<lambda>(t, d, offset, x, m). length d - offset)") auto

declare stun_attrs.simps [simp del]

definition parse_binding_response :: "bytes \<Rightarrow> bytes \<Rightarrow> SocketAddr result" where
  "parse_binding_response data transaction_id =
    (if length data < STUN_HEADER_SIZE then Err (Nat ''STUN response too short'')
     else if (from_be (slice_of 0 2 data) :: u16) \<noteq> BINDING_RESPONSE then Err (Nat ''expected Binding Response'')
     else let msg_len = unat (from_be (slice_of 2 4 data) :: u16) in
       if (from_be (slice_of 4 8 data) :: u32) \<noteq> STUN_MAGIC_COOKIE then Err (Nat ''invalid STUN magic cookie'')
       else if slice_of 8 20 data \<noteq> transaction_id then Err (Nat ''STUN transaction ID mismatch'')
       else let attr_data = drop STUN_HEADER_SIZE data in
         if length attr_data < msg_len then Err (Nat ''STUN response truncated'')
         else and_then (stun_attrs transaction_id (take msg_len attr_data) 0 None None)
           (\<lambda>(xor_result, mapped_result).
             ok_or (case xor_result of Some a \<Rightarrow> Some a | None \<Rightarrow> mapped_result)
               (Nat ''no MAPPED-ADDRESS in STUN response'')))"

text \<open>What one attempt sees: the send fails, the receive fails, two seconds pass, or a datagram arrives.\<close>

datatype attempt = SendFailed string | RecvFailed string | NoAnswer | Answer bytes

fun binding_attempts :: "bytes \<Rightarrow> (nat \<Rightarrow> attempt) \<Rightarrow> nat \<Rightarrow> nat \<Rightarrow> SocketAddr result" where
  "binding_attempts transaction_id net attempts 0 = Err Timeout"
| "binding_attempts transaction_id net attempts (Suc left) =
    (case net attempts of
       SendFailed e \<Rightarrow> Err (Io e)
     | RecvFailed e \<Rightarrow> Err (Io e)
     | Answer data \<Rightarrow> parse_binding_response (take 576 data) transaction_id
     | NoAnswer \<Rightarrow> binding_attempts transaction_id net (attempts + 1) left)"

definition binding_request :: "bytes \<Rightarrow> (nat \<Rightarrow> attempt) \<Rightarrow> SocketAddr result" where
  "binding_request transaction_id net = binding_attempts transaction_id net 0 3"

section \<open>The server's answer is the address the client finds\<close>

lemma xor_xor_cancel [simp]: "xor (xor a k) k = (a :: 'w::len word)"
  by (simp add: xor.assoc)

lemma x_port_of_invol [simp]: "x_port_of (x_port_of p) = p"
  by (simp add: x_port_of_def)

lemma xor_bytes_invol:
  "length a \<le> length k \<Longrightarrow> xor_bytes (xor_bytes a k) k = a"
  unfolding xor_bytes_def by (induction a k rule: list_induct2') simp_all

lemma length_xor_bytes [simp]: "length (xor_bytes a k) = min (length a) (length k)"
  by (simp add: xor_bytes_def)

lemma length_stun_xor_key [simp]: "length (stun_xor_key t) = 4 + length t"
  by (simp add: stun_xor_key_def)

lemma parse_stun_attr_value:
  assumes "length t = 12"
  shows "parse_xor_mapped_address (stun_attr_value t a) t = Ok (ip_and_port a)"
proof (cases a)
  case (SockV4 i p)
  then show ?thesis
    by (simp add: parse_xor_mapped_address_def slice_of_def u16be.dec_enc u32be.dec_enc)
next
  case (SockV6 i p f s)
  then show ?thesis using assms
    by (simp add: parse_xor_mapped_address_def slice_of_def u16be.dec_enc u128be.dec_enc xor_bytes_invol)
qed

lemma length_stun_attr_value:
  "length t = 12 \<Longrightarrow> length (stun_attr_value t a) = (case a of SockV4 _ _ \<Rightarrow> 8 | SockV6 _ _ _ _ \<Rightarrow> 20)"
  by (cases a) simp_all

lemma stun_attrs_end: "length d < offset + 4 \<Longrightarrow> stun_attrs t d offset x m = Ok (x, m)"
  by (simp add: stun_attrs.simps)

lemma stun_attrs_response:
  assumes t: "length t = 12"
  shows "stun_attrs t (u16_be ATTR_XOR_MAPPED_ADDRESS @ u16_be (word_of_nat (length (stun_attr_value t a)))
      @ stun_attr_value t a) 0 None None = Ok (Some (ip_and_port a), None)"
proof -
  let ?v = "stun_attr_value t a"
  have l: "length ?v = 8 \<or> length ?v = 20"
    using length_stun_attr_value [OF t, of a] by (cases a) auto
  then have u: "unat (word_of_nat (length ?v) :: u16) = length ?v"
    by auto
  have e: "stun_attrs t (u16_be ATTR_XOR_MAPPED_ADDRESS @ u16_be (word_of_nat (length ?v)) @ ?v)
      (4 + 4 * ((length ?v + 3) div 4)) (Some (ip_and_port a)) None = Ok (Some (ip_and_port a), None)"
    by (rule stun_attrs_end) (use l in auto)
  show ?thesis
    using l e parse_stun_attr_value [OF t, of a]
    by (subst stun_attrs.simps)
       (simp add: slice_of_def u16be.dec_enc u Let_def del: stun_attr_value.simps)
qed

lemma parse_build_binding_response:
  assumes t: "length t = 12"
  shows "\<exists>r. build_binding_response t a = Some r \<and> length r \<le> 44
    \<and> parse_binding_response r t = Ok (ip_and_port a)"
proof -
  let ?v = "stun_attr_value t a"
  have l: "length ?v = 8 \<or> length ?v = 20"
    using length_stun_attr_value [OF t, of a] by (cases a) auto
  then have u: "unat (word_of_nat (4 + length ?v) :: u16) = 4 + length ?v"
    by auto
  show ?thesis
    using l t stun_attrs_response [OF t, of a]
    by (auto simp: build_binding_response_def parse_binding_response_def STUN_HEADER_SIZE_def slice_of_def
        u16be.dec_enc u32be.dec_enc u Let_def simp del: of_nat_add)
qed

lemma stun_serve_request:
  "length t = 12 \<Longrightarrow> stun_serve (build_binding_request t) a = build_binding_response t a"
  by (simp add: stun_serve_def build_binding_request_def STUN_HEADER_SIZE_def slice_of_def
      u16be.dec_enc u32be.dec_enc Let_def)

lemma binding_attempts_skip:
  "k < n \<Longrightarrow> \<forall>j<k. net (i + j) = NoAnswer \<Longrightarrow> net (i + k) = Answer d \<Longrightarrow>
    binding_attempts t net i n = parse_binding_response (take 576 d) t"
proof (induction k arbitrary: i n)
  case 0 then show ?case by (cases n) auto
next
  case (Suc k)
  then obtain m where n: "n = Suc m" by (cases n) auto
  have "net i = NoAnswer" using Suc.prems(2) by (metis add_0_right zero_less_Suc)
  moreover have "\<forall>j<k. net (i + 1 + j) = NoAnswer" using Suc.prems(2) by auto
  ultimately show ?case using Suc.IH [of m "i + 1"] Suc.prems n by simp
qed

text \<open>Address discovery: whenever one of the first three attempts of the STUN client is answered by the server, which
  has seen the request come from address \<^verbatim>\<open>a\<close>, and the earlier ones timed out, the client returns exactly the IP
  and port of \<^verbatim>\<open>a\<close>, for IPv4 and IPv6.
\<close>

theorem stun_discovers_address:
  assumes "length t = 12" "k < 3" "\<forall>j<k. net j = NoAnswer"
    and "stun_serve (build_binding_request t) a = Some r" "net k = Answer r"
  shows "binding_request t net = Ok (ip_and_port a)"
proof -
  have "length r \<le> 44" "parse_binding_response r t = Ok (ip_and_port a)"
    using assms(4) parse_build_binding_response [OF assms(1), of a]
    by (auto simp: stun_serve_request [OF assms(1)])
  then show ?thesis
    using binding_attempts_skip [of k 3 net 0 r t] assms(2,3,5) by (simp add: binding_request_def)
qed

definition demo_net :: "nat \<Rightarrow> attempt" where
  "demo_net j = (if j = 0 then NoAnswer
     else Answer (the (stun_serve (build_binding_request (replicate 12 7)) (SockV4 0xC0A80101 12345))))"

theorem stun_discovers_address_witness:
  "binding_request (replicate 12 7) demo_net = Ok (SockV4 0xC0A80101 12345)"
proof -
  obtain r where "stun_serve (build_binding_request (replicate 12 7)) (SockV4 0xC0A80101 12345) = Some r"
    by (auto simp: stun_serve_request build_binding_response_def Let_def)
  then show ?thesis
    using stun_discovers_address [of "replicate 12 7" 1 demo_net "SockV4 0xC0A80101 12345" r]
    by (simp add: demo_net_def)
qed

section \<open>Candidates\<close>

datatype CandidateType = HostCandidate | ServerReflexiveCandidate | RelayCandidate

record Candidate =
  candidate_type :: CandidateType
  addr :: SocketAddr
  priority :: u32

definition candidate_host :: "SocketAddr \<Rightarrow> Candidate" where
  "candidate_host a = \<lparr>candidate_type = HostCandidate, addr = a, priority = 300\<rparr>"

definition candidate_server_reflexive :: "SocketAddr \<Rightarrow> Candidate" where
  "candidate_server_reflexive a = \<lparr>candidate_type = ServerReflexiveCandidate, addr = a, priority = 200\<rparr>"

definition candidate_relay :: "SocketAddr \<Rightarrow> Candidate" where
  "candidate_relay a = \<lparr>candidate_type = RelayCandidate, addr = a, priority = 100\<rparr>"

text \<open>\<^verbatim>\<open>sort_by_key\<close> with \<^verbatim>\<open>Reverse(priority)\<close>: a stable sort, highest priority first.\<close>

definition sort_candidates :: "Candidate list \<Rightarrow> Candidate list" where
  "sort_candidates = sort_key (\<lambda>c. - uint (priority c))"

lemma set_sort_candidates [simp]: "set (sort_candidates cs) = set cs"
  by (simp add: sort_candidates_def)

lemma sort_candidates_descending: "sorted_wrt (\<lambda>c d. priority d \<le> priority c) (sort_candidates cs)"
proof -
  have "sorted (map (\<lambda>c. - uint (priority c)) (sort_candidates cs))"
    unfolding sort_candidates_def by (rule sorted_sort_key)
  then show ?thesis by (simp add: sorted_map word_le_def)
qed

text \<open>Candidates of equal priority keep the order in which they were added.\<close>

lemma sort_candidates_stable:
  "filter (\<lambda>c. priority c = k) (sort_candidates cs) = filter (\<lambda>c. priority c = k) cs"
  using sort_key_stable [of "\<lambda>c. - uint (priority c)" "- uint k" cs]
  by (simp add: sort_candidates_def word_uint_eq_iff)

section \<open>Hole punching\<close>

definition PUNCH_MAGIC :: bytes where "PUNCH_MAGIC = ascii ''PUNCH''"
definition PUNCH_ACK_MAGIC :: bytes where "PUNCH_ACK_MAGIC = ascii ''PUNCH_ACK''"

text \<open>
  What the \<^verbatim>\<open>select!\<close> of the punching loop sees: a tick with the time since the start, a datagram with its
  source, a failed receive, or the deadline timer.
\<close>

datatype punch_event = PunchTick nat | PunchRecv bytes SocketAddr | PunchRecvErr string | PunchDeadline

text \<open>The datagrams sent to the remote address, and the result once the loop returns.\<close>

fun punch :: "SocketAddr \<Rightarrow> nat \<Rightarrow> punch_event list \<Rightarrow> bytes list \<times> unit result option" where
  "punch remote_addr timeout [] = ([], None)"
| "punch remote_addr timeout (e # es) =
    (case e of
       PunchTick elapsed \<Rightarrow>
         if timeout \<le> elapsed then ([], Some (Err Timeout))
         else (let (sent, r) = punch remote_addr timeout es in (PUNCH_MAGIC # sent, r))
     | PunchRecvErr err \<Rightarrow> ([], Some (Err (Io err)))
     | PunchDeadline \<Rightarrow> ([], Some (Err Timeout))
     | PunchRecv datagram source \<Rightarrow>
         (let data = take 64 datagram in
          if source \<noteq> remote_addr then punch remote_addr timeout es
          else if data = PUNCH_ACK_MAGIC then ([], Some (Ok ()))
          else if data = PUNCH_MAGIC then
            (let (sent, r) = punch remote_addr timeout es in (PUNCH_ACK_MAGIC # sent, r))
          else punch remote_addr timeout es))"

definition punch_alive :: "SocketAddr \<Rightarrow> nat \<Rightarrow> punch_event \<Rightarrow> bool" where
  "punch_alive remote_addr timeout e =
    (case e of PunchTick elapsed \<Rightarrow> elapsed < timeout | PunchRecvErr _ \<Rightarrow> False | PunchDeadline \<Rightarrow> False
     | PunchRecv d source \<Rightarrow> source = remote_addr \<longrightarrow> take 64 d \<noteq> PUNCH_ACK_MAGIC)"

lemma punch_append_alive:
  "\<forall>e\<in>set es. punch_alive r t e \<Longrightarrow>
    snd (punch r t (es @ fs)) = snd (punch r t fs)"
  by (induction es) (auto simp: punch_alive_def Let_def split: punch_event.splits prod.splits)

text \<open>The hole counts as punched exactly when an acknowledgement from the remote address arrives in time.\<close>

lemma punch_ok_iff:
  "snd (punch r t es) = Some (Ok ()) \<longleftrightarrow>
    (\<exists>d post. dropWhile (punch_alive r t) es = PunchRecv d r # post \<and> take 64 d = PUNCH_ACK_MAGIC)"
proof (induction es)
  case (Cons e es)
  show ?case
  proof (cases "punch_alive r t e")
    case True
    then show ?thesis using punch_append_alive [of "[e]" r t es] Cons.IH by simp
  next
    case False
    then show ?thesis by (cases e) (auto simp: punch_alive_def)
  qed
qed simp

section \<open>The ICE agent\<close>

record IceAgent =
  local_candidates :: "Candidate list"
  remote_candidates :: "Candidate list"
  ice_local_addr :: SocketAddr

definition ice_agent_new :: "SocketAddr \<Rightarrow> IceAgent" where
  "ice_agent_new a = \<lparr>local_candidates = [], remote_candidates = [], ice_local_addr = a\<rparr>"

text \<open>The STUN exchange is the client's binding request on its own socket.\<close>

definition gather_candidates :: "bytes \<Rightarrow> (nat \<Rightarrow> attempt) \<Rightarrow> IceAgent \<Rightarrow> IceAgent \<times> Candidate list" where
  "gather_candidates transaction_id net ag =
    (let host = candidate_host (ice_local_addr ag);
         found = (case binding_request transaction_id net of
             Ok srflx_addr \<Rightarrow> [host, candidate_server_reflexive srflx_addr]
           | Err e \<Rightarrow> [host]);
         ag' = ag\<lparr>local_candidates := sort_candidates found\<rparr>
     in (ag', local_candidates ag'))"

definition add_remote_candidate :: "Candidate \<Rightarrow> IceAgent \<Rightarrow> IceAgent" where
  "add_remote_candidate c ag = ag\<lparr>remote_candidates := remote_candidates ag @ [c]\<rparr>"

text \<open>
  Each candidate is probed with its own run of the puncher, five seconds at most; \<^verbatim>\<open>None\<close> while a probe is
  still running.
\<close>

fun check_candidates ::
  "SocketAddr \<Rightarrow> (nat \<Rightarrow> punch_event list) \<Rightarrow> nat \<Rightarrow> Candidate list \<Rightarrow> (SocketAddr \<times> SocketAddr) result option" where
  "check_candidates here net i [] = Some (Err (Nat ''all connectivity checks failed''))"
| "check_candidates here net i (c # cs) =
    (case snd (punch (addr c) 5000 (net i)) of
       None \<Rightarrow> None
     | Some (Ok _) \<Rightarrow> Some (Ok (here, addr c))
     | Some (Err _) \<Rightarrow> check_candidates here net (i + 1) cs)"

definition check_connectivity ::
  "(nat \<Rightarrow> punch_event list) \<Rightarrow> IceAgent \<Rightarrow> (SocketAddr \<times> SocketAddr) result option" where
  "check_connectivity net ag =
    check_candidates (ice_local_addr ag) net 0 (sort_candidates (remote_candidates ag))"

lemma check_candidates_ok:
  "check_candidates here net i cs = Some (Ok (l, r)) \<longleftrightarrow>
    l = here \<and> (\<exists>n<length cs. r = addr (cs ! n) \<and> snd (punch r 5000 (net (i + n))) = Some (Ok ())
      \<and> (\<forall>m<n. \<exists>e. snd (punch (addr (cs ! m)) 5000 (net (i + m))) = Some (Err e)))"
proof (induction cs arbitrary: i)
  case (Cons c cs)
  let ?P = "\<lambda>n. r = addr ((c # cs) ! n) \<and> snd (punch r 5000 (net (i + n))) = Some (Ok ())
      \<and> (\<forall>m<n. \<exists>e. snd (punch (addr ((c # cs) ! m)) 5000 (net (i + m))) = Some (Err e))"
  have s: "(\<exists>n<length (c # cs). ?P n) \<longleftrightarrow> ?P 0 \<or> (\<exists>n<length cs. ?P (Suc n))"
    by (simp only: length_Cons Ex_less_Suc2)
  show ?case unfolding s using Cons.IH [of "i + 1"]
    by (auto simp: All_less_Suc2 split: option.splits result.splits)
qed simp

text \<open>
  The pair that connectivity checking reports answered the probe, and every candidate of a higher priority was
  tried before and failed.
\<close>

lemma check_connectivity_best:
  assumes "check_connectivity net ag = Some (Ok (l, r))"
  shows "l = ice_local_addr ag \<and> (\<exists>c\<in>set (remote_candidates ag). addr c = r
    \<and> (\<forall>d\<in>set (remote_candidates ag). priority c < priority d \<longrightarrow>
        (\<exists>n e. snd (punch (addr d) 5000 (net n)) = Some (Err e))))"
proof -
  let ?cs = "sort_candidates (remote_candidates ag)"
  have "check_candidates (ice_local_addr ag) net 0 ?cs = Some (Ok (l, r))"
    using assms unfolding check_connectivity_def .
  from this [unfolded check_candidates_ok add_0] obtain n
    where n: "n < length ?cs" "r = addr (?cs ! n)" "l = ice_local_addr ag"
      and f: "\<forall>m<n. \<exists>e. snd (punch (addr (?cs ! m)) 5000 (net m)) = Some (Err e)"
    by (elim conjE exE) (rule that, assumption+)
  have "\<exists>k e. snd (punch (addr d) 5000 (net k)) = Some (Err e)"
    if "d \<in> set (remote_candidates ag)" "priority (?cs ! n) < priority d" for d
  proof -
    from that(1) have "d \<in> set ?cs" by simp
    then obtain m where m: "m < length ?cs" "?cs ! m = d" unfolding in_set_conv_nth by blast
    have "m < n"
    proof (rule ccontr)
      assume "\<not> m < n"
      then consider "n = m" | "n < m" by linarith
      then have "priority d \<le> priority (?cs ! n)"
      proof cases
        case 2
        show ?thesis
          using sorted_wrt_nth_less [OF sort_candidates_descending 2 m(1)] m(2) by simp
      qed (simp add: m(2))
      then show False using that(2) by simp
    qed
    then show ?thesis using f m(2) by blast
  qed
  moreover have "?cs ! n \<in> set (remote_candidates ag)" using n(1) by (metis nth_mem set_sort_candidates)
  ultimately show ?thesis using n(2,3) by blast
qed

lemma punch_returns: "\<exists>e\<in>set es. \<not> punch_alive r t e \<Longrightarrow> snd (punch r t es) \<noteq> None"
proof (induction es)
  case (Cons e es)
  then show ?case
    by (cases "punch_alive r t e")
      (use punch_append_alive [of "[e]" r t es] in \<open>auto simp: punch_alive_def split: punch_event.splits\<close>)
qed simp

lemma check_candidates_returns:
  assumes "\<forall>i. PunchDeadline \<in> set (net i)"
  shows "check_candidates here net i cs \<noteq> None"
proof (induction cs arbitrary: i)
  case (Cons c cs)
  have "snd (punch (addr c) 5000 (net i)) \<noteq> None"
    using assms by (intro punch_returns) (auto simp: punch_alive_def intro!: bexI [of _ PunchDeadline])
  then show ?case using Cons.IH by (auto split: option.splits result.splits)
qed simp

lemma check_candidates_err:
  "check_candidates here net i cs = Some (Err e) \<Longrightarrow> n < length cs \<Longrightarrow> snd (punch (addr (cs ! n)) 5000 (net (i + n))) \<noteq> Some (Ok ())"
proof (induction cs arbitrary: i n)
  case (Cons c cs)
  then show ?case using Cons.IH [of "i + 1" "n - 1"] by (cases n) (auto split: option.splits result.splits)
qed simp



end
