(* ===== verification/Client_Store.thy ===== *)
theory Client_Store
  imports Crypto_Identity Double_Ratchet Service_Common Common_Types Nat_Stun
begin

text \<open>
  What a client keeps on disk (\<^verbatim>\<open>crates/cypher-client-core/src\<close>): encryption at rest (\<^verbatim>\<open>persistence/encryption.rs\<close>), the
  message store (\<^verbatim>\<open>persistence/mod.rs\<close>, \<^verbatim>\<open>persistence/sqlite.rs\<close>) and the identity file (\<^verbatim>\<open>identity_store.rs\<close>).
  The SQL statements of the source are translated one by one into operations on the three tables; the rows of the
  message table are in the order of their identifiers.  Whether the database enforces foreign keys and whether it
  accepts writes are part of its state.  The locale \<^verbatim>\<open>message_log\<close> is the contract of the trait \<^verbatim>\<open>MessageStore\<close> for
  messages, \<^verbatim>\<open>session_store\<close> adds ratchet states.
\<close>

section \<open>Third-party code and the outside world\<close>

text \<open>As one call of the client sees them: cryptography, JSON, the serialisation of ratchet states, compression, parsing
  of socket addresses, Argon2id, random bytes, the clock and a fresh file identifier.\<close>

record client_env =
  ce_crypto :: crypto
  ce_json :: json_lib
  ce_to_postcard :: "SerializableRatchetState \<Rightarrow> bytes option"
  ce_from_postcard :: "bytes \<Rightarrow> SerializableRatchetState option"
  ce_zstd_encode :: "bytes \<Rightarrow> bytes option"
  ce_zstd_decode :: "bytes \<Rightarrow> bytes option"
  ce_parse_addr :: "rstring \<Rightarrow> SocketAddr option"
  ce_argon2 :: "bytes \<Rightarrow> bytes \<Rightarrow> bytes option"
  ce_rnd :: "nat \<Rightarrow> bytes"
  ce_nonce :: "nat \<Rightarrow> bytes"
  ce_now :: u64
  ce_fresh_file :: FileId

text \<open>What the store relies on: decompression inverts compression, and reading back a serialised state gives the state.\<close>

definition codecs_ok :: "client_env \<Rightarrow> bool" where
  "codecs_ok E \<longleftrightarrow> crypto_ok (ce_crypto E)
    \<and> (\<forall>d z. ce_zstd_encode E d = Some z \<longrightarrow> ce_zstd_decode E z = Some d)
    \<and> (\<forall>s b. ce_to_postcard E s = Some b \<longrightarrow> ce_from_postcard E b = Some s)
    \<and> (\<forall>i. length (ce_nonce E i) = 12)"

section \<open>Encryption at rest\<close>

definition NONCE_LEN :: nat where "NONCE_LEN = 12"
definition COMPRESSION_THRESHOLD :: nat where "COMPRESSION_THRESHOLD = 64"

definition rest_encrypt :: "client_env \<Rightarrow> bytes \<Rightarrow> bytes \<Rightarrow> bytes \<Rightarrow> (bytes \<times> bytes) result" where
  "rest_encrypt E nonce key data =
    and_then (ok_or (gcm_seal (ce_crypto E) key nonce data []) (Crypto ''encrypt'')) (\<lambda>ct. Ok (ct, nonce))"

text \<open>The library panics on a nonce of another length.\<close>

definition rest_decrypt :: "client_env \<Rightarrow> bytes \<Rightarrow> bytes \<Rightarrow> bytes \<Rightarrow> bytes result" where
  "rest_decrypt E key ciphertext nonce =
    (if length nonce \<noteq> NONCE_LEN then Err (Crypto ''panic: nonce length'')
     else ok_or (gcm_open (ce_crypto E) key nonce ciphertext []) (Crypto ''decrypt''))"

definition maybe_compress :: "client_env \<Rightarrow> bytes \<Rightarrow> (bytes \<times> bool) result" where
  "maybe_compress E data =
    (if length data > COMPRESSION_THRESHOLD
     then and_then (ok_or (ce_zstd_encode E data) (Crypto ''zstd compress'')) (\<lambda>z. Ok (z, True))
     else Ok (data, False))"

definition maybe_decompress :: "client_env \<Rightarrow> bytes \<Rightarrow> bool \<Rightarrow> bytes result" where
  "maybe_decompress E data compressed =
    (if compressed then ok_or (ce_zstd_decode E data) (Crypto ''zstd decompress'') else Ok data)"

definition compress_and_encrypt :: "client_env \<Rightarrow> bytes \<Rightarrow> bytes \<Rightarrow> bytes \<Rightarrow> (bytes \<times> bytes \<times> bool) result" where
  "compress_and_encrypt E nonce key data =
    and_then (maybe_compress E data) (\<lambda>(prepared, compressed).
      and_then (rest_encrypt E nonce key prepared) (\<lambda>(ct, n). Ok (ct, n, compressed)))"

definition decrypt_and_decompress :: "client_env \<Rightarrow> bytes \<Rightarrow> bytes \<Rightarrow> bytes \<Rightarrow> bool \<Rightarrow> bytes result" where
  "decrypt_and_decompress E key ciphertext nonce compressed =
    and_then (rest_decrypt E key ciphertext nonce) (\<lambda>d. maybe_decompress E d compressed)"

lemma rest_decrypt_encrypt:
  "codecs_ok E \<Longrightarrow> length n = 12 \<Longrightarrow> rest_encrypt E n k d = Ok (ct, n') \<Longrightarrow> rest_decrypt E k ct n' = Ok d"
  by (auto simp: rest_encrypt_def rest_decrypt_def codecs_ok_def gcm_open_seal NONCE_LEN_def)

lemma decompress_encrypted:
  "codecs_ok E \<Longrightarrow> length n = 12 \<Longrightarrow> compress_and_encrypt E n k d = Ok (ct, n', z) \<Longrightarrow>
   decrypt_and_decompress E k ct n' z = Ok d"
  by (auto simp: compress_and_encrypt_def decrypt_and_decompress_def maybe_compress_def maybe_decompress_def
      codecs_ok_def rest_encrypt_def rest_decrypt_def gcm_open_seal NONCE_LEN_def split: if_splits)

section \<open>Tables\<close>

datatype Direction = Sent | Received

record message_row =
  mr_id :: nat
  mr_peer :: bytes
  mr_direction :: u8
  mr_ciphertext :: bytes
  mr_nonce :: bytes
  mr_compressed :: bool
  mr_timestamp :: u64

record conversation_row =
  cv_nickname :: "rstring option"
  cv_created_at :: u64
  cv_last_msg_at :: u64
  cv_inbox_id :: "bytes option"

record ratchet_row =
  rr_blob :: bytes
  rr_nonce :: bytes
  rr_updated_at :: u64

text \<open>
  \<^verbatim>\<open>sq_sequence\<close> is the largest identifier the automatic numbering has used; \<^verbatim>\<open>sq_draws\<close> counts the random nonces
  drawn so far.
\<close>

record SqliteMessageStore =
  sq_conversations :: "(bytes \<times> conversation_row) list"
  sq_messages :: "message_row list"
  sq_ratchets :: "(bytes \<times> ratchet_row) list"
  sq_sequence :: nat
  sq_foreign_keys :: bool
  sq_writable :: bool
  sq_draws :: nat
  sq_sek :: bytes

record StoredMessage =
  sm_id :: u64
  sm_peer_id :: bytes
  sm_direction :: Direction
  sm_plaintext :: bytes
  sm_timestamp :: u64

record Conversation =
  co_peer_id :: bytes
  co_nickname :: "rstring option"
  co_created_at :: u64
  co_last_message_at :: u64
  co_inbox_id :: "bytes option"

text \<open>A new database: the schema creates three empty tables.\<close>

definition sqlite_create :: "bool \<Rightarrow> bytes \<Rightarrow> SqliteMessageStore" where
  "sqlite_create fk sek = \<lparr>sq_conversations = [], sq_messages = [], sq_ratchets = [], sq_sequence = 0,
     sq_foreign_keys = fk, sq_writable = True, sq_draws = 0, sq_sek = sek\<rparr>"

text \<open>Opening an existing database leaves its tables alone; only the key is new.\<close>

definition sqlite_open :: "bytes \<Rightarrow> SqliteMessageStore \<Rightarrow> SqliteMessageStore" where
  "sqlite_open sek db = db\<lparr>sq_sek := sek\<rparr>"

section \<open>Operations\<close>

text \<open>Integers in the database are signed 64-bit numbers; larger values are refused.\<close>

definition fits_i64 :: "u64 \<Rightarrow> bool" where
  "fits_i64 n \<longleftrightarrow> unat n < 2 ^ 63"

text \<open>The cast \<^verbatim>\<open>b as i64\<close>.\<close>

definition as_i64 :: "u64 \<Rightarrow> int" where
  "as_i64 b = (if unat b < 2 ^ 63 then int (unat b) else int (unat b) - 2 ^ 64)"

primrec direction_code :: "Direction \<Rightarrow> u8" where
  "direction_code Sent = 0"
| "direction_code Received = 1"

definition touch_conversation :: "bytes \<Rightarrow> u64 \<Rightarrow> SqliteMessageStore \<Rightarrow> SqliteMessageStore" where
  "touch_conversation p timestamp s =
    s\<lparr>sq_conversations := AList.map_entry p (cv_last_msg_at_update (max timestamp)) (sq_conversations s)\<rparr>"

definition sq_save_message ::
  "client_env \<Rightarrow> PeerId \<Rightarrow> Direction \<Rightarrow> bytes \<Rightarrow> u64 \<Rightarrow> SqliteMessageStore \<Rightarrow> SqliteMessageStore \<times> u64 result" where
  "sq_save_message E pid direction plaintext timestamp s =
    (case compress_and_encrypt E (ce_nonce E (sq_draws s)) (sq_sek s) plaintext of
       Err e \<Rightarrow> (s, Err e)
     | Ok (ct, nonce, compressed) \<Rightarrow>
         let s1 = s\<lparr>sq_draws := sq_draws s + 1\<rparr>; p = peer_bytes pid; i = sq_sequence s + 1 in
         if \<not> sq_writable s \<or> \<not> fits_i64 timestamp \<or> i \<ge> 2 ^ 63
            \<or> (sq_foreign_keys s \<and> map_of (sq_conversations s) p = None)
         then (s1, Err (Crypto ''save_message''))
         else (touch_conversation p timestamp
                 (s1\<lparr>sq_messages := sq_messages s @ [\<lparr>mr_id = i, mr_peer = p, mr_direction = direction_code direction,
                       mr_ciphertext = ct, mr_nonce = nonce, mr_compressed = compressed, mr_timestamp = timestamp\<rparr>],
                     sq_sequence := i\<rparr>), Ok (word_of_nat i)))"

text \<open>The rows a query for messages selects: newest first, below the bound, at most \<^verbatim>\<open>limit\<close>.  The bound is read as a
  signed number; without one it is the largest signed number.\<close>

definition select_messages :: "bytes \<Rightarrow> u32 \<Rightarrow> u64 option \<Rightarrow> SqliteMessageStore \<Rightarrow> message_row list" where
  "select_messages p limit before_id s =
    (let bid = (case before_id of None \<Rightarrow> 2 ^ 63 - 1 | Some b \<Rightarrow> as_i64 b)
     in take (unat limit) (filter (\<lambda>r. mr_peer r = p \<and> int (mr_id r) < bid) (rev (sq_messages s))))"

definition open_row :: "client_env \<Rightarrow> bytes \<Rightarrow> message_row \<Rightarrow> StoredMessage result" where
  "open_row E sek r =
    and_then (decrypt_and_decompress E sek (mr_ciphertext r) (mr_nonce r) (mr_compressed r)) (\<lambda>plaintext.
      Ok \<lparr>sm_id = word_of_nat (mr_id r), sm_peer_id = mr_peer r,
          sm_direction = (if mr_direction r = 0 then Sent else Received),
          sm_plaintext = plaintext, sm_timestamp = mr_timestamp r\<rparr>)"

text \<open>\<^verbatim>\<open>collect\<close> into a result: the first error is the outcome.\<close>

primrec collect :: "'a result list \<Rightarrow> 'a list result" where
  "collect [] = Ok []"
| "collect (r # rs) = and_then r (\<lambda>x. and_then (collect rs) (\<lambda>xs. Ok (x # xs)))"

definition sq_load_messages ::
  "client_env \<Rightarrow> PeerId \<Rightarrow> u32 \<Rightarrow> u64 option \<Rightarrow> SqliteMessageStore \<Rightarrow> StoredMessage list result" where
  "sq_load_messages E pid limit before_id s =
    collect (map (open_row E (sq_sek s)) (select_messages (peer_bytes pid) limit before_id s))"

text \<open>A serialised state of at least 1024 bytes is compressed; the first byte says so.\<close>

definition ratchet_payload :: "client_env \<Rightarrow> bytes \<Rightarrow> bytes result" where
  "ratchet_payload E serialized =
    (if length serialized \<ge> 1024
     then and_then (ok_or (ce_zstd_encode E serialized) (Crypto ''zstd compress ratchet'')) (\<lambda>z. Ok (0x01 # z))
     else Ok (0x00 # serialized))"

definition sq_save_ratchet_state ::
  "client_env \<Rightarrow> PeerId \<Rightarrow> RatchetState \<Rightarrow> SqliteMessageStore \<Rightarrow> SqliteMessageStore \<times> unit result" where
  "sq_save_ratchet_state E pid state s =
    (case and_then (ratchet_serialize (ce_to_postcard E) state) (ratchet_payload E) of
       Err e \<Rightarrow> (s, Err e)
     | Ok body \<Rightarrow>
         (case rest_encrypt E (ce_nonce E (sq_draws s)) (sq_sek s) body of
            Err e \<Rightarrow> (s, Err e)
          | Ok (ct, nonce) \<Rightarrow>
              let s1 = s\<lparr>sq_draws := sq_draws s + 1\<rparr> in
              if \<not> sq_writable s \<or> \<not> fits_i64 (ce_now E) then (s1, Err (Crypto ''save_ratchet_state''))
              else (s1\<lparr>sq_ratchets := AList.update (peer_bytes pid)
                         \<lparr>rr_blob = ct, rr_nonce = nonce, rr_updated_at = ce_now E\<rparr> (sq_ratchets s)\<rparr>, Ok ())))"

text \<open>A first byte other than 0 and 1 marks a blob of an older version, which is compressed as a whole.\<close>

definition ratchet_unpack :: "client_env \<Rightarrow> bytes \<Rightarrow> bytes result" where
  "ratchet_unpack E body =
    (case body of
       [] \<Rightarrow> Err (Crypto ''empty ratchet state blob'')
     | b # rest \<Rightarrow>
         if b = 0x00 then Ok rest
         else if b = 0x01 then ok_or (ce_zstd_decode E rest) (Crypto ''zstd decompress ratchet'')
         else ok_or (ce_zstd_decode E body) (Crypto ''zstd decompress ratchet (legacy)''))"

definition sq_load_ratchet_state ::
  "client_env \<Rightarrow> PeerId \<Rightarrow> SqliteMessageStore \<Rightarrow> RatchetState option result" where
  "sq_load_ratchet_state E pid s =
    (case map_of (sq_ratchets s) (peer_bytes pid) of
       None \<Rightarrow> Ok None
     | Some r \<Rightarrow>
         and_then (rest_decrypt E (sq_sek s) (rr_blob r) (rr_nonce r)) (\<lambda>body.
         and_then (ratchet_unpack E body) (\<lambda>serialized.
         and_then (ratchet_deserialize (ce_from_postcard E) serialized) (\<lambda>state. Ok (Some state)))))"

definition sq_save_conversation ::
  "client_env \<Rightarrow> PeerId \<Rightarrow> rstring option \<Rightarrow> SqliteMessageStore \<Rightarrow> SqliteMessageStore \<times> unit result" where
  "sq_save_conversation E pid nickname s =
    (let p = peer_bytes pid in
     if \<not> sq_writable s \<or> \<not> fits_i64 (ce_now E) then (s, Err (Crypto ''save_conversation''))
     else (s\<lparr>sq_conversations :=
        (case map_of (sq_conversations s) p of
           None \<Rightarrow> sq_conversations s @ [(p, \<lparr>cv_nickname = nickname, cv_created_at = ce_now E,
             cv_last_msg_at = ce_now E, cv_inbox_id = None\<rparr>)]
         | Some c \<Rightarrow> AList.map_entry p
             (cv_nickname_update (\<lambda>old. case nickname of None \<Rightarrow> old | Some n \<Rightarrow> Some n)) (sq_conversations s))\<rparr>, Ok ()))"

text \<open>Conversations in the order of their last message; rows with the same time may come in any order, here in that of
  the table.\<close>

definition sq_list_conversations :: "SqliteMessageStore \<Rightarrow> Conversation list" where
  "sq_list_conversations s =
    map (\<lambda>(p, c). \<lparr>co_peer_id = p, co_nickname = cv_nickname c, co_created_at = cv_created_at c,
        co_last_message_at = cv_last_msg_at c, co_inbox_id = cv_inbox_id c\<rparr>)
      (sort_key (\<lambda>(p, c). - int (unat (cv_last_msg_at c))) (sq_conversations s))"

definition sq_delete_conversation :: "PeerId \<Rightarrow> SqliteMessageStore \<Rightarrow> SqliteMessageStore \<times> unit result" where
  "sq_delete_conversation pid s =
    (let p = peer_bytes pid in
     if \<not> sq_writable s then (s, Err (Crypto ''delete messages''))
     else (s\<lparr>sq_messages := filter (\<lambda>r. mr_peer r \<noteq> p) (sq_messages s),
             sq_ratchets := AList.delete p (sq_ratchets s),
             sq_conversations := AList.delete p (sq_conversations s)\<rparr>, Ok ()))"

text \<open>An \<^verbatim>\<open>UPDATE\<close>: without a row for the peer it changes nothing and still succeeds.\<close>

definition sq_save_peer_inbox_id :: "PeerId \<Rightarrow> bytes \<Rightarrow> SqliteMessageStore \<Rightarrow> SqliteMessageStore \<times> unit result" where
  "sq_save_peer_inbox_id pid inbox_id s =
    (if \<not> sq_writable s then (s, Err (Crypto ''save_peer_inbox_id''))
     else (s\<lparr>sq_conversations := AList.map_entry (peer_bytes pid) (cv_inbox_id_update (\<lambda>_. Some inbox_id))
               (sq_conversations s)\<rparr>, Ok ()))"

definition sq_load_peer_inbox_id :: "PeerId \<Rightarrow> SqliteMessageStore \<Rightarrow> bytes option" where
  "sq_load_peer_inbox_id pid s = Option.bind (map_of (sq_conversations s) (peer_bytes pid)) cv_inbox_id"

text \<open>The numbering of the message table survives the deletion of its rows.\<close>

definition sq_clear_all :: "SqliteMessageStore \<Rightarrow> SqliteMessageStore \<times> unit result" where
  "sq_clear_all s =
    (if \<not> sq_writable s then (s, Err (Crypto ''clear_all''))
     else (s\<lparr>sq_messages := [], sq_ratchets := [], sq_conversations := []\<rparr>, Ok ()))"

section \<open>The contract of a message log\<close>

text \<open>Largest signed number; the query without a bound uses it.\<close>

definition i64_max :: u64 where "i64_max = 0x7FFFFFFFFFFFFFFF"

definition bound_of :: "u64 option \<Rightarrow> u64" where
  "bound_of b = (case b of None \<Rightarrow> i64_max | Some x \<Rightarrow> x)"

text \<open>Scrolling back: pages are loaded below the oldest message seen so far until one is empty.\<close>

primrec scroll :: "(u64 option \<Rightarrow> StoredMessage list result) \<Rightarrow> nat \<Rightarrow> u64 option \<Rightarrow> StoredMessage list result" where
  "scroll ld 0 b = Ok []"
| "scroll ld (Suc k) b =
    and_then (ld b) (\<lambda>xs. if xs = [] then Ok []
      else and_then (scroll ld k (Some (sm_id (last xs)))) (\<lambda>ys. Ok (xs @ ys)))"

abbreviation newest_first :: "StoredMessage list \<Rightarrow> bool" where
  "newest_first \<equiv> sorted_wrt (\<lambda>a b. sm_id b < sm_id a)"

lemma filter_below_last:
  assumes "newest_first xs" "0 < n" "xs \<noteq> []"
  shows "filter (\<lambda>m. sm_id m < sm_id (last (take n xs))) xs = drop n xs"
proof -
  have nf: "newest_first (take n xs @ drop n xs)" and ne: "take n xs \<noteq> []" using assms by simp_all
  obtain ys y where y: "take n xs = ys @ [y]" using ne by (metis rev_exhaust)
  have "filter (\<lambda>m. sm_id m < sm_id y) (take n xs @ drop n xs) = drop n xs"
    using nf unfolding y by (auto simp: sorted_wrt_append filter_empty_conv filter_id_conv)
  then show ?thesis unfolding append_take_drop_id by (simp add: y)
qed

locale message_log =
  fixes inv :: "'s \<Rightarrow> bool"
    and log :: "'s \<Rightarrow> PeerId \<Rightarrow> StoredMessage list"
    and save :: "PeerId \<Rightarrow> Direction \<Rightarrow> bytes \<Rightarrow> u64 \<Rightarrow> 's \<Rightarrow> 's \<times> u64 result"
    and load :: "PeerId \<Rightarrow> u32 \<Rightarrow> u64 option \<Rightarrow> 's \<Rightarrow> StoredMessage list result"
  assumes inv_save: "inv s \<Longrightarrow> inv (fst (save p d m t s))"
    and save_ok: "inv s \<Longrightarrow> save p d m t s = (s', Ok i) \<Longrightarrow> log s' q =
      (if q = p then \<lparr>sm_id = i, sm_peer_id = peer_bytes p, sm_direction = d, sm_plaintext = m, sm_timestamp = t\<rparr> # log s p
       else log s q)"
    and save_err: "inv s \<Longrightarrow> save p d m t s = (s', Err e) \<Longrightarrow> log s' = log s"
    and log_desc: "inv s \<Longrightarrow> newest_first (log s p)"
    and load_eq: "inv s \<Longrightarrow> fits_i64 (bound_of b) \<Longrightarrow>
      load p n b s = Ok (take (unat n) (filter (\<lambda>m. sm_id m < bound_of b) (log s p)))"
begin

lemma scroll_eq:
  assumes "inv s" "n \<noteq> 0"
  shows "fits_i64 (bound_of b) \<Longrightarrow>
    scroll (\<lambda>b. load p n b s) k b = Ok (take (k * unat n) (filter (\<lambda>m. sm_id m < bound_of b) (log s p)))"
proof (induction k arbitrary: b)
  case (Suc k)
  let ?xs = "filter (\<lambda>m. sm_id m < bound_of b) (log s p)"
  have n: "0 < unat n" using assms(2) by (simp add: unat_gt_0)
  show ?case
  proof (cases "?xs = []")
    case True
    then show ?thesis using load_eq [OF assms(1) Suc.prems] by simp
  next
    case False
    have nf: "newest_first ?xs" using log_desc [OF assms(1)] by (simp add: sorted_wrt_filter)
    let ?l = "sm_id (last (take (unat n) ?xs))"
    have ne: "take (unat n) ?xs \<noteq> []" using False n by simp
    then have "last (take (unat n) ?xs) \<in> set ?xs" by (metis in_set_takeD last_in_set)
    then have lt: "?l < bound_of b" by simp
    then have fit: "fits_i64 (bound_of (Some ?l))"
      using Suc.prems by (simp add: fits_i64_def bound_of_def word_less_nat_alt)
    have "filter (\<lambda>m. sm_id m < ?l) (log s p) = filter (\<lambda>m. sm_id m < ?l) ?xs"
      using lt by (auto simp: filter_filter intro!: filter_cong)
    also have "\<dots> = drop (unat n) ?xs" by (rule filter_below_last [OF nf n False])
    finally have "scroll (\<lambda>b. load p n b s) k (Some ?l) = Ok (take (k * unat n) (drop (unat n) ?xs))"
      using Suc.IH [OF fit] by (simp add: bound_of_def)
    then show ?thesis using load_eq [OF assms(1) Suc.prems] ne
      by (simp add: take_add)
  qed
qed simp

lemma scroll_all:
  assumes "inv s" "n \<noteq> 0" "length (log s p) \<le> k * unat n" "\<forall>m\<in>set (log s p). sm_id m < i64_max"
  shows "scroll (\<lambda>b. load p n b s) k None = Ok (log s p)"
proof -
  have "fits_i64 (bound_of None)" by (simp add: fits_i64_def bound_of_def i64_max_def)
  moreover have "filter (\<lambda>m. sm_id m < i64_max) (log s p) = log s p" using assms(4) by (simp add: filter_id_conv)
  ultimately show ?thesis using scroll_eq [OF assms(1,2), of None p k] assms(3) by (simp add: bound_of_def)
qed

end

section \<open>The SQLite store keeps the contract\<close>

primrec the_ok :: "'a result \<Rightarrow> 'a" where
  "the_ok (Ok x) = x"

definition sq_inv :: "client_env \<Rightarrow> SqliteMessageStore \<Rightarrow> bool" where
  "sq_inv E s \<longleftrightarrow> codecs_ok E \<and> sorted_wrt (<) (map mr_id (sq_messages s)) \<and> sq_sequence s < 2 ^ 63
    \<and> (\<forall>r\<in>set (sq_messages s). mr_id r \<le> sq_sequence s \<and> is_ok (open_row E (sq_sek s) r))"

definition sq_log :: "client_env \<Rightarrow> SqliteMessageStore \<Rightarrow> PeerId \<Rightarrow> StoredMessage list" where
  "sq_log E s p = map (\<lambda>r. the_ok (open_row E (sq_sek s) r)) (filter (\<lambda>r. mr_peer r = peer_bytes p) (rev (sq_messages s)))"

lemma open_row_id: "open_row E k r = Ok m \<Longrightarrow> sm_id m = word_of_nat (mr_id r)"
  by (auto simp: open_row_def)

lemma collect_map_ok: "\<forall>x\<in>set xs. is_ok (f x) \<Longrightarrow> collect (map f xs) = Ok (map (\<lambda>x. the_ok (f x)) xs)"
proof (induction xs)
  case (Cons x xs)
  then show ?case by (cases "f x") auto
qed simp

lemma row_id_less:
  assumes "m < 2 ^ 63" "n < 2 ^ 63"
  shows "(word_of_nat m :: u64) < word_of_nat n \<longleftrightarrow> m < n"
  using assms by (simp add: word_less_nat_alt unat_of_nat_small)

lemma row_id_below:
  assumes "m < 2 ^ 63" "fits_i64 b"
  shows "int m < as_i64 b \<longleftrightarrow> word_of_nat m < b"
  using assms by (simp add: as_i64_def fits_i64_def word_less_nat_alt unat_of_nat_small del: of_nat_unat)

lemma sq_row_ok:
  assumes "sq_inv E s" "r \<in> set (sq_messages s)"
  obtains m where "open_row E (sq_sek s) r = Ok m" "sm_id m = word_of_nat (mr_id r)" "mr_id r < 2 ^ 63"
proof -
  have "is_ok (open_row E (sq_sek s) r)" "mr_id r < 2 ^ 63" using assms by (auto simp: sq_inv_def)
  then show ?thesis using that open_row_id by (cases "open_row E (sq_sek s) r") auto
qed

lemma peer_bytes_inject [simp]: "peer_bytes p = peer_bytes q \<longleftrightarrow> p = q"
  by (cases p; cases q) simp

lemma sq_save_message_cases:
  assumes "sq_inv E s" "sq_save_message E p d m t s = (s', r)"
  shows "(\<exists>e. r = Err e \<and> sq_messages s' = sq_messages s \<and> sq_sequence s' = sq_sequence s \<and> sq_sek s' = sq_sek s)
    \<or> (\<exists>row. r = Ok (word_of_nat (mr_id row)) \<and> mr_id row = sq_sequence s + 1 \<and> mr_id row < 2 ^ 63
        \<and> mr_peer row = peer_bytes p \<and> sq_messages s' = sq_messages s @ [row] \<and> sq_sequence s' = mr_id row
        \<and> sq_sek s' = sq_sek s
        \<and> open_row E (sq_sek s) row = Ok \<lparr>sm_id = word_of_nat (mr_id row), sm_peer_id = peer_bytes p,
            sm_direction = d, sm_plaintext = m, sm_timestamp = t\<rparr>)"
proof (cases "compress_and_encrypt E (ce_nonce E (sq_draws s)) (sq_sek s) m")
  case (Ok c)
  obtain ct n z where c: "c = (ct, n, z)" by (cases c)
  have E: "codecs_ok E" "length (ce_nonce E (sq_draws s)) = 12" using assms(1) by (simp_all add: sq_inv_def codecs_ok_def)
  note dec = decompress_encrypted [OF E Ok [unfolded c]]
  let ?row = "\<lparr>mr_id = sq_sequence s + 1, mr_peer = peer_bytes p, mr_direction = direction_code d,
      mr_ciphertext = ct, mr_nonce = n, mr_compressed = z, mr_timestamp = t\<rparr>"
  have row: "open_row E (sq_sek s) ?row = Ok \<lparr>sm_id = word_of_nat (sq_sequence s + 1), sm_peer_id = peer_bytes p,
      sm_direction = d, sm_plaintext = m, sm_timestamp = t\<rparr>"
    using dec by (cases d) (simp_all add: open_row_def)
  show ?thesis
  proof (cases "\<not> sq_writable s \<or> \<not> fits_i64 t \<or> sq_sequence s + 1 \<ge> 2 ^ 63
      \<or> (sq_foreign_keys s \<and> map_of (sq_conversations s) (peer_bytes p) = None)")
    case True
    then show ?thesis using assms(2) Ok c by (auto simp: sq_save_message_def Let_def)
  next
    case False
    then have "r = Ok (word_of_nat (sq_sequence s + 1)) \<and> sq_messages s' = sq_messages s @ [?row]
        \<and> sq_sequence s' = sq_sequence s + 1 \<and> sq_sek s' = sq_sek s"
      using assms(2) Ok c by (auto simp: sq_save_message_def Let_def touch_conversation_def)
    then show ?thesis using row False by (intro disjI2 exI [of _ ?row]) simp
  qed
qed (use assms(2) in \<open>auto simp: sq_save_message_def\<close>)

lemma sq_save_message_ok:
  assumes "sq_inv E s" "sq_save_message E p d m t s = (s', Ok i)"
  obtains row where "i = word_of_nat (mr_id row)" "mr_id row = sq_sequence s + 1" "mr_id row < 2 ^ 63"
    "mr_peer row = peer_bytes p" "sq_messages s' = sq_messages s @ [row]" "sq_sequence s' = mr_id row" "sq_sek s' = sq_sek s"
    "open_row E (sq_sek s) row = Ok \<lparr>sm_id = word_of_nat (mr_id row), sm_peer_id = peer_bytes p,
       sm_direction = d, sm_plaintext = m, sm_timestamp = t\<rparr>"
  using sq_save_message_cases [OF assms] by auto

interpretation sq: message_log "sq_inv E" "sq_log E" "sq_save_message E" "sq_load_messages E" for E
proof
  fix s p d m t
  assume inv: "sq_inv E s"
  obtain s' r where sv: "sq_save_message E p d m t s = (s', r)" by force
  have "sq_inv E s'"
    using sq_save_message_cases [OF inv sv] inv
    by (auto simp: sq_inv_def sorted_wrt_append le_SucI less_Suc_eq_le)
  then show "sq_inv E (fst (sq_save_message E p d m t s))" by (simp add: sv)
next
  fix s p d m t s' i q
  assume "sq_inv E s" "sq_save_message E p d m t s = (s', Ok i)"
  then show "sq_log E s' q =
      (if q = p then \<lparr>sm_id = i, sm_peer_id = peer_bytes p, sm_direction = d, sm_plaintext = m, sm_timestamp = t\<rparr> # sq_log E s p
       else sq_log E s q)"
    by (auto elim!: sq_save_message_ok simp: sq_log_def)
next
  fix s p d m t s' e
  assume "sq_inv E s" "sq_save_message E p d m t s = (s', Err e)"
  then show "sq_log E s' = sq_log E s"
    using sq_save_message_cases [of E s p d m t s' "Err e"] by (simp add: sq_log_def fun_eq_iff)
next
  fix s p
  assume inv: "sq_inv E s"
  have "sorted_wrt (\<lambda>a b. mr_id b < mr_id a) (filter (\<lambda>r. mr_peer r = peer_bytes p) (rev (sq_messages s)))"
    using inv by (simp add: sq_inv_def sorted_wrt_filter sorted_wrt_rev sorted_wrt_map)
  then show "newest_first (sq_log E s p)"
    unfolding sq_log_def sorted_wrt_map
    by (rule sorted_wrt_mono_rel [rotated])
       (auto elim!: sq_row_ok [OF inv] simp: row_id_less)
next
  fix s b p n
  assume inv: "sq_inv E s" and b: "fits_i64 (bound_of b)"
  let ?rows = "filter (\<lambda>r. mr_peer r = peer_bytes p) (rev (sq_messages s))"
  have bid: "(case b of None \<Rightarrow> 2 ^ 63 - 1 | Some x \<Rightarrow> as_i64 x) = as_i64 (bound_of b)"
    by (simp add: bound_of_def i64_max_def as_i64_def split: option.split)
  have below: "int (mr_id r) < as_i64 (bound_of b) \<longleftrightarrow> sm_id (the_ok (open_row E (sq_sek s) r)) < bound_of b"
    if "r \<in> set ?rows" for r
    using that b by (auto elim!: sq_row_ok [OF inv] simp: row_id_below)
  have sel: "select_messages (peer_bytes p) n b s
      = take (unat n) (filter (\<lambda>r. sm_id (the_ok (open_row E (sq_sek s) r)) < bound_of b) ?rows)"
    unfolding select_messages_def Let_def bid filter_filter
    by (rule arg_cong [of _ _ "take _"], rule filter_cong) (use below in auto)
  have "\<forall>r\<in>set (select_messages (peer_bytes p) n b s). is_ok (open_row E (sq_sek s) r)"
    unfolding sel using inv by (auto simp: sq_inv_def dest: in_set_takeD)
  then show "sq_load_messages E p n b s = Ok (take (unat n) (filter (\<lambda>m. sm_id m < bound_of b) (sq_log E s p)))"
    unfolding sq_load_messages_def
    by (simp add: collect_map_ok sel sq_log_def filter_map comp_def take_map)
qed

section \<open>Sessions beside the log\<close>

locale session_store = message_log inv log save load
  for inv :: "'s \<Rightarrow> bool" and log save load +
  fixes put :: "PeerId \<Rightarrow> RatchetState \<Rightarrow> 's \<Rightarrow> 's \<times> unit result"
    and get :: "PeerId \<Rightarrow> 's \<Rightarrow> RatchetState option result"
  assumes inv_put: "inv s \<Longrightarrow> inv (fst (put p st s))"
    and log_put: "inv s \<Longrightarrow> log (fst (put p st s)) = log s"
    and get_put: "inv s \<Longrightarrow> put p st s = (s', Ok ()) \<Longrightarrow> get p s' = Ok (Some st)"
    and get_put_other: "inv s \<Longrightarrow> q \<noteq> p \<Longrightarrow> get q (fst (put p st s)) = get q s"
    and get_save: "inv s \<Longrightarrow> get q (fst (save p d m t s)) = get q s"
begin

text \<open>A message and the state after it, as \<^verbatim>\<open>persist_sent_message\<close> writes them.\<close>

lemma message_then_state:
  assumes "inv s" "save p d m t s = (s1, Ok i)" "put p st s1 = (s2, Ok ())"
  shows "inv s2" "get p s2 = Ok (Some st)" "q \<noteq> p \<Longrightarrow> get q s2 = get q s \<and> log s2 q = log s q"
    "log s2 p = \<lparr>sm_id = i, sm_peer_id = peer_bytes p, sm_direction = d, sm_plaintext = m, sm_timestamp = t\<rparr> # log s p"
proof -
  have s1: "inv s1" "s1 = fst (save p d m t s)" "s2 = fst (put p st s1)"
    using inv_save [OF assms(1), of p d m t] assms(2,3) by simp_all
  show "inv s2" using inv_put [OF s1(1)] s1(3) by simp
  show "get p s2 = Ok (Some st)" by (rule get_put [OF s1(1) assms(3)])
  show "q \<noteq> p \<Longrightarrow> get q s2 = get q s \<and> log s2 q = log s q"
    using get_put_other [OF s1(1)] get_save [OF assms(1)] log_put [OF s1(1)] save_ok [OF assms(1,2)] s1(2,3) by simp
  show "log s2 p = \<lparr>sm_id = i, sm_peer_id = peer_bytes p, sm_direction = d, sm_plaintext = m, sm_timestamp = t\<rparr> # log s p"
    using log_put [OF s1(1)] save_ok [OF assms(1,2)] s1(3) by simp
qed

end

lemma sq_save_ratchet_frame:
  "sq_messages (fst (sq_save_ratchet_state E p st s)) = sq_messages s"
  "sq_sek (fst (sq_save_ratchet_state E p st s)) = sq_sek s"
  "sq_sequence (fst (sq_save_ratchet_state E p st s)) = sq_sequence s"
  "sq_conversations (fst (sq_save_ratchet_state E p st s)) = sq_conversations s"
  "q \<noteq> peer_bytes p \<Longrightarrow> map_of (sq_ratchets (fst (sq_save_ratchet_state E p st s))) q = map_of (sq_ratchets s) q"
  by (auto simp: sq_save_ratchet_state_def Let_def update_conv' split: result.split)

lemma sq_save_message_frame:
  "sq_ratchets (fst (sq_save_message E p d m t s)) = sq_ratchets s"
  "sq_sek (fst (sq_save_message E p d m t s)) = sq_sek s"
  by (auto simp: sq_save_message_def touch_conversation_def Let_def split: result.split)

lemma ratchet_unpack_payload:
  "codecs_ok E \<Longrightarrow> ratchet_payload E b = Ok body \<Longrightarrow> ratchet_unpack E body = Ok b"
  by (auto simp: ratchet_payload_def ratchet_unpack_def codecs_ok_def split: if_splits)

lemma sq_load_saved_ratchet:
  assumes "codecs_ok E" "sq_save_ratchet_state E p st s = (s', Ok ())"
  shows "sq_load_ratchet_state E p s' = Ok (Some st)"
proof -
  obtain b body ct n where st: "ratchet_serialize (ce_to_postcard E) st = Ok b" "ratchet_payload E b = Ok body"
      "rest_encrypt E (ce_nonce E (sq_draws s)) (sq_sek s) body = Ok (ct, n)"
      "map_of (sq_ratchets s') (peer_bytes p) = Some \<lparr>rr_blob = ct, rr_nonce = n, rr_updated_at = ce_now E\<rparr>"
      "sq_sek s' = sq_sek s"
    using assms(2)
    by (auto simp: sq_save_ratchet_state_def Let_def update_conv' split: result.splits if_splits)
  have "rest_decrypt E (sq_sek s) ct n = Ok body"
    using rest_decrypt_encrypt [OF assms(1) _ st(3)] assms(1) by (simp add: codecs_ok_def)
  moreover have "ratchet_deserialize (ce_from_postcard E) b = Ok st"
    using ratchet_deserialize_serialize [OF _ st(1)] assms(1) by (simp add: codecs_ok_def)
  ultimately show ?thesis
    using st(4,5) ratchet_unpack_payload [OF assms(1) st(2)] by (simp add: sq_load_ratchet_state_def)
qed

interpretation sqs: session_store "sq_inv E" "sq_log E" "sq_save_message E" "sq_load_messages E"
  "sq_save_ratchet_state E" "sq_load_ratchet_state E" for E
proof
  fix s p st q d m t
  show "sq_inv E (fst (sq_save_ratchet_state E p st s))" if "sq_inv E s"
    using that by (simp add: sq_inv_def sq_save_ratchet_frame)
  show "sq_log E (fst (sq_save_ratchet_state E p st s)) = sq_log E s" if "sq_inv E s"
    by (simp add: sq_log_def sq_save_ratchet_frame fun_eq_iff)
  show "sq_load_ratchet_state E p s' = Ok (Some st)"
    if "sq_inv E s" "sq_save_ratchet_state E p st s = (s', Ok ())" for s'
    using that sq_load_saved_ratchet by (simp add: sq_inv_def)
  show "sq_load_ratchet_state E q (fst (sq_save_ratchet_state E p st s)) = sq_load_ratchet_state E q s"
    if "sq_inv E s" "q \<noteq> p"
    using that(2) by (simp add: sq_load_ratchet_state_def sq_save_ratchet_frame cong: option.case_cong)
  show "sq_load_ratchet_state E q (fst (sq_save_message E p d m t s)) = sq_load_ratchet_state E q s" if "sq_inv E s"
    by (simp add: sq_load_ratchet_state_def sq_save_message_frame cong: option.case_cong)
qed

section \<open>A run of saves\<close>

text \<open>What a sequence of saves has stored: the messages whose save succeeded, with their identifiers.\<close>

primrec save_run ::
  "(PeerId \<Rightarrow> Direction \<Rightarrow> bytes \<Rightarrow> u64 \<Rightarrow> 's \<Rightarrow> 's \<times> u64 result) \<Rightarrow> (PeerId \<times> Direction \<times> bytes \<times> u64) list \<Rightarrow> 's
    \<Rightarrow> 's \<times> (PeerId \<times> StoredMessage) list" where
  "save_run save [] s = (s, [])"
| "save_run save (x # xs) s =
    (case x of (p, d, m, t) \<Rightarrow>
      (case save p d m t s of
         (s1, Err e) \<Rightarrow> save_run save xs s1
       | (s1, Ok i) \<Rightarrow>
           let (s2, ys) = save_run save xs s1
           in (s2, (p, \<lparr>sm_id = i, sm_peer_id = peer_bytes p, sm_direction = d, sm_plaintext = m, sm_timestamp = t\<rparr>) # ys)))"

context message_log
begin

lemma save_run_log:
  "inv s \<Longrightarrow> save_run save xs s = (s', ys) \<Longrightarrow>
    inv s' \<and> log s' p = rev (map snd (filter (\<lambda>y. fst y = p) ys)) @ log s p"
proof (induction xs arbitrary: s s' ys)
  case (Cons x xs)
  obtain q d m t where x: "x = (q, d, m, t)" by (cases x)
  obtain s1 r where sv: "save q d m t s = (s1, r)" by force
  have inv1: "inv s1" using inv_save [OF Cons.prems(1), of q d m t] sv by simp
  show ?case
  proof (cases r)
    case (Ok i)
    obtain s2 zs where run: "save_run save xs s1 = (s2, zs)" by force
    have ys: "ys = (q, \<lparr>sm_id = i, sm_peer_id = peer_bytes q, sm_direction = d, sm_plaintext = m, sm_timestamp = t\<rparr>) # zs"
        "s' = s2"
      using Cons.prems(2) x sv Ok run by simp_all
    show ?thesis using Cons.IH [OF inv1 run] save_ok [OF Cons.prems(1), of q d m t s1 i p] sv Ok ys by auto
  next
    case (Err e)
    then have run: "save_run save xs s1 = (s', ys)" using Cons.prems(2) x sv by simp
    show ?thesis using Cons.IH [OF inv1 run] save_err [OF Cons.prems(1), of q d m t s1 e] sv Err by simp
  qed
qed simp

end

lemma sq_inv_create: "codecs_ok E \<Longrightarrow> sq_inv E (sqlite_create fk sek)"
  by (simp add: sq_inv_def sqlite_create_def)

lemma sq_sequence_save: "sq_sequence (fst (sq_save_message E p d m t s)) \<le> sq_sequence s + 1"
  by (auto simp: sq_save_message_def touch_conversation_def Let_def split: result.split)

lemma sq_run_sequence: "sq_sequence (fst (save_run (sq_save_message E) xs s)) \<le> sq_sequence s + length xs"
proof (induction xs arbitrary: s)
  case (Cons x xs)
  obtain p d m t where x: "x = (p, d, m, t)" by (cases x)
  obtain s1 r where sv: "sq_save_message E p d m t s = (s1, r)" by force
  have "sq_sequence s1 \<le> sq_sequence s + 1" using sq_sequence_save [of E p d m t s] sv by simp
  moreover have "fst (save_run (sq_save_message E) (x # xs) s) = fst (save_run (sq_save_message E) xs s1)"
    by (simp add: x sv split: result.split prod.split)
  ultimately show ?case using Cons.IH [of s1] by simp
qed simp

lemma sq_log_ids: "sq_inv E s \<Longrightarrow> m \<in> set (sq_log E s p) \<Longrightarrow> unat (sm_id m) \<le> sq_sequence s"
proof -
  assume inv: "sq_inv E s" and m: "m \<in> set (sq_log E s p)"
  then obtain r where r: "r \<in> set (sq_messages s)" "m = the_ok (open_row E (sq_sek s) r)" by (auto simp: sq_log_def)
  have "mr_id r \<le> sq_sequence s" using inv r(1) by (simp add: sq_inv_def)
  with r show ?thesis by (auto elim!: sq_row_ok [OF inv] simp: unat_of_nat_small)
qed


definition demo_env :: "u8 \<Rightarrow> client_env" where
  "demo_env r = \<lparr>ce_crypto = demo_crypto, ce_json = demo_json, ce_to_postcard = (\<lambda>_. None), ce_from_postcard = (\<lambda>_. None),
     ce_zstd_encode = Some, ce_zstd_decode = Some, ce_parse_addr = (\<lambda>_. None),
     ce_argon2 = (\<lambda>p s. Some (fit 32 (p @ s))), ce_rnd = (\<lambda>n. [r]), ce_nonce = (\<lambda>n. replicate 12 r), ce_now = 0,
     ce_fresh_file = FileId (replicate 16 r)\<rparr>"

lemma demo_env_codecs: "codecs_ok (demo_env r)"
  by (simp add: codecs_ok_def demo_env_def)


section \<open>The identity file\<close>

definition SALT_LEN :: nat where "SALT_LEN = 16"
definition SEED_LEN :: nat where "SEED_LEN = 32"

definition build_plaintext :: "bytes \<Rightarrow> rstring \<Rightarrow> bytes" where
  "build_plaintext seed nickname = seed @ u32_le (word_of_nat (length nickname)) @ nickname"

definition parse_plaintext :: "bytes \<Rightarrow> (bytes \<times> rstring) result" where
  "parse_plaintext data =
    (if length data < SEED_LEN + 4 then Err (Crypto ''decrypted data too short'')
     else let seed = take SEED_LEN data; nick_len = unat (from_le (slice_of SEED_LEN (SEED_LEN + 4) data) :: u32) in
       if length data < SEED_LEN + 4 + nick_len then Err (Crypto ''nickname data truncated'')
       else let nickname = slice_of (SEED_LEN + 4) (SEED_LEN + 4 + nick_len) data in
         if utf8_valid nickname then Ok (seed, nickname) else Err (Crypto ''invalid nickname utf-8''))"

definition derive_key :: "client_env \<Rightarrow> rstring \<Rightarrow> bytes \<Rightarrow> bytes result" where
  "derive_key E passphrase salt = ok_or (ce_argon2 E passphrase salt) (Crypto ''Argon2id'')"

text \<open>The file is its contents, absent before the first save.  The outcomes of creating the directory and of writing
  are arguments, as are the random salt and nonce.\<close>

definition identity_save ::
  "client_env \<Rightarrow> bool \<Rightarrow> bool \<Rightarrow> bytes \<Rightarrow> bytes \<Rightarrow> bytes \<Rightarrow> rstring \<Rightarrow> rstring \<Rightarrow> bytes option \<Rightarrow> bytes option \<times> unit result" where
  "identity_save E dir_ok write_ok salt nonce seed nickname passphrase file =
    (if \<not> dir_ok then (file, Err (Crypto ''create data dir''))
     else case and_then (derive_key E passphrase salt) (\<lambda>key. rest_encrypt E nonce key (build_plaintext seed nickname)) of
       Err e \<Rightarrow> (file, Err e)
     | Ok (ciphertext, n) \<Rightarrow>
         if write_ok then (Some (salt @ n @ ciphertext), Ok ()) else (file, Err (Crypto ''write identity file'')))"

definition has_identity :: "bytes option \<Rightarrow> bool" where
  "has_identity file \<longleftrightarrow> file \<noteq> None"

definition identity_create ::
  "client_env \<Rightarrow> bool \<Rightarrow> bool \<Rightarrow> bytes \<Rightarrow> bytes \<Rightarrow> bytes \<Rightarrow> rstring \<Rightarrow> rstring \<Rightarrow> bytes option \<Rightarrow> bytes option \<times> bytes result" where
  "identity_create E dir_ok write_ok salt nonce fresh_seed nickname passphrase file =
    (case identity_save E dir_ok write_ok salt nonce fresh_seed nickname passphrase file of
       (file', Err e) \<Rightarrow> (file', Err e)
     | (file', Ok _) \<Rightarrow> (file', Ok fresh_seed))"

definition unlock :: "client_env \<Rightarrow> rstring \<Rightarrow> bytes option \<Rightarrow> (bytes \<times> rstring) result" where
  "unlock E passphrase file =
    and_then (ok_or file (Crypto ''read identity file'')) (\<lambda>data.
      if length data < SALT_LEN + NONCE_LEN + SEED_LEN + 4 then Err (Crypto ''identity file too short'')
      else let salt = take SALT_LEN data; nonce = take NONCE_LEN (drop SALT_LEN data);
               ciphertext = drop (SALT_LEN + NONCE_LEN) data
        in and_then (derive_key E passphrase salt) (\<lambda>key.
           case rest_decrypt E key ciphertext nonce of
             Err e \<Rightarrow> Err (Crypto ''wrong passphrase or corrupted identity file'')
           | Ok plaintext \<Rightarrow> parse_plaintext plaintext))"

text \<open>The phrase of a seed and the seed of a phrase are the mnemonic library's.\<close>

definition export_mnemonic :: "client_env \<Rightarrow> (bytes \<Rightarrow> 'p) \<Rightarrow> rstring \<Rightarrow> bytes option \<Rightarrow> 'p result" where
  "export_mnemonic E phrase passphrase file = and_then (unlock E passphrase file) (\<lambda>(seed, nick). Ok (phrase seed))"

definition import_mnemonic ::
  "client_env \<Rightarrow> ('p \<Rightarrow> bytes option) \<Rightarrow> bool \<Rightarrow> bool \<Rightarrow> bytes \<Rightarrow> bytes \<Rightarrow> 'p \<Rightarrow> rstring \<Rightarrow> rstring \<Rightarrow> bytes option
    \<Rightarrow> bytes option \<times> bytes result" where
  "import_mnemonic E parse dir_ok write_ok salt nonce phrase nickname passphrase file =
    (case from_mnemonic parse phrase of
       Err e \<Rightarrow> (file, Err e)
     | Ok seed \<Rightarrow> identity_create E dir_ok write_ok salt nonce seed nickname passphrase file)"

lemma parse_build_plaintext:
  assumes "length seed = 32" "utf8_valid nick" "length nick < 2 ^ 32"
  shows "parse_plaintext (build_plaintext seed nick) = Ok (seed, nick)"
proof -
  have "unat (word_of_nat (length nick) :: u32) = length nick" using assms(3) by (simp add: unat_of_nat_small)
  then show ?thesis using assms
    by (simp add: parse_plaintext_def build_plaintext_def SEED_LEN_def slice_of_def u32le.dec_enc)
qed

lemma unlock_saved:
  assumes "codecs_ok E" "length seed = 32" "utf8_valid nick" "length nick < 2 ^ 32" "length salt = 16" "length nonce = 12"
    and "identity_save E d w salt nonce seed nick pass file = (file', Ok ())"
  shows "unlock E pass file' = Ok (seed, nick)"
proof -
  obtain key ct n where k: "derive_key E pass salt = Ok key" "file' = Some (salt @ n @ ct)"
      "rest_encrypt E nonce key (build_plaintext seed nick) = Ok (ct, n)"
    using assms(7) by (auto simp: identity_save_def split: if_splits result.splits)
  have dec: "rest_decrypt E key ct n = Ok (build_plaintext seed nick)"
    by (rule rest_decrypt_encrypt [OF assms(1,6) k(3)])
  have n: "n = nonce" "length ct = length (build_plaintext seed nick) + 16"
    using k(3) assms(1) by (auto simp: rest_encrypt_def codecs_ok_def gcm_seal_length)
  then have "length (salt @ n @ ct) \<ge> SALT_LEN + NONCE_LEN + SEED_LEN + 4"
    using assms(2,5,6) by (simp add: SALT_LEN_def NONCE_LEN_def SEED_LEN_def build_plaintext_def)
  then show ?thesis
    using assms(5,6) n k(1) dec parse_build_plaintext [OF assms(2-4)]
    by (simp add: unlock_def k(2) SALT_LEN_def NONCE_LEN_def)
qed

lemma identity_create_cases:
  "identity_create E d w salt nonce seed nick pass file = (file', Ok seed') \<Longrightarrow>
   seed' = seed \<and> identity_save E d w salt nonce seed nick pass file = (file', Ok ())"
  by (auto simp: identity_create_def split: prod.splits result.splits)

text \<open>C37. The identity survives: unlocking the file that \<^verbatim>\<open>create\<close> wrote with the same passphrase returns the seed and
  the nickname, and the mnemonic exported from it restores the same seed elsewhere under another nickname and
  passphrase, so that all keys and identifiers derived from the seed are the same on both devices.  A missing file
  and a file that is too short are refused.\<close>

theorem identity_survives:
  assumes "codecs_ok E" "length seed = 32" "utf8_valid nick" "length nick < 2 ^ 32" "length salt = 16" "length nonce = 12"
    and "utf8_valid nick'" "length nick' < 2 ^ 32" "length salt' = 16" "length nonce' = 12"
    and mnemonic: "parse (phrase seed) = Some seed"
    and created: "identity_create E d w salt nonce seed nick pass None = (f1, Ok s1)"
    and exported: "export_mnemonic E phrase pass f1 = Ok ph"
    and imported: "import_mnemonic E parse d' w' salt' nonce' ph nick' pass' f2 = (f3, Ok s3)"
  shows "s1 = seed \<and> unlock E pass f1 = Ok (seed, nick) \<and> s3 = seed \<and> unlock E pass' f3 = Ok (seed, nick')
    \<and> has_identity f1 \<and> \<not> is_ok (unlock E pass None)
    \<and> (length data < 64 \<longrightarrow> \<not> is_ok (unlock E pass (Some data)))"
proof -
  note c = identity_create_cases [OF created]
  have u1: "unlock E pass f1 = Ok (seed, nick)" using unlock_saved [OF assms(1-6)] c by blast
  have "ph = phrase seed" using exported u1 by (simp add: export_mnemonic_def)
  then have "from_mnemonic parse ph = Ok seed" using mnemonic assms(2) by (simp add: from_mnemonic_def)
  then have i: "s3 = seed \<and> identity_save E d' w' salt' nonce' seed nick' pass' f2 = (f3, Ok ())"
    using imported identity_create_cases by (simp add: import_mnemonic_def)
  have "unlock E pass' f3 = Ok (seed, nick')" using unlock_saved [OF assms(1,2,7-10)] i by blast
  moreover have "f1 \<noteq> None" using u1 by (auto simp: unlock_def)
  ultimately show ?thesis using c u1 i
    by (simp add: has_identity_def unlock_def SALT_LEN_def NONCE_LEN_def SEED_LEN_def)
qed

theorem identity_survives_witness:
  "let E = demo_env 5; seed = replicate 32 7;
       f1 = fst (identity_create E True True (replicate 16 1) (replicate 12 2) seed (ascii ''a'') [1] None);
       f3 = fst (import_mnemonic E Some True True (replicate 16 3) (replicate 12 4) seed (ascii ''b'') [2] None)
   in unlock E [1] f1 = Ok (seed, ascii ''a'') \<and> unlock E [2] f3 = Ok (seed, ascii ''b'') \<and> \<not> is_ok (unlock E [1] (Some []))"
proof -
  let ?E = "demo_env 5" and ?seed = "replicate 32 7 :: bytes"
  let ?c = "identity_create ?E True True (replicate 16 1) (replicate 12 2) ?seed (ascii ''a'') [1] None"
  let ?i = "import_mnemonic ?E Some True True (replicate 16 3) (replicate 12 4) ?seed (ascii ''b'') [2] None"
  have c: "?c = (fst ?c, Ok ?seed)" and i: "?i = (fst ?i, Ok ?seed)"
    by (simp_all add: import_mnemonic_def from_mnemonic_def identity_create_def identity_save_def derive_key_def
        rest_encrypt_def demo_env_def demo_crypto_def)
  have n: "utf8_valid (ascii ''a'')" "length (ascii ''a'') < 2 ^ 32" "utf8_valid (ascii ''b'')" "length (ascii ''b'') < 2 ^ 32"
    by (simp_all add: ascii_def)
  have l: "length ?seed = 32" "length (replicate 16 x) = 16" "length (replicate 12 x) = 12" for x :: u8 by simp_all
  have "unlock ?E [1] (fst ?c) = Ok (?seed, ascii ''a'')"
    using unlock_saved [OF demo_env_codecs l(1) n(1,2) l(2,3)] identity_create_cases [OF c] by blast
  then have e: "export_mnemonic ?E (\<lambda>s. s) [1] (fst ?c) = Ok ?seed" by (simp add: export_mnemonic_def)
  have p: "Some ((\<lambda>s. s) ?seed) = Some ?seed" by simp
  show ?thesis
    unfolding Let_def
    using identity_survives [where phrase = "\<lambda>s. s" and data = "[]", OF demo_env_codecs l(1) n(1,2) l(2,3) n(3,4) l(2,3) p c e i]
    by simp
qed

end
