(* ===== verification/Client_Core.thy ===== *)
theory Client_Core
  imports Client_Store Onion_Client Transfer_Sender Proto_Wire Frame_Codec
begin

text \<open>
  The client library (\<^verbatim>\<open>crates/cypher-client-core/src\<close>): the key manager (\<^verbatim>\<open>crypto.rs\<close>), the state of
  \<^verbatim>\<open>ClientApi\<close> (\<^verbatim>\<open>api.rs\<close>) and the calls of \<^verbatim>\<open>api/messaging.rs\<close> and \<^verbatim>\<open>api/files.rs\<close>.  A call that waits for an answer
  of the server is split where it waits: the first part sends the request and returns a ticket, the second takes
  the answer.  Clock, random secrets, file system contents and third-party codecs are arguments.
\<close>

section \<open>Key manager\<close>

record KeyManager =
  km_identity :: IdentityKeyPair
  km_spk :: x25519_pair
  peer_sessions :: "(bytes \<times> RatchetState) list"

definition key_manager_new :: "IdentityKeyPair \<Rightarrow> x25519_pair \<Rightarrow> KeyManager" where
  "key_manager_new identity spk = \<lparr>km_identity = identity, km_spk = spk, peer_sessions = []\<rparr>"

definition key_bundle :: "crypto \<Rightarrow> KeyManager \<Rightarrow> KeyBundle" where
  "key_bundle C km = bundle_new C (km_identity km) (km_spk km)"

definition spk_secret :: "KeyManager \<Rightarrow> bytes" where
  "spk_secret km = secret (km_spk km)"

definition init_sender_session :: "crypto \<Rightarrow> bytes \<Rightarrow> bytes \<Rightarrow> bytes \<Rightarrow> bytes \<Rightarrow> KeyManager \<Rightarrow> KeyManager" where
  "init_sender_session C rnd pid shared_secret peer_ratchet_pub km =
    km\<lparr>peer_sessions := AList.update pid (init_sender C rnd shared_secret peer_ratchet_pub) (peer_sessions km)\<rparr>"

definition init_receiver_session :: "crypto \<Rightarrow> bytes \<Rightarrow> bytes \<Rightarrow> KeyManager \<Rightarrow> KeyManager" where
  "init_receiver_session C pid shared_secret km =
    km\<lparr>peer_sessions := AList.update pid (init_receiver C shared_secret (secret (km_spk km))) (peer_sessions km)\<rparr>"

definition encrypt_for_peer ::
  "crypto \<Rightarrow> bytes \<Rightarrow> bytes \<Rightarrow> KeyManager \<Rightarrow> KeyManager \<times> (bytes \<times> bytes \<times> u32) result" where
  "encrypt_for_peer C pid plaintext km =
    (case map_of (peer_sessions km) pid of
       None \<Rightarrow> (km, Err (Session ''no session for peer''))
     | Some state \<Rightarrow>
         (case encrypt C state plaintext of
            (state', r) \<Rightarrow> (km\<lparr>peer_sessions := AList.update pid state' (peer_sessions km)\<rparr>, r)))"

definition decrypt_from_peer ::
  "crypto \<Rightarrow> bytes \<Rightarrow> bytes \<Rightarrow> bytes \<Rightarrow> bytes \<Rightarrow> u32 \<Rightarrow> KeyManager \<Rightarrow> KeyManager \<times> bytes result" where
  "decrypt_from_peer C rnd pid ciphertext ratchet_key msg_no km =
    (if length ratchet_key \<noteq> 32 then (km, Err (Crypto ''ratchet_key must be 32 bytes''))
     else case map_of (peer_sessions km) pid of
       None \<Rightarrow> (km, Err (Session ''no session for peer''))
     | Some state \<Rightarrow>
         (case decrypt C rnd state ciphertext ratchet_key msg_no of
            (state', r) \<Rightarrow> (km\<lparr>peer_sessions := AList.update pid state' (peer_sessions km)\<rparr>, r)))"

text \<open>The copy for persistence goes through the serialisation codec.\<close>

definition get_ratchet_state ::
  "(SerializableRatchetState \<Rightarrow> bytes option) \<Rightarrow> (bytes \<Rightarrow> SerializableRatchetState option) \<Rightarrow> bytes \<Rightarrow> KeyManager
    \<Rightarrow> RatchetState option" where
  "get_ratchet_state to_allocvec from_allocvec pid km =
    (case map_of (peer_sessions km) pid of
       None \<Rightarrow> None
     | Some state \<Rightarrow>
         (case ratchet_serialize to_allocvec state of
            Err e \<Rightarrow> None
          | Ok blob \<Rightarrow> (case ratchet_deserialize from_allocvec blob of Ok copy \<Rightarrow> Some copy | Err e \<Rightarrow> None)))"

definition restore_ratchet_state :: "bytes \<Rightarrow> RatchetState \<Rightarrow> KeyManager \<Rightarrow> KeyManager" where
  "restore_ratchet_state pid state km = km\<lparr>peer_sessions := AList.update pid state (peer_sessions km)\<rparr>"

definition has_session :: "bytes \<Rightarrow> KeyManager \<Rightarrow> bool" where
  "has_session pid km = (map_of (peer_sessions km) pid \<noteq> None)"

definition clear_sessions :: "KeyManager \<Rightarrow> KeyManager" where
  "clear_sessions km = km\<lparr>peer_sessions := []\<rparr>"

section \<open>State of a client\<close>

text \<open>\<^verbatim>\<open>onion/indicator.rs\<close>.\<close>

datatype AnonymityLevel = LevelDirect | LevelRelay | LevelTor

datatype ClientEvent =
    EvConnected PeerId
  | EvDisconnected
  | EvMessageReceived PeerId bytes
  | EvFileOffered PeerId FileMeta
  | EvFileProgress bytes rat
  | EvFileComplete bytes
  | EvPeerConnected PeerId
  | EvIceCandidateReceived bytes Candidate
  | EvAnonymityLevelChanged AnonymityLevel
  | EvError string

datatype PendingKind = CreateLink | JoinLink | GetPrekeys

text \<open>
  \<^verbatim>\<open>cl_outbound\<close> is the queue to the I/O task once connected, \<^verbatim>\<open>cl_io_alive\<close> whether that task still runs.
  A pending request holds a ticket; \<^verbatim>\<open>cl_resolved\<close> are the answers handed to waiting calls.  \<^verbatim>\<open>cl_spawned\<close> are the
  sender tasks that have been started and have not run yet: file, chunker, peer, metadata and selected chunks.
\<close>

record Client =
  cl_peer_id :: PeerId
  cl_inbox_id :: bytes
  cl_keys :: KeyManager
  cl_outbound :: "(bytes \<times> FrameFlags) list option"
  cl_io_alive :: bool
  cl_pending :: "(PendingKind \<times> nat) list"
  cl_resolved :: "(nat \<times> json) list"
  cl_next_ticket :: nat
  cl_events :: "ClientEvent list"
  cl_pending_sends :: "(bytes \<times> FileChunker \<times> PeerId \<times> FileMeta) list"
  cl_active_recvs :: "(bytes \<times> FileAssembler \<times> PeerId \<times> bool) list"
  cl_pending_metas :: "(bytes \<times> FileMeta \<times> PeerId) list"
  cl_active_sends :: "(bytes \<times> u32 list) list"
  cl_spawned :: "(bytes \<times> FileChunker \<times> PeerId \<times> FileMeta \<times> u32 list option) list"
  cl_ice_agent :: "IceAgent option"
  cl_store :: "SqliteMessageStore option"

definition client_build :: "PeerId \<Rightarrow> KeyManager \<Rightarrow> SqliteMessageStore option \<Rightarrow> bytes \<Rightarrow> Client" where
  "client_build pid keys store inbox = \<lparr>cl_peer_id = pid, cl_inbox_id = inbox, cl_keys = keys, cl_outbound = None,
     cl_io_alive = True, cl_pending = [], cl_resolved = [], cl_next_ticket = 0, cl_events = [], cl_pending_sends = [],
     cl_active_recvs = [], cl_pending_metas = [], cl_active_sends = [], cl_spawned = [], cl_ice_agent = None, cl_store = store\<rparr>"

definition client_new :: "crypto \<Rightarrow> IdentityKeyPair \<Rightarrow> IdentityKeyPair \<Rightarrow> x25519_pair \<Rightarrow> Client" where
  "client_new C session_identity keys_identity spk =
    client_build (PeerId (peer_id C session_identity)) (key_manager_new keys_identity spk) None []"

definition client_with_seed :: "crypto \<Rightarrow> bytes \<Rightarrow> x25519_pair \<Rightarrow> SqliteMessageStore option \<Rightarrow> Client" where
  "client_with_seed C seed spk store =
    client_build (PeerId (peer_id C (derive_identity C seed))) (key_manager_new (derive_identity C seed) spk) store
      (derive_inbox_id C seed)"

definition emit :: "ClientEvent \<Rightarrow> Client \<Rightarrow> Client" where
  "emit ev cl = cl\<lparr>cl_events := cl_events cl @ [ev]\<rparr>"

definition send_raw :: "bytes \<Rightarrow> FrameFlags \<Rightarrow> Client \<Rightarrow> Client \<times> unit result" where
  "send_raw body fl cl =
    (case cl_outbound cl of
       None \<Rightarrow> (cl, Err (Session ''not connected to gateway''))
     | Some q \<Rightarrow>
         if cl_io_alive cl then (cl\<lparr>cl_outbound := Some (q @ [(body, fl)])\<rparr>, Ok ())
         else (cl, Err (Session ''outbound channel closed'')))"

section \<open>Requests that wait for an answer\<close>

text \<open>\<^verbatim>\<open>pending.insert\<close> of a fresh channel: a request of the same kind that still waits is cancelled.\<close>

definition new_pending :: "PendingKind \<Rightarrow> Client \<Rightarrow> Client \<times> nat" where
  "new_pending k cl =
    (cl\<lparr>cl_pending := AList.update k (cl_next_ticket cl) (cl_pending cl), cl_next_ticket := cl_next_ticket cl + 1\<rparr>,
     cl_next_ticket cl)"

text \<open>What \<^verbatim>\<open>rx.await\<close> sees: nothing yet, the answer, or a dropped channel (the error text also names the call).\<close>

definition await_reply :: "nat \<Rightarrow> Client \<Rightarrow> json result option" where
  "await_reply t cl =
    (case map_of (cl_resolved cl) t of
       Some j \<Rightarrow> Some (Ok j)
     | None \<Rightarrow> if t \<in> snd ` set (cl_pending cl) then None else Some (Err (Session ''cancelled'')))"

definition request :: "PendingKind \<Rightarrow> bytes \<Rightarrow> Client \<Rightarrow> Client \<times> nat result" where
  "request k body cl =
    (let (cl1, t) = new_pending k cl
     in case send_raw body NONE cl1 of (cl2, Err e) \<Rightarrow> (cl2, Err e) | (cl2, Ok _) \<Rightarrow> (cl2, Ok t))"

text \<open>Decoding of hexadecimal identifiers; an invalid pair is an error.\<close>

fun hex_pairs_strict :: "rstring \<Rightarrow> bytes option" where
  "hex_pairs_strict (a # b # r) =
    (case byte_from_hex a b of None \<Rightarrow> None | Some x \<Rightarrow> map_option ((#) x) (hex_pairs_strict r))"
| "hex_pairs_strict _ = Some []"

definition hex_decode :: "rstring \<Rightarrow> bytes result" where
  "hex_decode hx =
    (if odd (length hx) then Err (Protocol ''odd-length hex string'')
     else ok_or (hex_pairs_strict hx) (Protocol ''invalid hex''))"

definition json_bytes_field :: "json \<Rightarrow> string \<Rightarrow> bytes result" where
  "json_bytes_field j field =
    (case json_field j field as_array of
       None \<Rightarrow> Err (Protocol ''missing or non-array field'')
     | Some xs \<Rightarrow> ok_or (as_byte_vec (JArr xs)) (Protocol ''invalid byte''))"

definition not_found_error :: "string \<Rightarrow> json \<Rightarrow> cerror" where
  "not_found_error dflt resp = Protocol (case json_field resp ''error'' as_str of
     Some e \<Rightarrow> map (char_of \<circ> unat) e | None \<Rightarrow> dflt)"

definition create_link_json :: json where
  "create_link_json = JObj [(ascii ''action'', JStr (ascii ''create_link''))]"

definition cl_create_link :: "client_env \<Rightarrow> Client \<Rightarrow> Client \<times> nat result" where
  "cl_create_link E cl = request CreateLink (to_text (ce_json E) create_link_json) cl"

definition cl_create_link_reply :: "json \<Rightarrow> rstring result" where
  "cl_create_link_reply resp =
    ok_or (json_field resp ''link_id'' as_str) (Protocol ''missing link_id in response'')"

definition cl_join_link :: "rstring \<Rightarrow> Client \<Rightarrow> Client \<times> nat result" where
  "cl_join_link link cl = request JoinLink (serialize (SignalRequestPeer link)) cl"

definition cl_join_link_reply :: "json \<Rightarrow> PeerId result" where
  "cl_join_link_reply resp =
    (if json_field resp ''found'' as_bool \<noteq> Some True then Err (not_found_error ''link not found'' resp)
     else and_then (ok_or (json_field resp ''peer_id'' as_str) (Protocol ''missing peer_id in response'')) (\<lambda>hx.
       and_then (hex_decode hx) (\<lambda>b. ok_or (peer_from_bytes b) (Protocol ''invalid peer_id''))))"

section \<open>Sessions and messages\<close>

text \<open>An operation on the store, if there is one; failures are only logged.\<close>

definition with_store :: "(SqliteMessageStore \<Rightarrow> SqliteMessageStore \<times> 'a result) \<Rightarrow> Client \<Rightarrow> Client" where
  "with_store f cl = cl\<lparr>cl_store := map_option (\<lambda>s. fst (f s)) (cl_store cl)\<rparr>"

definition persist_ratchet :: "client_env \<Rightarrow> PeerId \<Rightarrow> Client \<Rightarrow> Client" where
  "persist_ratchet E pid cl =
    (case get_ratchet_state (ce_to_postcard E) (ce_from_postcard E) (peer_bytes pid) (cl_keys cl) of
       None \<Rightarrow> cl
     | Some state \<Rightarrow> with_store (sq_save_ratchet_state E pid state) cl)"

text \<open>\<^verbatim>\<open>persist_sent_message\<close> and \<^verbatim>\<open>persist_received_message\<close>.\<close>

definition persist_message :: "client_env \<Rightarrow> Direction \<Rightarrow> PeerId \<Rightarrow> bytes \<Rightarrow> Client \<Rightarrow> Client" where
  "persist_message E dir pid plaintext cl =
    (if cl_store cl = None then cl
     else persist_ratchet E pid (with_store (sq_save_message E pid dir plaintext (ce_now E)) cl))"

text \<open>\<^verbatim>\<open>initiate_session\<close>: the request, unless a session exists already (\<^verbatim>\<open>None\<close>), and what follows the answer.\<close>

definition initiate_session :: "PeerId \<Rightarrow> Client \<Rightarrow> Client \<times> nat option result" where
  "initiate_session pid cl =
    (if has_session (peer_bytes pid) (cl_keys cl) then (cl, Ok None)
     else case request GetPrekeys (serialize (KeysGetPrekeys (peer_bytes pid))) cl of
       (cl', Err e) \<Rightarrow> (cl', Err e)
     | (cl', Ok t) \<Rightarrow> (cl', Ok (Some t)))"

definition reply_inbox_id :: "json \<Rightarrow> bytes option" where
  "reply_inbox_id resp =
    (case json_field resp ''inbox_id'' as_str of
       None \<Rightarrow> None
     | Some hx \<Rightarrow> (case hex_decode hx of Ok b \<Rightarrow> Some b | Err e \<Rightarrow> None))"

definition initiate_session_reply :: "client_env \<Rightarrow> PeerId \<Rightarrow> json \<Rightarrow> Client \<Rightarrow> Client \<times> unit result" where
  "initiate_session_reply E pid resp cl =
    (if json_field resp ''found'' as_bool \<noteq> Some True then (cl, Err (not_found_error ''prekeys not found'' resp))
     else case json_bytes_field resp ''identity_key'' of Err e \<Rightarrow> (cl, Err e) | Ok ik_dh \<Rightarrow>
       (case json_bytes_field resp ''signed_prekey'' of Err e \<Rightarrow> (cl, Err e) | Ok spk \<Rightarrow>
         if length ik_dh \<noteq> 32 then (cl, Err (Crypto ''identity_key must be 32 bytes''))
         else if length spk \<noteq> 32 then (cl, Err (Crypto ''signed_prekey must be 32 bytes''))
         else
           let C = ce_crypto E; km = cl_keys cl;
               shared_secret = x3dh_mutual C (km_identity km) (spk_secret km) ik_dh spk;
               their_id = peer_bytes pid;
               km' = (if lex_less (peer_bytes (cl_peer_id cl)) their_id
                      then init_sender_session C (ce_rnd E 0) their_id shared_secret spk km
                      else init_receiver_session C their_id shared_secret km);
               cl' = cl\<lparr>cl_keys := km'\<rparr>
           in (case reply_inbox_id resp of
                 None \<Rightarrow> cl'
               | Some inbox \<Rightarrow> with_store (sq_save_peer_inbox_id pid inbox) cl', Ok ())))"

definition send_to_inbox :: "bytes \<Rightarrow> bytes \<Rightarrow> Client \<Rightarrow> Client \<times> unit result" where
  "send_to_inbox inbox_id ciphertext cl = send_raw (serialize (InboxStore inbox_id ciphertext)) NONE cl"

text \<open>An offline message names its sender, an online one its recipient: the servers rewrite the latter.\<close>

definition send_message_offline ::
  "client_env \<Rightarrow> PeerId \<Rightarrow> bytes \<Rightarrow> bytes \<Rightarrow> Client \<Rightarrow> Client \<times> unit result" where
  "send_message_offline E pid inbox_id plaintext cl =
    (case encrypt_for_peer (ce_crypto E) (peer_bytes pid) plaintext (cl_keys cl) of
       (km, Err e) \<Rightarrow> (cl\<lparr>cl_keys := km\<rparr>, Err e)
     | (km, Ok (ciphertext, ratchet_key, msg_no)) \<Rightarrow>
         (case send_to_inbox inbox_id (serialize (ChatSend (peer_bytes (cl_peer_id cl)) ciphertext ratchet_key msg_no))
                 (cl\<lparr>cl_keys := km\<rparr>) of
            (cl', Err e) \<Rightarrow> (cl', Err e)
          | (cl', Ok _) \<Rightarrow> (persist_message E Sent pid plaintext cl', Ok ())))"

definition send_message :: "client_env \<Rightarrow> PeerId \<Rightarrow> bytes \<Rightarrow> Client \<Rightarrow> Client \<times> unit result" where
  "send_message E pid plaintext cl =
    (case encrypt_for_peer (ce_crypto E) (peer_bytes pid) plaintext (cl_keys cl) of
       (km, Err e) \<Rightarrow> (cl\<lparr>cl_keys := km\<rparr>, Err e)
     | (km, Ok (ciphertext, ratchet_key, msg_no)) \<Rightarrow>
         (case send_raw (serialize (ChatSend (peer_bytes pid) ciphertext ratchet_key msg_no)) NONE
                 (cl\<lparr>cl_keys := km\<rparr>) of
            (cl', Err e) \<Rightarrow> (cl', Err e)
          | (cl', Ok _) \<Rightarrow> (persist_message E Sent pid plaintext cl', Ok ())))"

text \<open>The prekey upload of \<^verbatim>\<open>do_connect\<close>: two slices of the key bundle and the inbox identifier.\<close>

definition prekey_upload :: "crypto \<Rightarrow> Client \<Rightarrow> Message" where
  "prekey_upload C cl =
    (let raw = to_bytes (key_bundle C (cl_keys cl))
     in KeysUploadPrekeys (slice_of 32 64 raw) (slice_of 64 96 raw) (cl_inbox_id cl))"

section \<open>Compression and files\<close>

text \<open>\<^verbatim>\<open>cypher-transfer/src/compress.rs\<close>; the ratio is exact in the model.\<close>

definition compress_chunk :: "client_env \<Rightarrow> bytes \<Rightarrow> bytes result" where
  "compress_chunk E data = ok_or (ce_zstd_encode E data) (Transfer ''zstd compress'')"

definition decompress_chunk :: "client_env \<Rightarrow> bytes \<Rightarrow> bytes result" where
  "decompress_chunk E data = ok_or (ce_zstd_decode E data) (Transfer ''zstd decompress'')"

definition is_compressible :: "client_env \<Rightarrow> bytes \<Rightarrow> bool" where
  "is_compressible E sample =
    (if sample = [] then False
     else case compress_chunk E sample of
       Ok z \<Rightarrow> (1 :: rat) - of_nat (length z) / of_nat (length sample) \<ge> 1 / 10
     | Err e \<Rightarrow> False)"

definition prepare_send :: "client_env \<Rightarrow> bytes \<Rightarrow> rstring \<Rightarrow> (FileMeta \<times> FileChunker) result" where
  "prepare_send E contents name =
    (let ch = chunker_new (ce_crypto E) (ce_fresh_file E) contents in
     if chunk_count ch > 0 then
       and_then (read_chunk (ce_crypto E) ch 0) (\<lambda>(sample, h).
         Ok (chunker_meta ch name (is_compressible E sample), ch))
     else Ok (chunker_meta ch name False, ch))"

definition send_file :: "client_env \<Rightarrow> PeerId \<Rightarrow> bytes \<Rightarrow> rstring \<Rightarrow> Client \<Rightarrow> Client \<times> FileMeta result" where
  "send_file E pid contents name cl =
    (case prepare_send E contents name of
       Err e \<Rightarrow> (cl, Err e)
     | Ok (meta, ch) \<Rightarrow>
         let fid = file_id_bytes (meta_file_id meta);
             offer = FileOffer (peer_bytes pid) fid (meta_name meta) (meta_size meta) (meta_chunk_count meta)
                       (meta_hash meta) (if meta_compressed meta then 1 else 0)
         in (case send_raw (serialize offer) NONE cl of
               (cl', Err e) \<Rightarrow> (cl', Err e)
             | (cl', Ok _) \<Rightarrow>
                 (cl'\<lparr>cl_pending_sends := AList.update fid (ch, pid, meta) (cl_pending_sends cl')\<rparr>, Ok meta)))"

text \<open>The destination: the state file beside it, if any, and the bytes it holds.\<close>

definition accept_file :: "bytes \<Rightarrow> bytes option \<Rightarrow> bytes \<Rightarrow> Client \<Rightarrow> Client \<times> unit result" where
  "accept_file fid sidecar_file dest cl =
    (case map_of (cl_pending_metas cl) fid of
       None \<Rightarrow> (cl, Err (Protocol ''no pending file offer for that id''))
     | Some (meta, sender) \<Rightarrow>
         let cl1 = cl\<lparr>cl_pending_metas := AList.delete fid (cl_pending_metas cl)\<rparr>;
             (asm, reply) = (case load_state sidecar_file dest meta of
                 Some asm \<Rightarrow> (asm, FileResume (peer_bytes sender) fid (concat (map u32_le (missing_chunks asm))))
               | None \<Rightarrow> (assembler_new meta, FileAccept (peer_bytes sender) fid));
             cl2 = cl1\<lparr>cl_active_recvs := AList.update fid (asm, sender, meta_compressed meta) (cl_active_recvs cl1)\<rparr>
         in send_raw (serialize reply) NONE cl2)"

end
