(* ===== verification/Client_Runtime.thy ===== *)
theory Client_Runtime
  imports Client_Core
begin

text \<open>
  The background task of a connected client (\<^verbatim>\<open>crates/cypher-client-core/src/api/runtime.rs\<close>): classification of inbound
  frames, the handlers for chat, files, candidates and inbox batches, the completion of waiting requests, the
  chunk sender and the I/O loop.  Every handler maps the client state to the state it leaves.
\<close>

section \<open>Chat\<close>

definition unpad_or_raw :: "bytes \<Rightarrow> bytes" where
  "unpad_or_raw raw = (case unpad raw of Ok p \<Rightarrow> p | Err e \<Rightarrow> raw)"

text \<open>The part the online and the inbox path share: decrypt, unpad, persist, report.\<close>

definition receive_chat ::
  "client_env \<Rightarrow> bytes \<Rightarrow> PeerId \<Rightarrow> bytes \<Rightarrow> bytes \<Rightarrow> u32 \<Rightarrow> Client \<Rightarrow> Client \<times> unit result" where
  "receive_chat E rnd from_peer ciphertext ratchet_key msg_no cl =
    (case decrypt_from_peer (ce_crypto E) rnd (peer_bytes from_peer) ciphertext ratchet_key msg_no (cl_keys cl) of
       (km, Err e) \<Rightarrow> (cl\<lparr>cl_keys := km\<rparr>, Err e)
     | (km, Ok raw) \<Rightarrow>
         (emit (EvMessageReceived from_peer (unpad_or_raw raw))
            (persist_message E Received from_peer (unpad_or_raw raw) (cl\<lparr>cl_keys := km\<rparr>)), Ok ()))"

definition cl_handle_chat_message :: "client_env \<Rightarrow> bytes \<Rightarrow> bytes \<Rightarrow> bytes \<Rightarrow> u32 \<Rightarrow> Client \<Rightarrow> Client" where
  "cl_handle_chat_message E pid ciphertext ratchet_key msg_no cl =
    (case peer_from_bytes pid of
       None \<Rightarrow> cl
     | Some from_peer \<Rightarrow>
         if length ratchet_key \<noteq> 32 then cl
         else case receive_chat E (ce_rnd E 0) from_peer ciphertext ratchet_key msg_no cl of
             (cl', Ok _) \<Rightarrow> cl'
           | (cl', Err e) \<Rightarrow> emit (EvError ''decrypt'') cl')"

section \<open>Inbox batches\<close>

definition dispatch_inbox_chat :: "client_env \<Rightarrow> bytes \<Rightarrow> bytes \<Rightarrow> bytes \<Rightarrow> bytes \<Rightarrow> u32 \<Rightarrow> Client \<Rightarrow> Client \<times> bool" where
  "dispatch_inbox_chat E rnd pid ciphertext ratchet_key msg_no cl =
    (case peer_from_bytes pid of
       None \<Rightarrow> (cl, False)
     | Some from_peer \<Rightarrow>
         if length ratchet_key \<noteq> 32 then (cl, False)
         else case receive_chat E rnd from_peer ciphertext ratchet_key msg_no cl of
             (cl', Ok _) \<Rightarrow> (cl', True)
           | (cl', Err e) \<Rightarrow> (cl', False))"

definition handle_inbox_message :: "client_env \<Rightarrow> bytes \<Rightarrow> bytes \<Rightarrow> Client \<Rightarrow> Client \<times> bool" where
  "handle_inbox_message E rnd message_bytes cl =
    (case dispatch message_bytes of
       Ok (ChatSend pid ciphertext ratchet_key msg_no) \<Rightarrow> dispatch_inbox_chat E rnd pid ciphertext ratchet_key msg_no cl
     | Ok _ \<Rightarrow> (cl, False)
     | Err e \<Rightarrow> (cl, False))"

text \<open>The loop over the length-prefixed messages of a blob; every turn consumes at least the four length bytes.\<close>

function inbox_batch :: "bytes \<Rightarrow> nat \<Rightarrow> bytes list" where
  "inbox_batch blob offset =
    (if \<not> offset + 4 \<le> length blob then []
     else let len = unat (from_le (slice_of offset (offset + 4) blob) :: u32); start = offset + 4 in
       if length blob < start + len then []
       else slice_of start (start + len) blob # inbox_batch blob (start + len))"
  by pat_completeness auto

termination
  by (relation "measure (\<lambda>(blob, offset). length blob - offset)") auto

declare inbox_batch.simps [simp del]

primrec deliver_batch :: "client_env \<Rightarrow> nat \<Rightarrow> bytes list \<Rightarrow> Client \<Rightarrow> Client \<times> nat" where
  "deliver_batch E i [] cl = (cl, 0)"
| "deliver_batch E i (m # ms) cl =
    (let (cl1, ok) = handle_inbox_message E (ce_rnd E i) m cl; (cl2, n) = deliver_batch E (i + 1) ms cl1
     in (cl2, if ok then n + 1 else n))"

definition handle_inbox_messages :: "client_env \<Rightarrow> bytes \<Rightarrow> Client \<Rightarrow> Client" where
  "handle_inbox_messages E blob cl = fst (deliver_batch E 0 (inbox_batch blob 0) cl)"

section \<open>Files\<close>

definition handle_file_offer ::
  "client_env \<Rightarrow> bytes \<Rightarrow> bytes \<Rightarrow> rstring \<Rightarrow> u64 \<Rightarrow> u32 \<Rightarrow> bytes \<Rightarrow> u32 \<Rightarrow> Client \<Rightarrow> Client" where
  "handle_file_offer E pid fid name sz chunks hash zipped cl =
    (case peer_from_bytes pid of
       None \<Rightarrow> cl
     | Some from_peer \<Rightarrow>
         let meta = \<lparr>meta_file_id = (case file_id_from_bytes fid of Some f \<Rightarrow> f | None \<Rightarrow> ce_fresh_file E),
               meta_name = name, meta_size = sz, meta_chunk_count = chunks, meta_hash = hash,
               meta_compressed = (zipped \<noteq> 0)\<rparr>
         in emit (EvFileOffered from_peer meta)
              (cl\<lparr>cl_pending_metas := AList.update fid (meta, from_peer) (cl_pending_metas cl)\<rparr>))"

text \<open>What the runtime puts on the outbound queue; nothing once the I/O task has ended.\<close>

definition queue_out :: "bytes \<Rightarrow> Client \<Rightarrow> Client" where
  "queue_out body cl = fst (send_raw body NONE cl)"

text \<open>\<^verbatim>\<open>handle_file_accept\<close>: the entry moves to the active sends, and a sender task is started for it.  A resumption
  names the chunks that are missing, four bytes each; bytes that do not fill a number are ignored.\<close>

definition handle_file_accept :: "bytes \<Rightarrow> u32 list option \<Rightarrow> Client \<Rightarrow> Client" where
  "handle_file_accept fid selective cl =
    (case map_of (cl_pending_sends cl) fid of
       None \<Rightarrow> cl
     | Some (ch, pid, meta) \<Rightarrow>
         cl\<lparr>cl_pending_sends := AList.delete fid (cl_pending_sends cl),
            cl_active_sends := AList.update fid [] (cl_active_sends cl),
            cl_spawned := cl_spawned cl @ [(fid, ch, pid, meta, selective)]\<rparr>)"

fun resume_indices :: "bytes \<Rightarrow> u32 list" where
  "resume_indices (a # b # c # d # bs) = from_le [a, b, c, d] # resume_indices bs"
| "resume_indices _ = []"

definition asm_progress :: "FileAssembler \<Rightarrow> rat" where
  "asm_progress a =
    (if expected_chunks a = 0 then 1 else of_nat (length (received a)) / of_nat (unat (expected_chunks a)))"

definition finalize_received_file :: "client_env \<Rightarrow> FileAssembler \<Rightarrow> bytes \<Rightarrow> Client \<Rightarrow> Client" where
  "finalize_received_file E asm fid cl =
    (let cl' = cl\<lparr>cl_active_recvs := AList.delete fid (cl_active_recvs cl)\<rparr>
     in case verify_file (ce_crypto E) asm of
          Ok True \<Rightarrow> emit (EvFileComplete fid) cl'
        | Ok False \<Rightarrow> emit (EvError ''file integrity verification failed'') cl'
        | Err e \<Rightarrow> emit (EvError ''file verification error'') cl')"

definition cl_handle_file_chunk ::
  "client_env \<Rightarrow> bytes \<Rightarrow> u32 \<Rightarrow> bytes \<Rightarrow> bytes \<Rightarrow> bytes \<Rightarrow> u32 \<Rightarrow> Client \<Rightarrow> Client" where
  "cl_handle_file_chunk E fid index data hash ratchet_key msg_no cl =
    (case map_of (cl_active_recvs cl) fid of
       None \<Rightarrow> cl
     | Some (asm, sender, zipped) \<Rightarrow>
         (case decrypt_from_peer (ce_crypto E) (ce_rnd E 0) (peer_bytes sender) data ratchet_key msg_no (cl_keys cl) of
            (km, Err e) \<Rightarrow> emit (EvError ''chunk decrypt'') (cl\<lparr>cl_keys := km\<rparr>)
          | (km, Ok decrypted) \<Rightarrow>
              let cl1 = cl\<lparr>cl_keys := km\<rparr> in
              (case (if zipped then decompress_chunk E decrypted else Ok decrypted) of
                 Err e \<Rightarrow> emit (EvError ''chunk decompress'') cl1
               | Ok plaintext \<Rightarrow>
                   (case handle_chunk (ce_crypto E) asm index plaintext hash of
                      (asm', Err e) \<Rightarrow>
                        emit (EvError ''chunk error'')
                          (cl1\<lparr>cl_active_recvs := AList.update fid (asm', sender, zipped) (cl_active_recvs cl1)\<rparr>)
                    | (asm', Ok done) \<Rightarrow>
                        let cl2 = cl1\<lparr>cl_active_recvs := AList.update fid (asm', sender, zipped) (cl_active_recvs cl1)\<rparr>;
                            cl3 = queue_out (serialize (FileChunkAck (peer_bytes sender) fid index)) cl2;
                            cl4 = emit (EvFileProgress fid (asm_progress asm')) cl3
                        in if done then finalize_received_file E asm' fid cl4 else cl4))))"

definition cl_handle_file_chunk_ack :: "bytes \<Rightarrow> u32 \<Rightarrow> Client \<Rightarrow> Client" where
  "cl_handle_file_chunk_ack fid index cl =
    (case map_of (cl_active_sends cl) fid of
       None \<Rightarrow> cl
     | Some acks \<Rightarrow> cl\<lparr>cl_active_sends := AList.update fid (acks @ [index]) (cl_active_sends cl)\<rparr>)"

definition cl_handle_file_complete :: "bytes \<Rightarrow> Client \<Rightarrow> Client" where
  "cl_handle_file_complete fid cl =
    emit (EvFileComplete fid) (cl\<lparr>cl_active_recvs := AList.delete fid (cl_active_recvs cl)\<rparr>)"

definition cl_handle_ice_candidate :: "client_env \<Rightarrow> rstring \<Rightarrow> bytes \<Rightarrow> Client \<Rightarrow> Client" where
  "cl_handle_ice_candidate E candidate pid cl =
    (case ce_parse_addr E candidate of
       None \<Rightarrow> cl
     | Some a \<Rightarrow>
         emit (EvIceCandidateReceived pid (candidate_server_reflexive a))
           (cl\<lparr>cl_ice_agent := map_option (add_remote_candidate (candidate_server_reflexive a)) (cl_ice_agent cl)\<rparr>))"

section \<open>The chunk sender\<close>

text \<open>The transport callback: compress, encrypt, queue, report progress.\<close>

definition chunk_callback ::
  "client_env \<Rightarrow> PeerId \<Rightarrow> bytes \<Rightarrow> bool \<Rightarrow> u32 \<Rightarrow> bytes \<Rightarrow> bytes \<Rightarrow> Client \<Rightarrow> Client \<times> unit result" where
  "chunk_callback E pid fid zipped index data hash cl =
    (case (if zipped then compress_chunk E data else Ok data) of
       Err e \<Rightarrow> (cl, Err e)
     | Ok send_data \<Rightarrow>
         (case encrypt_for_peer (ce_crypto E) (peer_bytes pid) send_data (cl_keys cl) of
            (km, Err e) \<Rightarrow> (cl\<lparr>cl_keys := km\<rparr>, Err e)
          | (km, Ok (ciphertext, ratchet_key, msg_no)) \<Rightarrow>
              (case send_raw (serialize (FileChunk (peer_bytes pid) fid index ciphertext hash ratchet_key msg_no)) NONE
                      (cl\<lparr>cl_keys := km\<rparr>) of
                 (cl', Err e) \<Rightarrow> (cl', Err (Session ''outbound closed''))
               | (cl', Ok _) \<Rightarrow> (emit (EvFileProgress fid (- 1)) cl', Ok ()))))"

primrec chunk_callbacks ::
  "client_env \<Rightarrow> PeerId \<Rightarrow> bytes \<Rightarrow> bool \<Rightarrow> sent_chunks \<Rightarrow> Client \<Rightarrow> Client \<times> unit result" where
  "chunk_callbacks E pid fid zipped [] cl = (cl, Ok ())"
| "chunk_callbacks E pid fid zipped (c # cs) cl =
    (case c of (index, data, hash) \<Rightarrow>
      (case chunk_callback E pid fid zipped index data hash cl of
         (cl', Err e) \<Rightarrow> (cl', Err e)
       | (cl', Ok _) \<Rightarrow> chunk_callbacks E pid fid zipped cs cl'))"

text \<open>
  \<^verbatim>\<open>send_chunks\<close> with the acknowledgements it will see.  The sender chooses chunks independently of the callback,
  which can only stop it: the first callback error ends the transfer with that error.
\<close>

definition send_chunks ::
  "client_env \<Rightarrow> FileChunker \<Rightarrow> bytes \<Rightarrow> PeerId \<Rightarrow> FileMeta \<Rightarrow> u32 list \<Rightarrow> u32 list option \<Rightarrow> Client \<Rightarrow> Client" where
  "send_chunks E ch fid pid meta acks selective cl =
    (let s = sender_new ch DEFAULT_WINDOW_SIZE;
         (s', sent, r) = (case selective of
             Some indices \<Rightarrow> run_selective (ce_crypto E) (\<lambda>_. Ok ()) indices acks s
           | None \<Rightarrow> run (ce_crypto E) (\<lambda>_. Ok ()) acks s);
         (cl1, r') = chunk_callbacks E pid fid (meta_compressed meta) sent cl;
         cl2 = cl1\<lparr>cl_active_sends := AList.delete fid (cl_active_sends cl1)\<rparr>
     in case and_then r' (\<lambda>_. r) of
          Err e \<Rightarrow> emit (EvError ''transfer'') cl2
        | Ok _ \<Rightarrow> emit (EvFileComplete fid) (queue_out (serialize (FileComplete (peer_bytes pid) fid)) cl2))"

text \<open>The task started first runs, with the acknowledgements it will see.\<close>

definition run_spawned :: "client_env \<Rightarrow> u32 list \<Rightarrow> Client \<Rightarrow> Client" where
  "run_spawned E acks cl =
    (case cl_spawned cl of
       [] \<Rightarrow> cl
     | (fid, ch, pid, meta, selective) # rest \<Rightarrow>
         send_chunks E ch fid pid meta acks selective (cl\<lparr>cl_spawned := rest\<rparr>))"

section \<open>Dispatch\<close>

definition resolve :: "PendingKind \<Rightarrow> json \<Rightarrow> Client \<Rightarrow> Client" where
  "resolve k j cl =
    (case map_of (cl_pending cl) k of
       None \<Rightarrow> cl
     | Some t \<Rightarrow> cl\<lparr>cl_pending := AList.delete k (cl_pending cl), cl_resolved := (t, j) # cl_resolved cl\<rparr>)"

definition json_has :: "json \<Rightarrow> string \<Rightarrow> bool" where
  "json_has j k = (json_get j (ascii k) \<noteq> None)"

definition dispatch_json :: "json \<Rightarrow> Client \<Rightarrow> Client" where
  "dispatch_json j cl =
    (if json_field j ''peer_joined'' as_bool = Some True then
       (case json_field j ''peer_id'' as_str of
          None \<Rightarrow> cl
        | Some hx \<Rightarrow>
            (case hex_decode hx of
               Err e \<Rightarrow> cl
             | Ok b \<Rightarrow> (case peer_from_bytes b of None \<Rightarrow> cl | Some p \<Rightarrow> emit (EvPeerConnected p) cl)))
     else if json_has j ''link_id'' then resolve CreateLink j cl
     else if json_has j ''peer_id'' then resolve JoinLink j cl
     else if json_has j ''identity_key'' \<or> json_has j ''signed_prekey'' then resolve GetPrekeys j cl
     else cl)"

fun handle_proto_message :: "client_env \<Rightarrow> Message \<Rightarrow> Client \<Rightarrow> Client" where
  "handle_proto_message E (ChatSend pid ct rk n) cl = cl_handle_chat_message E pid ct rk n cl"
| "handle_proto_message E (FileOffer pid fid name sz chunks hash zipped) cl =
    handle_file_offer E pid fid name sz chunks hash zipped cl"
| "handle_proto_message E (FileAccept pid fid) cl = handle_file_accept fid None cl"
| "handle_proto_message E (FileChunk pid fid index data hash rk n) cl = cl_handle_file_chunk E fid index data hash rk n cl"
| "handle_proto_message E (FileChunkAck pid fid index) cl = cl_handle_file_chunk_ack fid index cl"
| "handle_proto_message E (FileResume pid fid missing) cl =
    handle_file_accept fid (Some (resume_indices missing)) cl"
| "handle_proto_message E (FileComplete pid fid) cl = cl_handle_file_complete fid cl"
| "handle_proto_message E (SignalIceCandidate candidate pid) cl = cl_handle_ice_candidate E candidate pid cl"
| "handle_proto_message E (InboxMessages blob count) cl = handle_inbox_messages E blob cl"
| "handle_proto_message E m cl = cl"

definition dispatch_inbound :: "client_env \<Rightarrow> bytes \<Rightarrow> Client \<Rightarrow> Client" where
  "dispatch_inbound E body cl =
    (if body \<noteq> [] \<and> hd body = 0x7B then
       (case from_slice (ce_json E) body of None \<Rightarrow> cl | Some j \<Rightarrow> dispatch_json j cl)
     else case dispatch body of Ok m \<Rightarrow> handle_proto_message E m cl | Err e \<Rightarrow> cl)"

section \<open>The I/O loop\<close>

text \<open>
  One turn of the \<^verbatim>\<open>select!\<close>: an outbound command is written, or the transport yields a frame.  The outcomes of the
  underlying stream are part of the event.  The loop ends on a write error, a read error, a close frame or the end of
  the command channel, and then reports the disconnection.
\<close>

datatype io_event =
    IoSend "unit result"
  | IoClose "unit result" "unit result"
  | IoRecv "frame result option" "unit result"

definition io_end :: "Client \<Rightarrow> Client" where
  "io_end cl = emit EvDisconnected (cl\<lparr>cl_io_alive := False\<rparr>)"

definition io_step :: "client_env \<Rightarrow> io_event \<Rightarrow> Client \<times> transport_session \<Rightarrow> Client \<times> transport_session" where
  "io_step E ev st =
    (case st of (cl, sess) \<Rightarrow>
      if \<not> cl_io_alive cl then st
      else case ev of
        IoSend flush \<Rightarrow>
          (case cl_outbound cl of
             Some ((body, fl) # q) \<Rightarrow>
               (case send_frame flush sess body fl of
                  (sess', Ok _) \<Rightarrow> (cl\<lparr>cl_outbound := Some q\<rparr>, sess')
                | (sess', Err e) \<Rightarrow> (io_end (cl\<lparr>cl_outbound := Some q\<rparr>), sess'))
           | _ \<Rightarrow> st)
      | IoClose flush shut \<Rightarrow> (io_end cl, fst (close flush shut sess))
      | IoRecv item flush \<Rightarrow>
          (case recv_frame item sess of
             (sess', Err e) \<Rightarrow> (io_end cl, sess')
           | (sess', Ok f) \<Rightarrow>
               if contains (flags f) PING then
                 (case send_pong flush sess' of
                    (sess'', Ok _) \<Rightarrow> (cl, sess'')
                  | (sess'', Err e) \<Rightarrow> (io_end cl, sess''))
               else if contains (flags f) PONG \<or> contains (flags f) ACK_ONLY then (cl, sess')
               else if contains (flags f) SESSION_CLOSE then (io_end cl, sess')
               else (dispatch_inbound E (payload f) cl, sess')))"

section \<open>What the handlers leave alone\<close>

lemma with_store_frame [simp]:
  "cl_keys (with_store f cl) = cl_keys cl" "cl_outbound (with_store f cl) = cl_outbound cl"
  "cl_io_alive (with_store f cl) = cl_io_alive cl" "cl_events (with_store f cl) = cl_events cl"
  "cl_peer_id (with_store f cl) = cl_peer_id cl" "cl_pending_metas (with_store f cl) = cl_pending_metas cl"
  by (simp_all add: with_store_def)

lemma persist_message_frame [simp]:
  "cl_keys (persist_message E b p m cl) = cl_keys cl" "cl_outbound (persist_message E b p m cl) = cl_outbound cl"
  "cl_io_alive (persist_message E b p m cl) = cl_io_alive cl" "cl_events (persist_message E b p m cl) = cl_events cl"
  "cl_peer_id (persist_message E b p m cl) = cl_peer_id cl"
  by (simp_all add: persist_message_def persist_ratchet_def split: option.splits)

lemma emit_frame [simp]:
  "cl_keys (emit ev cl) = cl_keys cl" "cl_outbound (emit ev cl) = cl_outbound cl"
  "cl_io_alive (emit ev cl) = cl_io_alive cl" "cl_events (emit ev cl) = cl_events cl @ [ev]"
  "cl_peer_id (emit ev cl) = cl_peer_id cl" "cl_pending_metas (emit ev cl) = cl_pending_metas cl"
  by (simp_all add: emit_def)

section \<open>Runs of messages\<close>

text \<open>The ratchet a client keeps for a peer.\<close>

definition ratchet_for :: "Client \<Rightarrow> bytes \<Rightarrow> RatchetState option" where
  "ratchet_for cl pid = map_of (peer_sessions (cl_keys cl)) pid"

definition connected :: "Client \<Rightarrow> bool" where
  "connected cl \<longleftrightarrow> cl_io_alive cl \<and> cl_outbound cl \<noteq> None"

primrec cl_send_all :: "client_env \<Rightarrow> PeerId \<Rightarrow> bytes list \<Rightarrow> Client \<Rightarrow> Client" where
  "cl_send_all E pid [] cl = cl"
| "cl_send_all E pid (p # ps) cl = cl_send_all E pid ps (fst (send_message E pid p cl))"

primrec cl_receive_all :: "client_env \<Rightarrow> bytes list \<Rightarrow> Client \<Rightarrow> Client" where
  "cl_receive_all E [] cl = cl"
| "cl_receive_all E (b # bs) cl = cl_receive_all E bs (dispatch_inbound E b cl)"

definition chat_frame :: "bytes \<Rightarrow> bytes \<times> bytes \<times> u32 \<Rightarrow> bytes" where
  "chat_frame pid m = (case m of (c, rk, n) \<Rightarrow> serialize (ChatSend pid c rk n))"

lemma send_message_step:
  assumes "ratchet_for cl (peer_bytes pid) = Some X" "encrypt (ce_crypto E) X p = (X', Ok m)"
    "cl_outbound cl = Some q" "cl_io_alive cl"
  obtains cl' where "send_message E pid p cl = (cl', Ok ())" "ratchet_for cl' (peer_bytes pid) = Some X'"
    "cl_outbound cl' = Some (q @ [(chat_frame (peer_bytes pid) m, NONE)])" "cl_io_alive cl'"
  using assms
  by (cases m) (auto simp: send_message_def encrypt_for_peer_def ratchet_for_def send_raw_def chat_frame_def update_conv')

lemma cl_send_all_eq:
  assumes "ratchet_for cl (peer_bytes pid) = Some X" "encrypt_all (ce_crypto E) X ps = (X', map Ok ms)"
    "cl_outbound cl = Some q" "cl_io_alive cl"
  shows "cl_outbound (cl_send_all E pid ps cl) = Some (q @ map (\<lambda>m. (chat_frame (peer_bytes pid) m, NONE)) ms)
    \<and> ratchet_for (cl_send_all E pid ps cl) (peer_bytes pid) = Some X'"
  using assms
proof (induction ps arbitrary: cl X ms q)
  case (Cons p ps)
  obtain X1 r where e: "encrypt (ce_crypto E) X p = (X1, r)" by fastforce
  obtain X2 rs where es: "encrypt_all (ce_crypto E) X1 ps = (X2, rs)" by fastforce
  from Cons.prems(2) e es obtain m ms' where m: "ms = m # ms'" "r = Ok m" "rs = map Ok ms'" "X2 = X'"
    by (auto simp: Cons_eq_map_conv)
  obtain cl' where cl': "send_message E pid p cl = (cl', Ok ())" "ratchet_for cl' (peer_bytes pid) = Some X1"
      "cl_outbound cl' = Some (q @ [(chat_frame (peer_bytes pid) m, NONE)])" "cl_io_alive cl'"
    using send_message_step [OF Cons.prems(1) _ Cons.prems(3,4)] e m(2) by metis
  from Cons.IH [OF cl'(2) _ cl'(3,4), of ms'] show ?case using es m cl'(1) by simp
qed simp

lemma dispatch_chat_step:
  assumes pid: "length pid = 32" and rk: "length rk = 32" and wf: "msg_wf (ChatSend pid c rk n)"
    and r: "ratchet_for cl pid = Some Y" and d: "decrypt (ce_crypto E) (ce_rnd E 0) Y c rk n = (Y', Ok p)"
  shows "ratchet_for (dispatch_inbound E (serialize (ChatSend pid c rk n)) cl) pid = Some Y'
    \<and> cl_events (dispatch_inbound E (serialize (ChatSend pid c rk n)) cl)
      = cl_events cl @ [EvMessageReceived (PeerId pid) (unpad_or_raw p)]"
proof -
  have "dispatch (serialize (ChatSend pid c rk n)) = Ok (ChatSend pid c rk n)"
    using dispatch_serialize [OF wf, of "[]"] by simp
  then show ?thesis
    using serialize_not_json [of "ChatSend pid c rk n"] pid rk r d
    by (simp add: dispatch_inbound_def cl_handle_chat_message_def peer_from_bytes_def receive_chat_def
        decrypt_from_peer_def ratchet_for_def update_conv')
qed

lemma cl_receive_all_eq:
  assumes "length pid = 32" "\<forall>(c, rk, n)\<in>set ms. length rk = 32 \<and> msg_wf (ChatSend pid c rk n)"
    "ratchet_for cl pid = Some Y" "deliver_all (ce_crypto E) (ce_rnd E 0) Y (map Ok ms) = (Y', map Ok ps)"
  shows "cl_events (cl_receive_all E (map (chat_frame pid) ms) cl)
    = cl_events cl @ map (\<lambda>p. EvMessageReceived (PeerId pid) (unpad_or_raw p)) ps"
  using assms(2-4)
proof (induction ms arbitrary: cl Y ps)
  case (Cons m ms)
  obtain c rk n where m: "m = (c, rk, n)" by (cases m)
  obtain Y1 r where d: "decrypt (ce_crypto E) (ce_rnd E 0) Y c rk n = (Y1, r)" by fastforce
  obtain Y2 rs where ds: "deliver_all (ce_crypto E) (ce_rnd E 0) Y1 (map Ok ms) = (Y2, rs)" by fastforce
  from Cons.prems(3) m d ds obtain p ps' where p: "ps = p # ps'" "r = Ok p" "rs = map Ok ps'" "Y2 = Y'"
    by (auto simp: Cons_eq_map_conv)
  note step = dispatch_chat_step [OF assms(1) _ _ Cons.prems(2), of rk c n E Y1 p]
  show ?case
    using Cons.IH [of "dispatch_inbound E (serialize (ChatSend pid c rk n)) cl" Y1 ps'] step Cons.prems(1) d ds p m
    by (simp add: chat_frame_def)
qed simp

lemma lead_burst:
  assumes C: "crypto_ok C" and lead: "lead C X Y" and ps: "length ps \<le> 256" "\<forall>p\<in>set ps. length p \<le> 2 ^ 31"
  shows "\<exists>X' Y' ms. encrypt_all C X ps = (X', map Ok ms) \<and> deliver_all C rnd Y (map Ok ms) = (Y', map Ok ps)
    \<and> (\<forall>(c, rk, n)\<in>set ms. length rk = 32 \<and> length c \<le> 2 ^ 31 + 16)"
proof (cases "ps = []")
  case False
  let ?n = "length ps" and ?rk = "send_ratchet_key X"
  let ?d = "dh_ratchet C (root_key Y) (x25519 C (send_ratchet_secret X) (send_ratchet_key Y))"
  have big: "\<forall>p\<in>set ps. length p \<le> 2 ^ 36" using ps(2) by fastforce
  obtain X' cs where enc: "encrypt_all C X ps = (X', map (\<lambda>i. Ok (cs ! i, ?rk, word_of_nat i)) [0..<?n])"
      and sealed: "\<forall>i<?n. sealed C ?rk (snd ?d) i (ps ! i) (cs ! i)"
    using encrypt_all_sealed [OF C _ _ big, of X "snd ?d" 0] lead by (auto simp: lead_def Let_def)
  obtain ms where ms: "ms = map (\<lambda>i. (cs ! i, ?rk, word_of_nat i :: u32)) [0..<?n]" by blast
  then have e: "encrypt_all C X ps = (X', map Ok ms)" and l: "length ms = ?n" using enc by (simp_all add: comp_def)
  obtain X1 Y' ck where b: "burst C rnd ps [0..<?n] X Y = (X1, Y', map (\<lambda>j. Ok (ps ! j)) [0..<?n])"
    using burst_partial [OF C lead _ _ _ ps(1) big, of "[0..<?n]" rnd] False by (auto simp: lessThan_atLeast0)
  have "map (\<lambda>j. map Ok ms ! j) [0..<?n] = map Ok ms"
    using map_nth [of "map Ok ms"] l by simp
  moreover have "map (\<lambda>j. Ok (ps ! j)) [0..<?n] = map Ok ps"
    using map_nth [of ps] by (metis (no_types, lifting) map_eq_conv map_map comp_apply)
  ultimately have d: "deliver_all C rnd Y (map Ok ms) = (Y', map Ok ps)"
    using b by (auto simp: burst_def e split: prod.splits)
  have "length ?rk = 32" using lead x25519_public_length [OF C] by (simp add: lead_def)
  moreover have "length (cs ! i) \<le> 2 ^ 31 + 16" if "i < ?n" for i
    using sealed that ps(2) aead_encrypt_length [OF C] unfolding sealed_def by (metis add_le_mono1 nth_mem)
  ultimately have "\<forall>(c, rk, n)\<in>set ms. length rk = 32 \<and> length c \<le> 2 ^ 31 + 16" by (auto simp: ms)
  then show ?thesis using e d by blast
qed (auto intro!: exI [of _ "[]"])

section \<open>Key agreement between two clients\<close>

lemma prekey_upload_eq:
  assumes "crypto_ok C"
  shows "prekey_upload C cl
    = KeysUploadPrekeys (dh_public_key C (km_identity (cl_keys cl))) (x25519_public C (spk_secret (cl_keys cl))) (cl_inbox_id cl)"
  using assms
  by (simp add: prekey_upload_def key_bundle_def to_bytes_def bundle_new_def verifying_key_def public_key_def
      spk_secret_def dh_public_key_def slice_of_def ed_public_length x25519_public_length)

text \<open>An answer that carries the keys of the peer.\<close>

definition prekey_answer :: "json \<Rightarrow> bytes \<Rightarrow> bytes \<Rightarrow> bool" where
  "prekey_answer resp ik spk \<longleftrightarrow> json_field resp ''found'' as_bool = Some True
    \<and> json_bytes_field resp ''identity_key'' = Ok ik \<and> json_bytes_field resp ''signed_prekey'' = Ok spk"

lemma initiate_session_reply_eq:
  assumes "prekey_answer resp ik spk" "length ik = 32" "length spk = 32"
  shows "snd (initiate_session_reply E pid resp cl) = Ok ()
    \<and> ratchet_for (fst (initiate_session_reply E pid resp cl)) (peer_bytes pid)
      = Some (let ss = x3dh_mutual (ce_crypto E) (km_identity (cl_keys cl)) (spk_secret (cl_keys cl)) ik spk
              in if lex_less (peer_bytes (cl_peer_id cl)) (peer_bytes pid)
                 then init_sender (ce_crypto E) (ce_rnd E 0) ss spk
                 else init_receiver (ce_crypto E) ss (spk_secret (cl_keys cl)))
    \<and> cl_outbound (fst (initiate_session_reply E pid resp cl)) = cl_outbound cl
    \<and> cl_io_alive (fst (initiate_session_reply E pid resp cl)) = cl_io_alive cl
    \<and> cl_peer_id (fst (initiate_session_reply E pid resp cl)) = cl_peer_id cl"
  using assms
  by (auto simp: initiate_session_reply_def prekey_answer_def init_sender_session_def init_receiver_session_def
      spk_secret_def ratchet_for_def update_conv' Let_def split: option.split)

lemma peers_agree:
  assumes C: "crypto_ok (ce_crypto EA)" and E: "ce_crypto EB = ce_crypto EA"
    and id: "cl_peer_id A = PeerId a" "cl_peer_id B = PeerId b" "lex_less a b"
    and ua: "prekey_upload (ce_crypto EA) A = KeysUploadPrekeys ika spka ina" "prekey_answer ra ika spka"
    and ub: "prekey_upload (ce_crypto EA) B = KeysUploadPrekeys ikb spkb inb" "prekey_answer rb ikb spkb"
  shows "\<exists>X Y. initiate_session_reply EA (PeerId b) rb A = (fst (initiate_session_reply EA (PeerId b) rb A), Ok ())
    \<and> initiate_session_reply EB (PeerId a) ra B = (fst (initiate_session_reply EB (PeerId a) ra B), Ok ())
    \<and> ratchet_for (fst (initiate_session_reply EA (PeerId b) rb A)) b = Some X
    \<and> ratchet_for (fst (initiate_session_reply EB (PeerId a) ra B)) a = Some Y
    \<and> lead (ce_crypto EA) X Y \<and> send_chain_key Y = None"
proof -
  let ?C = "ce_crypto EA"
  have k: "ika = dh_public_key ?C (km_identity (cl_keys A))" "spka = x25519_public ?C (spk_secret (cl_keys A))"
      "ikb = dh_public_key ?C (km_identity (cl_keys B))" "spkb = x25519_public ?C (spk_secret (cl_keys B))"
    using ua(1) ub(1) by (simp_all add: prekey_upload_eq [OF C])
  have l: "length ika = 32" "length spka = 32" "length ikb = 32" "length spkb = 32"
    unfolding k by (simp_all add: dh_public_key_def x25519_public_length [OF C])
  let ?ss = "x3dh_mutual ?C (km_identity (cl_keys A)) (spk_secret (cl_keys A)) ikb spkb"
  have ss: "x3dh_mutual ?C (km_identity (cl_keys B)) (spk_secret (cl_keys B)) ika spka = ?ss"
    unfolding k by (rule x3dh_mutual_sym [OF C])
  have "\<not> lex_less b a" using id(3) lex_le_antisym by blast
  then show ?thesis
    using initiate_session_reply_eq [OF ub(2) l(3,4), of EA "PeerId b" A]
      initiate_session_reply_eq [OF ua(2) l(1,2), of EB "PeerId a" B] id E ss
      lead_init [OF C, of "ce_rnd EA 0" ?ss "spk_secret (cl_keys B)"] k(4)
    by (auto simp: Let_def prod_eq_iff init_receiver_def)
qed

section \<open>Two consequences for the user\<close>

text \<open>The peer with the larger identifier cannot speak first: although both sides of a fresh key agreement report
  success, every message of the larger side fails until a message of the other side has arrived.
\<close>

theorem larger_id_cannot_speak_first:
  fixes EA :: client_env
  assumes C: "crypto_ok (ce_crypto EA)" "ce_crypto EB = ce_crypto EA"
    and ids: "cl_peer_id A = PeerId a" "cl_peer_id B = PeerId b" "lex_less a b"
    and ua: "prekey_upload (ce_crypto EA) A = KeysUploadPrekeys ika spka ina" "prekey_answer ra ika spka"
    and ub: "prekey_upload (ce_crypto EA) B = KeysUploadPrekeys ikb spkb inb" "prekey_answer rb ikb spkb"
  shows "\<exists>B1. initiate_session_reply EB (PeerId a) ra B = (B1, Ok ())
    \<and> (\<forall>p. snd (send_message EB (PeerId a) p B1)
        = Err (Crypto ''send_chain_key must be initialized before encrypting''))"
proof -
  let ?B1 = "fst (initiate_session_reply EB (PeerId a) ra B)"
  obtain Y where Y: "ratchet_for ?B1 a = Some Y" "send_chain_key Y = None"
      and ok: "initiate_session_reply EB (PeerId a) ra B = (?B1, Ok ())"
    using peers_agree [OF C ids ua ub] by blast
  have "snd (send_message EB (PeerId a) p ?B1) = Err (Crypto ''send_chain_key must be initialized before encrypting'')" for p
    using Y by (simp add: send_message_def encrypt_for_peer_def ratchet_for_def encrypt_def)
  then show ?thesis using ok by blast
qed

definition bundle_json :: "bytes \<Rightarrow> bytes \<Rightarrow> json" where
  "bundle_json ik spk = JObj [(ascii ''found'', JBool True), (ascii ''identity_key'', of_bytes ik),
     (ascii ''signed_prekey'', of_bytes spk)]"

lemma bundle_json_answer: "prekey_answer (bundle_json ik spk) ik spk"
  by (simp add: prekey_answer_def bundle_json_def json_bytes_field_def json_field_def ascii_def of_bytes_def
      as_byte_vec_of_bytes [unfolded of_bytes_def] del: as_byte_vec.simps)

definition demo_client :: "u8 \<Rightarrow> Client" where
  "demo_client i = (client_new demo_crypto \<lparr>signing_key = [i], dh_secret = [i + 10]\<rparr>
     \<lparr>signing_key = [i], dh_secret = [i + 10]\<rparr> \<lparr>secret = [i + 20]\<rparr>)\<lparr>cl_outbound := Some []\<rparr>"

lemma demo_peer_id: "cl_peer_id (demo_client i) = PeerId (fit 32 [i])"
  by (simp add: demo_client_def client_new_def client_build_def peer_id_def verifying_key_def demo_crypto_def)

lemma fit32_less: "i < j \<Longrightarrow> lex_less (fit 32 [i]) (fit 32 [j])"
  by (simp add: fit_def)

theorem larger_id_cannot_speak_first_witness:
  "\<exists>ik spk i B1. prekey_upload demo_crypto (demo_client 1) = KeysUploadPrekeys ik spk i
    \<and> initiate_session_reply (demo_env 6) (PeerId (fit 32 [1])) (bundle_json ik spk) (demo_client 2) = (B1, Ok ())
    \<and> snd (send_message (demo_env 6) (PeerId (fit 32 [1])) [104] B1)
      = Err (Crypto ''send_chain_key must be initialized before encrypting'')"
proof -
  obtain ika spka ina where a: "prekey_upload demo_crypto (demo_client 1) = KeysUploadPrekeys ika spka ina"
    by (simp add: prekey_upload_def Let_def)
  obtain ikb spkb inb where b: "prekey_upload demo_crypto (demo_client 2) = KeysUploadPrekeys ikb spkb inb"
    by (simp add: prekey_upload_def Let_def)
  have e: "ce_crypto (demo_env r) = demo_crypto" for r by (simp add: demo_env_def)
  have lt: "lex_less (fit 32 [1]) (fit 32 [2])" by (rule fit32_less) simp
  from larger_id_cannot_speak_first [where EA = "demo_env 5" and EB = "demo_env 6", OF _ _ demo_peer_id demo_peer_id lt,
      unfolded e, OF demo_crypto_ok refl a bundle_json_answer b bundle_json_answer]
  show ?thesis using a by blast
qed

text \<open>Received messages are always treated as padded, although sent ones never are: every text of printable ASCII
  characters longer than 32384 bytes is cut short when it is shown to the recipient, whatever it says.
\<close>

theorem long_text_truncated:
  assumes "\<forall>b\<in>set p. 0x20 \<le> b \<and> b \<le> 0x7E" "32384 \<le> length p"
  shows "length (unpad_or_raw p) < length p"
proof -
  obtain x y r where p: "p = x # y # r" using assms(2) by (cases p rule: remdups_adj.cases) auto
  have "unat x \<le> 126" "unat y \<le> 126" using assms(1) p by (simp_all add: word_le_nat_alt)
  moreover have "unat (from_le [x, y] :: u16) \<le> le_nat [x, y]"
    unfolding from_le_def unat_of_nat by (rule mod_less_eq_dividend)
  then have "unat (from_le [x, y] :: u16) \<le> unat x + 256 * unat y" by simp
  ultimately have "2 + unat (from_le [x, y] :: u16) \<le> length p" using assms(2) by linarith
  then show ?thesis by (simp add: unpad_or_raw_def unpad_def p Let_def)
qed

theorem long_text_truncated_witness:
  "length (unpad_or_raw (replicate 40000 0x61)) < length (replicate 40000 (0x61 :: u8))"
  by (rule long_text_truncated) simp_all

end
