(* ===== verification/Client_Inbox.thy ===== *)
theory Client_Inbox
  imports Client_Runtime
begin

text \<open>
  Fetching the blind inbox (\<^verbatim>\<open>crates/cypher-client-core/src/onion/bootstrap.rs\<close>, \<^verbatim>\<open>fetcher.rs\<close>): validation of the
  transport bootstrap, parsing and verification of signed responses, and the pipeline that fetches a list of
  inboxes, acknowledges them and collects the payloads.  What each fetch returns is an argument.
\<close>

section \<open>Transport bootstrap\<close>

record RelayBootstrap =
  rb_addr :: rstring
  rb_public_key :: bytes

record TransportBootstrap =
  tb_relay :: "RelayBootstrap option"
  tb_inbox_verifying_key :: bytes
  tb_capabilities :: u32

definition CLIENT_CAPABILITY_SIGNED_INBOX :: u32 where "CLIENT_CAPABILITY_SIGNED_INBOX = push_bit 0 1"
definition CLIENT_CAPABILITY_RELAY :: u32 where "CLIENT_CAPABILITY_RELAY = push_bit 1 1"

definition bootstrap_from_proto ::
  "crypto \<Rightarrow> rstring \<Rightarrow> bytes \<Rightarrow> bytes \<Rightarrow> u32 \<Rightarrow> TransportBootstrap result" where
  "bootstrap_from_proto C relay_addr relay_public_key vkey capabilities =
    (if length vkey \<noteq> 32 then Err (Protocol ''invalid inbox verifying key length'')
     else if \<not> ed_valid_key C vkey then Err (Protocol ''invalid inbox verifying key'')
     else if and capabilities CLIENT_CAPABILITY_RELAY \<noteq> 0 then
       (if str_trim relay_addr = [] then Err (Protocol ''transport bootstrap missing relay_addr'')
        else if length relay_public_key \<noteq> 32 then Err (Protocol ''invalid relay public key length'')
        else Ok \<lparr>tb_relay = Some \<lparr>rb_addr = relay_addr, rb_public_key = relay_public_key\<rparr>,
                 tb_inbox_verifying_key = vkey, tb_capabilities = capabilities\<rparr>)
     else Ok \<lparr>tb_relay = None, tb_inbox_verifying_key = vkey, tb_capabilities = capabilities\<rparr>)"

definition supports_signed_inbox :: "TransportBootstrap \<Rightarrow> bool" where
  "supports_signed_inbox b = (and (tb_capabilities b) CLIENT_CAPABILITY_SIGNED_INBOX \<noteq> 0)"

section \<open>Signed responses\<close>

record SignedInboxResponse =
  proto_payload :: bytes
  claim_token :: "bytes option"
  server_sig :: "bytes option"

definition CLAIM_TOKEN_LEN :: nat where "CLAIM_TOKEN_LEN = 40"
definition SERVER_SIG_LEN :: nat where "SERVER_SIG_LEN = 64"
definition TRAILER_LEN :: nat where "TRAILER_LEN = CLAIM_TOKEN_LEN + SERVER_SIG_LEN"

definition is_inbox_messages :: "bytes \<Rightarrow> bool" where
  "is_inbox_messages raw = (case dispatch raw of Ok (InboxMessages blob count) \<Rightarrow> True | _ \<Rightarrow> False)"

definition parse_inbox_response :: "bytes \<Rightarrow> SignedInboxResponse result" where
  "parse_inbox_response raw =
    (let proto_len = length raw - TRAILER_LEN in
     if TRAILER_LEN < length raw \<and> is_inbox_messages (take proto_len raw) then
       Ok \<lparr>proto_payload = take proto_len raw,
           claim_token = Some (slice_of proto_len (proto_len + CLAIM_TOKEN_LEN) raw),
           server_sig = Some (drop (proto_len + CLAIM_TOKEN_LEN) raw)\<rparr>
     else if is_inbox_messages raw then Ok \<lparr>proto_payload = raw, claim_token = None, server_sig = None\<rparr>
     else Err (Protocol ''invalid inbox response payload''))"

definition claim_token_timestamp :: "bytes \<Rightarrow> u64 result" where
  "claim_token_timestamp token =
    (if length token \<noteq> CLAIM_TOKEN_LEN then Err (Protocol ''invalid claim token length'')
     else Ok (from_le (slice_of 0 8 token)))"

definition verify_inbox_response :: "crypto \<Rightarrow> bytes \<Rightarrow> bytes \<Rightarrow> SignedInboxResponse \<Rightarrow> unit result" where
  "verify_inbox_response C vkey inbox_id r =
    (case claim_token r of
       None \<Rightarrow> Ok ()
     | Some token \<Rightarrow>
         (case server_sig r of
            None \<Rightarrow> Err (Protocol ''missing inbox response signature'')
          | Some sig \<Rightarrow>
              and_then (claim_token_timestamp token) (\<lambda>timestamp.
                and_then (dispatch (proto_payload r)) (\<lambda>m.
                  case m of
                    InboxMessages blob count \<Rightarrow>
                      if ed_verify C vkey (blob @ u32_le count @ inbox_id @ u64_le timestamp) sig then Ok ()
                      else Err (Protocol ''invalid inbox response signature'')
                  | _ \<Rightarrow> Err (Protocol ''signed inbox response did not contain InboxMessages'')))))"

section \<open>The fetch pipeline\<close>

record FetchJob =
  job_inbox_id :: bytes
  job_is_dummy :: bool

text \<open>Job \<^verbatim>\<open>i\<close> goes to pipeline \<^verbatim>\<open>i mod n\<close>.\<close>

definition distribute_jobs :: "FetchJob list \<Rightarrow> nat \<Rightarrow> FetchJob list list" where
  "distribute_jobs jobs n =
    fold (\<lambda>i chunks. chunks[i mod n := chunks ! (i mod n) @ [jobs ! i]]) [0..<length jobs] (replicate n [])"

text \<open>
  One pipeline on the outcomes of its fetches: the acknowledgements sent, and the collected payloads.  A response
  that does not parse or verify ends the pipeline with that error; a failed fetch is skipped.
\<close>

fun pipeline_chunk ::
  "crypto \<Rightarrow> bytes \<Rightarrow> (FetchJob \<times> bytes result) list \<Rightarrow> (bytes \<times> bytes) list
    \<Rightarrow> Message list \<times> (bytes \<times> bytes) list result" where
  "pipeline_chunk C vk [] results = ([], Ok results)"
| "pipeline_chunk C vk ((job, Err e) # js) results = pipeline_chunk C vk js results"
| "pipeline_chunk C vk ((job, Ok response) # js) results =
    (case parse_inbox_response response of
       Err e \<Rightarrow> ([], Err e)
     | Ok resp \<Rightarrow>
         (case verify_inbox_response C vk (job_inbox_id job) resp of
            Err e \<Rightarrow> ([], Err e)
          | Ok _ \<Rightarrow>
              let acks = (case claim_token resp of None \<Rightarrow> [] | Some token \<Rightarrow> [InboxAck (job_inbox_id job) token]);
                  results' = (if job_is_dummy job then results else results @ [(job_inbox_id job, proto_payload resp)]);
                  (acks', r) = pipeline_chunk C vk js results'
              in (acks @ acks', r)))"

text \<open>The pipelines run in parallel; the results of those that fail are missing.\<close>

definition collect_results :: "(bytes \<times> bytes) list result list \<Rightarrow> (bytes \<times> bytes) list" where
  "collect_results rs = concat (map (\<lambda>r. case r of Ok xs \<Rightarrow> xs | Err e \<Rightarrow> []) rs)"

definition run_pipelines ::
  "crypto \<Rightarrow> bytes \<Rightarrow> (FetchJob \<times> bytes result) list result list \<Rightarrow> Message list \<times> (bytes \<times> bytes) list" where
  "run_pipelines C vk chunks =
    (let runs = map (\<lambda>c. case c of Err e \<Rightarrow> ([], Err e) | Ok js \<Rightarrow> pipeline_chunk C vk js []) chunks
     in (concat (map fst runs), collect_results (map snd runs)))"

text \<open>The jobs: the requested inboxes and up to two random ones.\<close>

definition fetch_jobs :: "bytes list \<Rightarrow> bytes list \<Rightarrow> FetchJob list" where
  "fetch_jobs inbox_ids dummies =
    map (\<lambda>i. \<lparr>job_inbox_id = i, job_is_dummy = False\<rparr>) inbox_ids
    @ map (\<lambda>i. \<lparr>job_inbox_id = i, job_is_dummy = True\<rparr>) (take (min 2 (length inbox_ids)) dummies)"

text \<open>
  \<^verbatim>\<open>fetch_all\<close> with the random choices (\<^verbatim>\<open>dummies\<close>, \<^verbatim>\<open>shuffle\<close>), the number of relay circuits that are ready, the outcome of
  acquiring a transport for each pipeline and of each fetch as arguments.
\<close>

definition fetch_all ::
  "crypto \<Rightarrow> bytes \<Rightarrow> bytes list \<Rightarrow> bytes list \<Rightarrow> (FetchJob list \<Rightarrow> FetchJob list) \<Rightarrow> nat \<Rightarrow> (nat \<Rightarrow> unit result)
    \<Rightarrow> (nat \<Rightarrow> bytes \<Rightarrow> bytes result) \<Rightarrow> Message list \<times> (bytes \<times> bytes) list" where
  "fetch_all C vk inbox_ids dummies shuffle ready acquired fetch_one =
    (if inbox_ids = [] then ([], [])
     else let chunks = distribute_jobs (shuffle (fetch_jobs inbox_ids dummies)) (max 1 (min 3 ready))
       in run_pipelines C vk (map (\<lambda>(k, js). and_then (acquired k) (\<lambda>_. Ok (map (\<lambda>j. (j, fetch_one k (job_inbox_id j))) js)))
            (enumerate 0 chunks)))"

text \<open>What \<^verbatim>\<open>fetch_inbox\<close> does with the collected payloads: they go through the ordinary dispatch.\<close>

definition dispatch_results :: "client_env \<Rightarrow> (bytes \<times> bytes) list \<Rightarrow> Client \<Rightarrow> Client" where
  "dispatch_results E results cl = fold (\<lambda>(i, body). dispatch_inbound E body) results cl"

section \<open>Responses of the server are read back\<close>

lemma is_inbox_messages_serialize:
  "msg_wf (InboxMessages blob count) \<Longrightarrow> is_inbox_messages (serialize (InboxMessages blob count))"
  using dispatch_serialize [of "InboxMessages blob count" "[]"] by (simp add: is_inbox_messages_def)

lemma parse_signed:
  assumes "msg_wf (InboxMessages blob count)" "length token = 40" "length sig = 64"
  shows "parse_inbox_response (serialize (InboxMessages blob count) @ token @ sig)
    = Ok \<lparr>proto_payload = serialize (InboxMessages blob count), claim_token = Some token, server_sig = Some sig\<rparr>"
proof -
  have "serialize (InboxMessages blob count) \<noteq> []" using serialize_not_json by blast
  then show ?thesis
    using assms is_inbox_messages_serialize [OF assms(1)]
    by (simp add: parse_inbox_response_def TRAILER_LEN_def CLAIM_TOKEN_LEN_def SERVER_SIG_LEN_def slice_of_def)
qed

text \<open>A response without trailer is never mistaken for a signed one: a truncated message does not parse.\<close>

lemma parse_legacy:
  assumes "msg_wf (InboxMessages blob count)"
  shows "parse_inbox_response (serialize (InboxMessages blob count))
    = Ok \<lparr>proto_payload = serialize (InboxMessages blob count), claim_token = None, server_sig = None\<rparr>"
proof -
  let ?w = "serialize (InboxMessages blob count)"
  have "\<not> is_inbox_messages (take (length ?w - TRAILER_LEN) ?w)" if "TRAILER_LEN < length ?w"
    using that dispatch_truncated [OF assms, of "length ?w - TRAILER_LEN"]
    by (auto simp: is_inbox_messages_def TRAILER_LEN_def CLAIM_TOKEN_LEN_def SERVER_SIG_LEN_def split: result.splits)
  then show ?thesis
    using is_inbox_messages_serialize [OF assms] by (auto simp: parse_inbox_response_def Let_def)
qed

lemma verify_signed:
  assumes "msg_wf (InboxMessages blob count)" "token = u64_le timestamp @ rest" "length rest = 32"
  shows "verify_inbox_response C vk inbox_id
      \<lparr>proto_payload = serialize (InboxMessages blob count), claim_token = Some token, server_sig = Some sig\<rparr>
    = (if ed_verify C vk (blob @ u32_le count @ inbox_id @ u64_le timestamp) sig then Ok ()
       else Err (Protocol ''invalid inbox response signature''))"
  using assms dispatch_serialize [OF assms(1), of "[]"]
  by (simp add: verify_inbox_response_def claim_token_timestamp_def CLAIM_TOKEN_LEN_def slice_of_def u64le.dec_enc)

text \<open>The blob of a batch: length-prefixed messages.\<close>

definition batch_blob :: "bytes list \<Rightarrow> bytes" where
  "batch_blob ms = concat (map (\<lambda>m. u32_le (word_of_nat (length m)) @ m) ms)"

lemma inbox_batch_blob:
  "\<forall>m\<in>set ms. length m < 2 ^ 32 \<Longrightarrow> inbox_batch (pre @ batch_blob ms) (length pre) = ms"
proof (induction ms arbitrary: pre)
  case Nil
  then show ?case by (simp add: inbox_batch.simps batch_blob_def)
next
  case (Cons m ms)
  let ?h = "u32_le (word_of_nat (length m))"
  have u: "unat (word_of_nat (length m) :: u32) = length m" using Cons.prems by (simp add: unat_of_nat_small)
  have b: "pre @ batch_blob (m # ms) = (pre @ ?h @ m) @ batch_blob ms" by (simp add: batch_blob_def)
  have "inbox_batch ((pre @ ?h @ m) @ batch_blob ms) (length (pre @ ?h @ m)) = ms"
    using Cons.prems by (intro Cons.IH) simp
  then show ?case unfolding b
    by (subst inbox_batch.simps) (simp add: slice_of_def u32le.dec_enc u Let_def add.assoc)
qed

section \<open>Acknowledged batches can be lost\<close>

text \<open>One bad response discards a whole pipeline: when the fetch of an earlier inbox succeeded, its batch has been
  acknowledged, so that the server deletes it; if a later response of the same pipeline, even one for a dummy inbox,
  does not parse or verify, the collected batch is dropped and never dispatched.
\<close>

theorem acknowledged_batch_lost:
  assumes wf: "msg_wf (InboxMessages blob count)" and l: "length rest = 32" "length sig = 64"
    and ok: "ed_verify C vk (blob @ u32_le count @ inbox_id @ u64_le timestamp) sig"
    and bad: "\<not> is_ok (parse_inbox_response response)"
    and fetched: "run_pipelines C vk [Ok [(\<lparr>job_inbox_id = inbox_id, job_is_dummy = False\<rparr>,
           Ok (serialize (InboxMessages blob count) @ (u64_le timestamp @ rest) @ sig)),
         (\<lparr>job_inbox_id = other, job_is_dummy = True\<rparr>, Ok response)]] = (acks, results)"
  shows "acks = [InboxAck inbox_id (u64_le timestamp @ rest)] \<and> results = []"
proof -
  let ?t = "u64_le timestamp @ rest"
  have p: "parse_inbox_response (serialize (InboxMessages blob count) @ ?t @ sig)
      = Ok \<lparr>proto_payload = serialize (InboxMessages blob count), claim_token = Some ?t, server_sig = Some sig\<rparr>"
    using l by (intro parse_signed [OF wf]) simp_all
  obtain e where "parse_inbox_response response = Err e"
    using bad by (cases "parse_inbox_response response") auto
  then show ?thesis
    using fetched p verify_signed [OF wf refl l(1), of C vk inbox_id timestamp sig] ok
    by (auto simp: run_pipelines_def collect_results_def)
qed

theorem acknowledged_batch_lost_witness:
  "let sig = ed_sign demo_crypto [3] ([1, 2] @ u32_le 1 @ [8] @ u64_le 5)
   in run_pipelines demo_crypto (ed_public demo_crypto [3])
        [Ok [(\<lparr>job_inbox_id = [8], job_is_dummy = False\<rparr>,
           Ok (serialize (InboxMessages [1, 2] 1) @ (u64_le 5 @ replicate 32 0) @ sig)),
          (\<lparr>job_inbox_id = [9], job_is_dummy = True\<rparr>, Ok [])]]
      = ([InboxAck [8] (u64_le 5 @ replicate 32 0)], [])"
proof -
  let ?sig = "ed_sign demo_crypto [3] ([1, 2] @ u32_le 1 @ [8] @ u64_le 5)"
  let ?jobs = "[Ok [(\<lparr>job_inbox_id = [8], job_is_dummy = False\<rparr>,
           Ok (serialize (InboxMessages [1, 2] 1) @ (u64_le 5 @ replicate 32 0) @ ?sig)),
          (\<lparr>job_inbox_id = [9], job_is_dummy = True\<rparr>, Ok [])]]"
  have wf: "msg_wf (InboxMessages [1, 2] 1)" by (simp add: msg_wf_def fits_u32_def)
  have "\<not> is_ok (parse_inbox_response [])"
    by (simp add: parse_inbox_response_def is_inbox_messages_def TRAILER_LEN_def dispatch_def)
  from acknowledged_batch_lost [OF wf _ _ _ this, of "replicate 32 0" ?sig demo_crypto "ed_public demo_crypto [3]" "[8]" 5 "[9]"
      "fst (run_pipelines demo_crypto (ed_public demo_crypto [3]) ?jobs)" "snd (run_pipelines demo_crypto (ed_public demo_crypto [3]) ?jobs)"]
  show ?thesis
    by (simp add: Let_def ed_sign_length ed_verify_sign prod_eq_iff)
qed

end
