(* ===== verification/Client_Fetch.thy ===== *)
theory Client_Fetch
  imports Client_Inbox "HOL-Library.Multiset"
begin

text \<open>
  The distribution of fetch jobs over pipelines (\<^verbatim>\<open>crates/cypher-client-core/src/onion/fetcher.rs\<close>) loses and repeats
  none: a fetch without failures returns every requested inbox once and acknowledges every claim.
\<close>

lemma mset_concat_extend:
  "i < length xs \<Longrightarrow> mset (concat (xs[i := xs ! i @ [x]])) = add_mset x (mset (concat xs))"
proof (induction xs arbitrary: i)
  case (Cons y ys)
  then show ?case by (cases i) auto
qed simp

lemma distribute_jobs_mset:
  assumes "0 < n"
  shows "mset (concat (distribute_jobs jobs n)) = mset jobs"
proof -
  let ?step = "\<lambda>i chunks. chunks[i mod n := chunks ! (i mod n) @ [jobs ! i]]"
  have "length (fold ?step [0..<k] (replicate n [])) = n
      \<and> mset (concat (fold ?step [0..<k] (replicate n []))) = mset (take k jobs)" if "k \<le> length jobs" for k
    using that
  proof (induction k)
    case (Suc k)
    let ?c = "fold ?step [0..<k] (replicate n [])"
    have ih: "length ?c = n" "mset (concat ?c) = mset (take k jobs)" using Suc by simp_all
    have "fold ?step [0..<Suc k] (replicate n []) = ?step k ?c" by simp
    moreover have "mset (concat (?step k ?c)) = add_mset (jobs ! k) (mset (take k jobs))"
      using mset_concat_extend [of "k mod n" ?c "jobs ! k"] assms ih by simp
    ultimately show ?case using ih Suc.prems by (simp add: take_Suc_conv_app_nth)
  qed simp
  then show ?thesis by (simp add: distribute_jobs_def)
qed

text \<open>A pipeline whose responses are all good.\<close>

definition ack_for :: "(bytes \<Rightarrow> SignedInboxResponse) \<Rightarrow> FetchJob \<Rightarrow> Message list" where
  "ack_for resp j = (case claim_token (resp (job_inbox_id j)) of
     None \<Rightarrow> [] | Some token \<Rightarrow> [InboxAck (job_inbox_id j) token])"

lemma pipeline_chunk_good:
  assumes "\<And>i. parse_inbox_response (raw i) = Ok (resp i) \<and> verify_inbox_response C vk i (resp i) = Ok ()"
  shows "pipeline_chunk C vk (map (\<lambda>j. (j, Ok (raw (job_inbox_id j)))) js) results
    = (concat (map (ack_for resp) js),
       Ok (results @ map (\<lambda>j. (job_inbox_id j, proto_payload (resp (job_inbox_id j)))) (filter (\<lambda>j. \<not> job_is_dummy j) js)))"
  by (induction js arbitrary: results) (simp_all add: assms ack_for_def Let_def)

lemma mset_concat_map: "mset (concat (map f js)) = (\<Sum>j\<in>#mset js. mset (f j))"
  by (induction js) simp_all

lemma run_pipelines_good:
  assumes "\<And>i. parse_inbox_response (raw i) = Ok (resp i) \<and> verify_inbox_response C vk i (resp i) = Ok ()"
  shows "run_pipelines C vk (map (\<lambda>js. Ok (map (\<lambda>j. (j, Ok (raw (job_inbox_id j)))) js)) chunks)
    = (concat (map (ack_for resp) (concat chunks)),
       map (\<lambda>j. (job_inbox_id j, proto_payload (resp (job_inbox_id j)))) (filter (\<lambda>j. \<not> job_is_dummy j) (concat chunks)))"
  unfolding run_pipelines_def Let_def
  by (induction chunks) (simp_all add: pipeline_chunk_good [OF assms] collect_results_def)

lemma enumerate_const: "map (\<lambda>(k, x). f x) (enumerate n xs) = map f xs"
  by (induction xs arbitrary: n) simp_all

text \<open>C11. A complete fetch: when every transport is acquired and every response parses and verifies, a fetch of any
  list of inboxes returns the payload of each requested inbox exactly once and nothing else, and acknowledges every
  claim it was given, including those of the dummy inboxes, however the jobs are shuffled and distributed.\<close>

theorem fetch_all_complete:
  assumes good: "\<And>i. parse_inbox_response (raw i) = Ok (resp i) \<and> verify_inbox_response C vk i (resp i) = Ok ()"
    and transport: "\<And>k. acquired k = Ok ()" "\<And>k i. fetch_one k i = Ok (raw i)"
    and perm: "\<And>js. mset (shuffle js) = mset js"
    and fetched: "fetch_all C vk inbox_ids dummies shuffle ready acquired fetch_one = (acks, results)"
  shows "mset results = mset (map (\<lambda>i. (i, proto_payload (resp i))) inbox_ids)
    \<and> (inbox_ids \<noteq> [] \<longrightarrow> mset acks = mset (concat (map (ack_for resp) (fetch_jobs inbox_ids dummies))))"
proof (cases "inbox_ids = []")
  case False
  let ?jobs = "fetch_jobs inbox_ids dummies"
  define chunks where "chunks = distribute_jobs (shuffle ?jobs) (max 1 (min 3 ready))"
  let ?pay = "\<lambda>j. (job_inbox_id j, proto_payload (resp (job_inbox_id j)))"
  have jobs: "mset (concat chunks) = mset ?jobs" by (simp add: chunks_def distribute_jobs_mset perm)
  have "fetch_all C vk inbox_ids dummies shuffle ready acquired fetch_one
      = run_pipelines C vk (map (\<lambda>js. Ok (map (\<lambda>j. (j, Ok (raw (job_inbox_id j)))) js)) chunks)"
    using False by (simp add: fetch_all_def transport enumerate_const Let_def chunks_def)
  then have r: "acks = concat (map (ack_for resp) (concat chunks))"
      "results = map ?pay (filter (\<lambda>j. \<not> job_is_dummy j) (concat chunks))"
    using fetched run_pipelines_good [OF good] by simp_all
  have real: "map ?pay (filter (\<lambda>j. \<not> job_is_dummy j) ?jobs) = map (\<lambda>i. (i, proto_payload (resp i))) inbox_ids"
    by (simp add: fetch_jobs_def filter_map comp_def)
  have "mset results = mset (map ?pay (filter (\<lambda>j. \<not> job_is_dummy j) ?jobs))"
    unfolding r(2) mset_map mset_filter jobs ..
  then show ?thesis using False r(1) jobs unfolding real by (simp add: mset_concat_map)
qed (use fetched in \<open>simp add: fetch_all_def\<close>)

theorem fetch_all_complete_witness:
  "let sig = (\<lambda>i. ed_sign demo_crypto [3] ([] @ u32_le 0 @ i @ u64_le 5));
       raw = (\<lambda>i. serialize (InboxMessages [] 0) @ (u64_le 5 @ replicate 32 0) @ sig i);
       r = fetch_all demo_crypto (ed_public demo_crypto [3]) [[8], [9]] [[1], [2]] rev 2 (\<lambda>k. Ok ()) (\<lambda>k i. Ok (raw i))
   in mset (snd r) = {#([8], serialize (InboxMessages [] 0)), ([9], serialize (InboxMessages [] 0))#} 
      \<and> mset (fst r) = mset (map (\<lambda>i. InboxAck i (u64_le 5 @ replicate 32 0)) [[8], [9], [1], [2]])"
proof -
  define sig where "sig i = ed_sign demo_crypto [3] ([] @ u32_le 0 @ i @ u64_le 5)" for i
  define token where "token = u64_le 5 @ replicate 32 (0 :: u8)"
  define resp where "resp i = \<lparr>proto_payload = serialize (InboxMessages [] 0), claim_token = Some token,
      server_sig = Some (sig i)\<rparr>" for i
  let ?raw = "\<lambda>i. serialize (InboxMessages [] 0) @ token @ sig i"
  have wf: "msg_wf (InboxMessages [] 0)" by (simp add: msg_wf_def fits_u32_def)
  have l: "length token = 40" "length (sig i) = 64" for i by (simp_all add: token_def sig_def ed_sign_length)
  have good: "parse_inbox_response (?raw i) = Ok (resp i)
      \<and> verify_inbox_response demo_crypto (ed_public demo_crypto [3]) i (resp i) = Ok ()" for i
    using parse_signed [OF wf l(1) l(2)] verify_signed [OF wf token_def, of demo_crypto "ed_public demo_crypto [3]" i "sig i"]
    by (simp add: resp_def sig_def ed_verify_sign)
  have perm: "mset (rev js) = mset js" for js :: "FetchJob list" by simp
  from fetch_all_complete [OF good, where acquired = "\<lambda>k. Ok ()" and fetch_one = "\<lambda>k i. Ok (?raw i)", OF refl refl perm
      prod.collapse [symmetric], of "[[8], [9]]" "[[1], [2]]" 2]
  show ?thesis
    by (simp add: Let_def token_def sig_def resp_def ack_for_def fetch_jobs_def del: append.simps)
qed

end
