(* ===== verification/Client_Connect.thy ===== *)
theory Client_Connect
  imports Client_Inbox
begin

text \<open>
  Connections of a client (\<^verbatim>\<open>crates/cypher-client-core/src\<close>): the gateway connection (\<^verbatim>\<open>connection.rs\<close>), the request and
  answer calls during start-up (\<^verbatim>\<open>signaling.rs\<close>), the ephemeral sessions and relay connections of anonymous fetches
  (\<^verbatim>\<open>onion/shadow.rs\<close>, \<^verbatim>\<open>relay_client.rs\<close>), the pool of transports (\<^verbatim>\<open>onion/pool.rs\<close>, \<^verbatim>\<open>indicator.rs\<close>), its service
  (\<^verbatim>\<open>onion/service.rs\<close>) and \<^verbatim>\<open>ClientApi::do_connect\<close> (\<^verbatim>\<open>api.rs\<close>).  The build without the optional Tor feature is
  modelled.  What a stream will yield and the outcome of each flush are part of the state of a connection.
\<close>

section \<open>Gateway connections\<close>

text \<open>
  \<^verbatim>\<open>gc_incoming\<close> is what the framed stream will yield: frames, errors, or \<^verbatim>\<open>None\<close> for the end of the stream; after the
  last item nothing arrives any more.  A receive call returns \<^verbatim>\<open>None\<close> when it waits for ever.
\<close>

record ServerConnection =
  gc_session :: transport_session
  gc_incoming :: "frame result option list"
  gc_flush :: "u32 \<Rightarrow> unit result"

definition from_session :: "frame result option list \<Rightarrow> (u32 \<Rightarrow> unit result) \<Rightarrow> transport_session \<Rightarrow> ServerConnection" where
  "from_session incoming flush s = \<lparr>gc_session = s, gc_incoming = incoming, gc_flush = flush\<rparr>"

definition next_flush :: "ServerConnection \<Rightarrow> unit result" where
  "next_flush c = gc_flush c (send_seq (gc_session c) + 1)"

definition send_payload :: "bytes \<Rightarrow> FrameFlags \<Rightarrow> ServerConnection \<Rightarrow> ServerConnection \<times> unit result" where
  "send_payload body fl c =
    (case send_frame (next_flush c) (gc_session c) body fl of (s, r) \<Rightarrow> (c\<lparr>gc_session := s\<rparr>, r))"

fun recv_data :: "(u32 \<Rightarrow> unit result) \<Rightarrow> transport_session \<Rightarrow> frame result option list
    \<Rightarrow> transport_session \<times> frame result option list \<times> frame result option" where
  "recv_data flush s [] = (s, [], None)"
| "recv_data flush s (item # items) =
    (case recv_frame item s of
       (s1, Err e) \<Rightarrow> (s1, items, Some (Err e))
     | (s1, Ok f) \<Rightarrow>
         if contains (flags f) PING then
           (case send_pong (flush (send_seq s1 + 1)) s1 of
              (s2, Err e) \<Rightarrow> (s2, items, Some (Err e))
            | (s2, Ok _) \<Rightarrow> recv_data flush s2 items)
         else if contains (flags f) PONG \<or> contains (flags f) ACK_ONLY then recv_data flush s1 items
         else if contains (flags f) SESSION_CLOSE then (s1, items, Some (Err ConnectionClosed))
         else (s1, items, Some (Ok f)))"

definition conn_recv_frame :: "ServerConnection \<Rightarrow> ServerConnection \<times> frame result option" where
  "conn_recv_frame c =
    (case recv_data (gc_flush c) (gc_session c) (gc_incoming c) of
       (s, items, r) \<Rightarrow> (c\<lparr>gc_session := s, gc_incoming := items\<rparr>, r))"

definition conn_close :: "unit result \<Rightarrow> ServerConnection \<Rightarrow> ServerConnection \<times> unit result" where
  "conn_close shut c = (case close (next_flush c) shut (gc_session c) of (s, r) \<Rightarrow> (c\<lparr>gc_session := s\<rparr>, r))"

section \<open>Requests and answers before the runtime starts\<close>

datatype ServerFrame = Signaling json | Proto bytes

text \<open>An answer processed once it has arrived.\<close>

definition on_answer :: "('a \<Rightarrow> 'b result) \<Rightarrow> ServerConnection \<times> 'a result option \<Rightarrow> ServerConnection \<times> 'b result option" where
  "on_answer f a = (fst a, map_option (\<lambda>r. and_then r f) (snd a))"

text \<open>A request that waits for an answer: the error of the send, or what \<^verbatim>\<open>answer\<close> makes of the connection.\<close>

definition ask :: "bytes \<Rightarrow> FrameFlags \<Rightarrow> (ServerConnection \<Rightarrow> ServerConnection \<times> 'a result option) \<Rightarrow> ServerConnection
    \<Rightarrow> ServerConnection \<times> 'a result option" where
  "ask body fl answer c =
    (case send_payload body fl c of (c1, Err e) \<Rightarrow> (c1, Some (Err e)) | (c1, Ok _) \<Rightarrow> answer c1)"

definition classify :: "json_lib \<Rightarrow> frame \<Rightarrow> ServerFrame result" where
  "classify J f =
    (if payload f \<noteq> [] \<and> hd (payload f) = 0x7B
     then and_then (ok_or (from_slice J (payload f)) (Protocol ''malformed JSON from server'')) (\<lambda>v. Ok (Signaling v))
     else Ok (Proto (payload f)))"

definition recv_server_frame :: "json_lib \<Rightarrow> ServerConnection \<Rightarrow> ServerConnection \<times> ServerFrame result option" where
  "recv_server_frame J c = on_answer (classify J) (conn_recv_frame c)"

definition session_ack :: "frame \<Rightarrow> bytes result" where
  "session_ack f = (case dispatch (payload f) of
     Ok (SessionAck server_nonce timestamp) \<Rightarrow> Ok server_nonce
   | _ \<Rightarrow> Err (Protocol ''invalid SESSION_ACK''))"

definition session_init :: "bytes \<Rightarrow> bytes \<Rightarrow> ServerConnection \<Rightarrow> ServerConnection \<times> bytes result option" where
  "session_init client_id nonce c =
    ask (serialize (SessionInit client_id nonce)) SESSION_INIT (\<lambda>c. on_answer session_ack (conn_recv_frame c)) c"

definition upload_prekeys :: "Message \<Rightarrow> ServerConnection \<Rightarrow> ServerConnection \<times> unit result" where
  "upload_prekeys upload c = send_payload (serialize upload) NONE c"

definition json_response :: "ServerFrame \<Rightarrow> json result" where
  "json_response f = (case f of
     Signaling v \<Rightarrow> Ok v
   | Proto _ \<Rightarrow> Err (Protocol ''expected JSON response but got proto binary''))"

definition expect_json_response :: "json_lib \<Rightarrow> ServerConnection \<Rightarrow> ServerConnection \<times> json result option" where
  "expect_json_response J c = on_answer json_response (recv_server_frame J c)"

definition prekeys_reply :: "json \<Rightarrow> (bytes \<times> bytes) result" where
  "prekeys_reply resp =
    (if json_field resp ''found'' as_bool \<noteq> Some True then Err (not_found_error ''prekeys not found'' resp)
     else and_then (json_bytes_field resp ''identity_key'') (\<lambda>ik.
       and_then (json_bytes_field resp ''signed_prekey'') (\<lambda>spk. Ok (ik, spk))))"

definition get_peer_prekeys ::
  "json_lib \<Rightarrow> PeerId \<Rightarrow> ServerConnection \<Rightarrow> ServerConnection \<times> (bytes \<times> bytes) result option" where
  "get_peer_prekeys J pid c =
    ask (serialize (KeysGetPrekeys (peer_bytes pid))) NONE (\<lambda>c. on_answer prekeys_reply (expect_json_response J c)) c"

definition bootstrap_reply :: "ServerFrame \<Rightarrow> (rstring \<times> bytes \<times> bytes \<times> u32) result" where
  "bootstrap_reply f = (case f of
     Signaling _ \<Rightarrow> Err (Protocol ''TransportBootstrap: expected proto response but got JSON'')
   | Proto body \<Rightarrow> and_then (dispatch body) (\<lambda>m. case m of
       TransportBootstrapInfo raddr rkey vkey caps \<Rightarrow> Ok (raddr, rkey, vkey, caps)
     | _ \<Rightarrow> Err (Protocol ''TransportBootstrap: unexpected proto response'')))"

definition get_transport_bootstrap ::
  "json_lib \<Rightarrow> ServerConnection \<Rightarrow> ServerConnection \<times> (rstring \<times> bytes \<times> bytes \<times> u32) result option" where
  "get_transport_bootstrap J c =
    ask (serialize TransportBootstrap) NONE (\<lambda>c. on_answer bootstrap_reply (recv_server_frame J c)) c"

definition sc_create_link :: "json_lib \<Rightarrow> ServerConnection \<Rightarrow> ServerConnection \<times> rstring result option" where
  "sc_create_link J c =
    ask (to_text J create_link_json) NONE (\<lambda>c. on_answer cl_create_link_reply (expect_json_response J c)) c"

definition sc_join_link :: "json_lib \<Rightarrow> rstring \<Rightarrow> ServerConnection \<Rightarrow> ServerConnection \<times> PeerId result option" where
  "sc_join_link J link c =
    ask (serialize (SignalRequestPeer link)) NONE (\<lambda>c. on_answer cl_join_link_reply (expect_json_response J c)) c"

definition send_ice_candidate :: "PeerId \<Rightarrow> rstring \<Rightarrow> ServerConnection \<Rightarrow> ServerConnection \<times> unit result" where
  "send_ice_candidate pid candidate c = send_payload (serialize (SignalIceCandidate candidate (peer_bytes pid))) NONE c"

definition send_offer :: "PeerId \<Rightarrow> bytes \<Rightarrow> ServerConnection \<Rightarrow> ServerConnection \<times> unit result" where
  "send_offer pid sdp c = send_payload (serialize (SignalOffer sdp (peer_bytes pid))) NONE c"

definition send_answer :: "PeerId \<Rightarrow> bytes \<Rightarrow> ServerConnection \<Rightarrow> ServerConnection \<times> unit result" where
  "send_answer pid sdp c = send_payload (serialize (SignalAnswer sdp (peer_bytes pid))) NONE c"

section \<open>Transports for anonymous fetches\<close>

text \<open>\<^verbatim>\<open>tokio::time::timeout\<close>: a call that would wait for ever fails when the time is over.\<close>

definition timed :: "string \<Rightarrow> 'a result option \<Rightarrow> 'a result" where
  "timed what r = (case r of None \<Rightarrow> Err (Transport what) | Some x \<Rightarrow> x)"

definition SHADOW_MAX_REQUESTS :: u32 where "SHADOW_MAX_REQUESTS = 30"
definition SHADOW_MAX_TTL_SECS :: nat where "SHADOW_MAX_TTL_SECS = 10 * 60"

text \<open>An ephemeral session with the gateway; \<^verbatim>\<open>sh_age\<close> is the number of seconds since it was created.\<close>

record ShadowSession =
  sh_conn :: ServerConnection
  sh_peer_id :: PeerId
  sh_age :: nat
  sh_requests :: u32

definition connect_with_connection ::
  "crypto \<Rightarrow> IdentityKeyPair \<Rightarrow> bytes \<Rightarrow> ServerConnection \<Rightarrow> ShadowSession result" where
  "connect_with_connection C identity nonce c =
    (case session_init (peer_id C identity) nonce c of
       (c1, r) \<Rightarrow> and_then (timed ''shadow session: SESSION_INIT timed out'' r) (\<lambda>_.
         Ok \<lparr>sh_conn = c1, sh_peer_id = PeerId (peer_id C identity), sh_age = 0, sh_requests = 0\<rparr>))"

definition is_expired :: "ShadowSession \<Rightarrow> bool" where
  "is_expired s \<longleftrightarrow> sh_requests s \<ge> SHADOW_MAX_REQUESTS \<or> sh_age s > SHADOW_MAX_TTL_SECS"

definition remaining_requests :: "ShadowSession \<Rightarrow> u32" where
  "remaining_requests s = saturating_sub SHADOW_MAX_REQUESTS (sh_requests s)"

definition shadow_send :: "bytes \<Rightarrow> FrameFlags \<Rightarrow> ShadowSession \<Rightarrow> ShadowSession \<times> unit result" where
  "shadow_send body fl s =
    (if is_expired s then (s, Err (Transport ''shadow session expired''))
     else case send_payload body fl (sh_conn s) of
       (c, Err e) \<Rightarrow> (s\<lparr>sh_conn := c\<rparr>, Err e)
     | (c, Ok _) \<Rightarrow> (s\<lparr>sh_conn := c, sh_requests := sh_requests s + 1\<rparr>, Ok ()))"

definition shadow_recv :: "ShadowSession \<Rightarrow> ShadowSession \<times> frame result option" where
  "shadow_recv s = (case conn_recv_frame (sh_conn s) of (c, r) \<Rightarrow> (s\<lparr>sh_conn := c\<rparr>, r))"

definition shadow_send_and_recv :: "bytes \<Rightarrow> FrameFlags \<Rightarrow> ShadowSession \<Rightarrow> ShadowSession \<times> frame result option" where
  "shadow_send_and_recv body fl s =
    (case shadow_send body fl s of (s1, Err e) \<Rightarrow> (s1, Some (Err e)) | (s1, Ok _) \<Rightarrow> shadow_recv s1)"

text \<open>The relay client answers pings and skips pongs; any other frame is the response.\<close>

fun recv_onion :: "(u32 \<Rightarrow> unit result) \<Rightarrow> transport_session \<Rightarrow> frame result option list
    \<Rightarrow> transport_session \<times> frame result option list \<times> bytes result option" where
  "recv_onion flush s [] = (s, [], None)"
| "recv_onion flush s (item # items) =
    (case recv_frame item s of
       (s1, Err e) \<Rightarrow> (s1, items, Some (Err e))
     | (s1, Ok f) \<Rightarrow>
         if contains (flags f) PING then
           (case send_pong (flush (send_seq s1 + 1)) s1 of
              (s2, Err e) \<Rightarrow> (s2, items, Some (Err e))
            | (s2, Ok _) \<Rightarrow> recv_onion flush s2 items)
         else if contains (flags f) PONG then recv_onion flush s1 items
         else (s1, items, Some (Ok (payload f))))"

definition relay_client_connect :: "ServerConnection \<Rightarrow> ServerConnection result" where
  "relay_client_connect c =
    (case send_payload (ascii ''ONION'') NONE c of (c1, Ok _) \<Rightarrow> Ok c1 | (c1, Err e) \<Rightarrow> Err e)"

definition relay_send_and_recv :: "bytes \<Rightarrow> ServerConnection \<Rightarrow> ServerConnection \<times> bytes result option" where
  "relay_send_and_recv onion_payload c =
    (case send_payload onion_payload NONE c of
       (c1, Err e) \<Rightarrow> (c1, Some (Err e))
     | (c1, Ok _) \<Rightarrow>
         (case recv_onion (gc_flush c1) (gc_session c1) (gc_incoming c1) of
            (s, items, r) \<Rightarrow> (c1\<lparr>gc_session := s, gc_incoming := items\<rparr>, r)))"

datatype TransportHandle = RelayHandle ServerConnection Circuit | DirectHandle ShadowSession

definition fetch_one :: "crypto \<Rightarrow> bytes \<Rightarrow> TransportHandle \<Rightarrow> TransportHandle \<times> bytes result option" where
  "fetch_one C inbox_id h =
    (let body = serialize (InboxFetch inbox_id) in
     case h of
       RelayHandle c circuit \<Rightarrow>
         (case encode_relay_request C circuit body of
            (circuit1, Err e) \<Rightarrow> (RelayHandle c circuit1, Some (Err e))
          | (circuit1, Ok onion_request) \<Rightarrow>
              (case relay_send_and_recv onion_request c of
                 (c1, r) \<Rightarrow> (RelayHandle c1 circuit1,
                   map_option (\<lambda>r. and_then r (decode_relay_response C (circuit_key circuit1) (circuit_id circuit1))) r)))
     | DirectHandle s \<Rightarrow>
         (case shadow_send_and_recv body NONE s of
            (s1, r) \<Rightarrow> (DirectHandle s1, map_option (\<lambda>r. and_then r (\<lambda>f. Ok (payload f))) r)))"

text \<open>The acknowledgement; the relay's answer to it is not looked at.\<close>

definition send_inbox_ack :: "crypto \<Rightarrow> bytes \<Rightarrow> bytes \<Rightarrow> TransportHandle \<Rightarrow> TransportHandle \<times> unit result option" where
  "send_inbox_ack C inbox_id token h =
    (let body = serialize (InboxAck inbox_id token) in
     case h of
       RelayHandle c circuit \<Rightarrow>
         (case encode_relay_request C circuit body of
            (circuit1, Err e) \<Rightarrow> (RelayHandle c circuit1, Some (Err e))
          | (circuit1, Ok onion) \<Rightarrow>
              (case relay_send_and_recv onion c of (c1, r) \<Rightarrow> (RelayHandle c1 circuit1, map_option (\<lambda>_. Ok ()) r)))
     | DirectHandle s \<Rightarrow>
         (case shadow_send_and_recv body NONE s of
            (s1, r) \<Rightarrow> (DirectHandle s1, map_option (\<lambda>r. and_then r (\<lambda>_. Ok ())) r)))"

section \<open>The transport pool\<close>

text \<open>
  \<^verbatim>\<open>tp_circuits\<close> is the vector of warmed circuits, the next one to hand out last.  \<^verbatim>\<open>tp_warming\<close> counts the background
  tasks that have been started and have not finished.
\<close>

record TransportPool =
  tp_circuits :: "(ServerConnection \<times> Circuit) list"
  tp_relay :: "RelayBootstrap option"
  tp_target_count :: nat
  tp_warming :: nat

definition pool_new :: "RelayBootstrap option \<Rightarrow> TransportPool" where
  "pool_new relay = \<lparr>tp_circuits = [], tp_relay = relay, tp_target_count = 3, tp_warming = 0\<rparr>"

definition with_target_count :: "nat \<Rightarrow> TransportPool \<Rightarrow> TransportPool" where
  "with_target_count n p = p\<lparr>tp_target_count := max n 1\<rparr>"

definition spawn_warming :: "nat \<Rightarrow> TransportPool \<Rightarrow> TransportPool" where
  "spawn_warming n p = p\<lparr>tp_warming := tp_warming p + n\<rparr>"

definition start_warming :: "TransportPool \<Rightarrow> TransportPool" where
  "start_warming p = (if tp_relay p \<noteq> None then spawn_warming (tp_target_count p) p else p)"

text \<open>A background task ends: the outcome of connecting to the relay and the randomness of the circuit are arguments.\<close>

definition warm_one :: "crypto \<Rightarrow> ServerConnection result \<Rightarrow> bytes \<Rightarrow> bytes \<Rightarrow> TransportPool \<Rightarrow> TransportPool" where
  "warm_one C connected_to ek cid p =
    (let p1 = p\<lparr>tp_warming := tp_warming p - 1\<rparr> in
     case tp_relay p of
       None \<Rightarrow> p1
     | Some relay \<Rightarrow>
         (case and_then connected_to relay_client_connect of
            Err e \<Rightarrow> p1
          | Ok client \<Rightarrow> p1\<lparr>tp_circuits := tp_circuits p @ [(client, circuit_new C ek cid (rb_public_key relay))]\<rparr>))"

definition acquire :: "ShadowSession result \<Rightarrow> TransportPool \<Rightarrow> TransportPool \<times> TransportHandle result" where
  "acquire direct p =
    (case rev (tp_circuits p) of
       (client, circuit) # rest \<Rightarrow>
         let p1 = p\<lparr>tp_circuits := rev rest\<rparr>;
             p2 = (if length rest < tp_target_count p \<and> tp_relay p \<noteq> None then spawn_warming 1 p1 else p1)
         in (p2, Ok (RelayHandle client circuit))
     | [] \<Rightarrow>
         let p1 = (if tp_relay p \<noteq> None then spawn_warming 1 p else p)
         in (p1, and_then direct (\<lambda>s. Ok (DirectHandle s))))"

definition release :: "TransportHandle \<Rightarrow> TransportPool \<Rightarrow> TransportPool" where
  "release h p =
    (case h of
       RelayHandle client circuit \<Rightarrow>
         if length (tp_circuits p) < tp_target_count p then p\<lparr>tp_circuits := tp_circuits p @ [(client, circuit)]\<rparr> else p
     | DirectHandle s \<Rightarrow> p)"

definition relay_ready_count :: "TransportPool \<Rightarrow> nat" where
  "relay_ready_count p = length (tp_circuits p)"

definition compute_level :: "TransportPool \<Rightarrow> AnonymityLevel" where
  "compute_level p = (if relay_ready_count p > 0 then LevelRelay else LevelDirect)"

section \<open>The anonymous transport service\<close>

datatype PowerMode = Desktop | MobileForeground | MobileBackground | BatterySaver

record TorSettings =
  tor_enabled :: bool
  tor_bridge_lines :: "rstring list"

definition tor_settings_default :: TorSettings where
  "tor_settings_default = \<lparr>tor_enabled = True, tor_bridge_lines = []\<rparr>"

record AnonymousTransportConfig =
  ac_power_mode :: PowerMode
  ac_target_count :: nat
  ac_tor :: TorSettings

definition anonymous_config_default :: AnonymousTransportConfig where
  "anonymous_config_default = \<lparr>ac_power_mode = Desktop, ac_target_count = 3, ac_tor = tor_settings_default\<rparr>"

text \<open>\<^verbatim>\<open>as_cover\<close> is the mode of the cover-traffic task that is running.\<close>

record AnonymousTransportService =
  as_config :: AnonymousTransportConfig
  as_bootstrap :: TransportBootstrap
  as_pool :: TransportPool
  as_cover :: "PowerMode option"

definition service_new :: "TransportBootstrap \<Rightarrow> AnonymousTransportConfig \<Rightarrow> AnonymousTransportService result" where
  "service_new bootstrap config =
    (if \<not> supports_signed_inbox bootstrap then Err (Protocol ''transport bootstrap missing signed inbox capability'')
     else Ok \<lparr>as_config = config, as_bootstrap = bootstrap,
              as_pool = with_target_count (ac_target_count config) (pool_new (tb_relay bootstrap)), as_cover = None\<rparr>)"

definition restart_cover :: "AnonymousTransportService \<Rightarrow> AnonymousTransportService" where
  "restart_cover sv = sv\<lparr>as_cover := Some (ac_power_mode (as_config sv))\<rparr>"

definition service_start :: "AnonymousTransportService \<Rightarrow> AnonymousTransportService" where
  "service_start sv = restart_cover (sv\<lparr>as_pool := start_warming (as_pool sv)\<rparr>)"

definition set_config :: "AnonymousTransportConfig \<Rightarrow> AnonymousTransportService \<Rightarrow> AnonymousTransportService" where
  "set_config config sv = restart_cover (sv\<lparr>as_config := config\<rparr>)"

definition service_level :: "AnonymousTransportService \<Rightarrow> AnonymityLevel" where
  "service_level sv = compute_level (as_pool sv)"

text \<open>
  One round of the cover-traffic loop: the seconds it sleeps, and whether it fetches afterwards.  \<^verbatim>\<open>random_interval\<close> is
  given its random number.
\<close>

definition random_interval :: "nat \<Rightarrow> nat \<Rightarrow> nat \<Rightarrow> nat" where
  "random_interval rnd min_secs max_secs = min_secs + rnd mod (max_secs - min_secs + 1)"

fun cover_round :: "nat \<Rightarrow> PowerMode \<Rightarrow> nat \<times> bool" where
  "cover_round rnd Desktop = (random_interval rnd 120 300, True)"
| "cover_round rnd MobileForeground = (random_interval rnd 300 600, True)"
| "cover_round rnd MobileBackground = (60, False)"
| "cover_round rnd BatterySaver = (60, False)"

text \<open>
  The delays before the fetches of a pipeline, in milliseconds: \<^verbatim>\<open>raw\<close> are the exponential samples, \<^verbatim>\<open>pauses\<close> the one or
  two longer pauses with their positions.
\<close>

definition next_jitter :: "nat \<Rightarrow> nat" where
  "next_jitter raw = max 20 (min 500 raw)"

definition pipeline_schedule :: "nat list \<Rightarrow> (nat \<times> nat) list \<Rightarrow> nat \<Rightarrow> nat list" where
  "pipeline_schedule raw pauses n =
    (if n = 0 then []
     else fold (\<lambda>(pos, extra) ds. ds[pos := ds ! pos + extra]) pauses (map (\<lambda>i. next_jitter (raw ! i)) [0..<n]))"

section \<open>Connecting to the gateway\<close>

text \<open>
  The parts of \<^verbatim>\<open>ClientApi\<close> that concern its connections, beside the state \<^verbatim>\<open>Client\<close> its handlers share.  \<^verbatim>\<open>nc_io\<close> is the
  transport session of the I/O task.
\<close>

record ClientApi =
  nc_core :: Client
  nc_config :: AnonymousTransportConfig
  nc_service :: "AnonymousTransportService option"
  nc_io :: "ServerConnection option"
  nc_p2p :: "(SocketAddr \<times> SocketAddr) option"
  nc_relay :: "rstring option"

definition api_build :: "Client \<Rightarrow> ClientApi" where
  "api_build cl = \<lparr>nc_core = cl, nc_config = anonymous_config_default, nc_service = None, nc_io = None, nc_p2p = None,
     nc_relay = None\<rparr>"

definition set_anonymous_transport_config :: "AnonymousTransportConfig \<Rightarrow> ClientApi \<Rightarrow> ClientApi \<times> unit result" where
  "set_anonymous_transport_config config nc =
    (nc\<lparr>nc_config := config, nc_service := map_option (set_config config) (nc_service nc)\<rparr>, Ok ())"

text \<open>
  What the outside contributes to a fetch: the dummy identifiers, the shuffle of the jobs, the outcome of acquiring the
  transport of each pipeline and the answers of the fetches made over it.
\<close>

record fetch_world =
  fw_dummies :: "bytes list"
  fw_shuffle :: "FetchJob list \<Rightarrow> FetchJob list"
  fw_acquired :: "nat \<Rightarrow> unit result"
  fw_fetch_one :: "nat \<Rightarrow> bytes \<Rightarrow> bytes result"

definition service_fetch_all ::
  "crypto \<Rightarrow> fetch_world \<Rightarrow> bytes list \<Rightarrow> AnonymousTransportService \<Rightarrow> Message list \<times> (bytes \<times> bytes) list" where
  "service_fetch_all C W inbox_ids sv =
    fetch_all C (tb_inbox_verifying_key (as_bootstrap sv)) inbox_ids (fw_dummies W) (fw_shuffle W)
      (relay_ready_count (as_pool sv)) (fw_acquired W) (fw_fetch_one W)"

text \<open>The first component of the result are the acknowledgements that were sent.\<close>

definition fetch_inbox :: "client_env \<Rightarrow> fetch_world \<Rightarrow> ClientApi \<Rightarrow> Message list \<times> ClientApi \<times> unit result" where
  "fetch_inbox E W nc =
    (if cl_inbox_id (nc_core nc) = [] then ([], nc, Ok ())
     else case nc_service nc of
       None \<Rightarrow> ([], nc, Err (Session ''anonymous transport not initialized''))
     | Some sv \<Rightarrow>
         (case service_fetch_all (ce_crypto E) W [cl_inbox_id (nc_core nc)] sv of
            (acks, results) \<Rightarrow>
              (case cl_outbound (nc_core nc) of
                 None \<Rightarrow> (acks, nc, Err (Session ''not connected to gateway''))
               | Some q \<Rightarrow> (acks, nc\<lparr>nc_core := dispatch_results E results (nc_core nc)\<rparr>, Ok ()))))"

text \<open>The first three exchanges of \<^verbatim>\<open>do_connect\<close>, each under its timeout.\<close>

definition connect_phases ::
  "client_env \<Rightarrow> bytes \<Rightarrow> Client \<Rightarrow> ServerConnection \<Rightarrow> (ServerConnection \<times> TransportBootstrap) result" where
  "connect_phases E nonce cl conn =
    (case session_init (peer_bytes (cl_peer_id cl)) nonce conn of
       (c1, r1) \<Rightarrow> and_then (timed ''SESSION_INIT timed out'' r1) (\<lambda>_.
    (case upload_prekeys (prekey_upload (ce_crypto E) cl) c1 of
       (c2, r2) \<Rightarrow> and_then r2 (\<lambda>_.
    (case get_transport_bootstrap (ce_json E) c2 of
       (c3, r3) \<Rightarrow> and_then (timed ''transport bootstrap timed out'' r3) (\<lambda>(raddr, rkey, vkey, caps).
         and_then (bootstrap_from_proto (ce_crypto E) raddr rkey vkey caps) (\<lambda>b. Ok (c3, b))))))))"

text \<open>
  \<^verbatim>\<open>connected\<close> is the outcome of the TLS connection, \<^verbatim>\<open>warmed\<close> what the warm-up tasks achieve before the level is read, and
  \<^verbatim>\<open>slow\<close> says that the inbox fetch does not finish in its ten seconds.
\<close>

definition do_connect ::
  "client_env \<Rightarrow> fetch_world \<Rightarrow> ServerConnection result \<Rightarrow> bytes \<Rightarrow> (ServerConnection result \<times> bytes \<times> bytes) list \<Rightarrow> bool
    \<Rightarrow> ClientApi \<Rightarrow> Message list \<times> ClientApi \<times> unit result" where
  "do_connect E W conn nonce warmed slow nc =
    (case and_then conn (connect_phases E nonce (nc_core nc)) of
       Err e \<Rightarrow> ([], nc, Err e)
     | Ok (c, bootstrap) \<Rightarrow>
         (case service_new bootstrap (nc_config nc) of
            Err e \<Rightarrow> ([], nc, Err e)
          | Ok sv \<Rightarrow>
              let sv1 = service_start sv;
                  sv2 = sv1\<lparr>as_pool := fold (\<lambda>(r, ek, cid). warm_one (ce_crypto E) r ek cid) warmed (as_pool sv1)\<rparr>;
                  cl = (nc_core nc)\<lparr>cl_outbound := Some [], cl_io_alive := True\<rparr>;
                  nc1 = nc\<lparr>nc_service := Some sv2, nc_io := Some c,
                           nc_core := emit (EvAnonymityLevelChanged (service_level sv2)) (emit (EvConnected (cl_peer_id cl)) cl)\<rparr>
              in if cl_inbox_id cl = [] then ([], nc1, Ok ())
                 else if slow then ([], nc1, Err (Transport ''blind inbox fetch timed out''))
                 else fetch_inbox E W nc1))"

section \<open>Reaching a peer directly or through a relay\<close>

text \<open>
  \<^verbatim>\<open>bound\<close> is the outcome of binding the agent's socket and \<^verbatim>\<open>fmt\<close> the textual form of an address.  Other tasks run while
  the candidates are gathered: \<^verbatim>\<open>meanwhile\<close> are the ICE messages dispatched before the new agent is stored.
\<close>

definition ice_messages :: "client_env \<Rightarrow> (rstring \<times> bytes) list \<Rightarrow> Client \<Rightarrow> Client" where
  "ice_messages E msgs cl = fold (\<lambda>(candidate, pid). cl_handle_ice_candidate E candidate pid) msgs cl"

fun send_candidates :: "(SocketAddr \<Rightarrow> rstring) \<Rightarrow> PeerId \<Rightarrow> Candidate list \<Rightarrow> Client \<Rightarrow> Client \<times> unit result" where
  "send_candidates fmt pid [] cl = (cl, Ok ())"
| "send_candidates fmt pid (c # cs) cl =
    (case send_raw (serialize (SignalIceCandidate (fmt (addr c)) (peer_bytes pid))) NONE cl of
       (cl1, Err e) \<Rightarrow> (cl1, Err e)
     | (cl1, Ok _) \<Rightarrow> send_candidates fmt pid cs cl1)"

definition cl_gather_candidates ::
  "client_env \<Rightarrow> (SocketAddr \<Rightarrow> rstring) \<Rightarrow> SocketAddr result \<Rightarrow> bytes \<Rightarrow> (nat \<Rightarrow> attempt) \<Rightarrow> (rstring \<times> bytes) list \<Rightarrow> PeerId
    \<Rightarrow> Client \<Rightarrow> Client \<times> Candidate list result" where
  "cl_gather_candidates E fmt bound transaction_id net meanwhile pid cl0 =
    (let cl = ice_messages E meanwhile cl0 in
     case bound of
       Err e \<Rightarrow> (cl, Err e)
     | Ok a \<Rightarrow>
         (case gather_candidates transaction_id net (ice_agent_new a) of
            (agent, candidates) \<Rightarrow>
              (case send_candidates fmt pid candidates cl of
                 (cl1, Err e) \<Rightarrow> (cl1, Err e)
               | (cl1, Ok _) \<Rightarrow> (cl1\<lparr>cl_ice_agent := Some agent\<rparr>, Ok candidates))))"

definition cl_add_remote_candidate :: "Candidate \<Rightarrow> Client \<Rightarrow> Client" where
  "cl_add_remote_candidate c cl = cl\<lparr>cl_ice_agent := map_option (add_remote_candidate c) (cl_ice_agent cl)\<rparr>"

definition try_p2p_connect ::
  "(nat \<Rightarrow> punch_event list) \<Rightarrow> ClientApi \<Rightarrow> ClientApi \<times> (SocketAddr \<times> SocketAddr) result option" where
  "try_p2p_connect net nc =
    (case cl_ice_agent (nc_core nc) of
       None \<Rightarrow> (nc, Some (Err (Nat ''no ICE agent; call gather_candidates first'')))
     | Some agent \<Rightarrow>
         (case check_connectivity net agent of
            Some (Ok p) \<Rightarrow> (nc\<lparr>nc_p2p := Some p\<rparr>, Some (Ok p))
          | r \<Rightarrow> (nc, r)))"

definition connect_relay :: "unit result \<Rightarrow> rstring \<Rightarrow> ClientApi \<Rightarrow> ClientApi \<times> unit result" where
  "connect_relay connected_to session_key nc =
    (case connected_to of Err e \<Rightarrow> (nc, Err e) | Ok _ \<Rightarrow> (nc\<lparr>nc_relay := Some session_key\<rparr>, Ok ()))"

text \<open>
  \<^verbatim>\<open>window\<close> are the ICE messages dispatched between the storing of the new agent and the connectivity check, which holds
  the agent's lock until it ends.
\<close>

definition connect_p2p_or_relay ::
  "client_env \<Rightarrow> (SocketAddr \<Rightarrow> rstring) \<Rightarrow> SocketAddr result \<Rightarrow> bytes \<Rightarrow> (nat \<Rightarrow> attempt) \<Rightarrow> (rstring \<times> bytes) list
    \<Rightarrow> (rstring \<times> bytes) list \<Rightarrow> (nat \<Rightarrow> punch_event list) \<Rightarrow> unit result \<Rightarrow> PeerId \<Rightarrow> rstring \<Rightarrow> ClientApi
    \<Rightarrow> ClientApi \<times> unit result" where
  "connect_p2p_or_relay E fmt bound tid stun meanwhile window probes relay pid session_key nc =
    (case cl_gather_candidates E fmt bound tid stun meanwhile pid (nc_core nc) of
       (cl, Err e) \<Rightarrow> (nc\<lparr>nc_core := cl\<rparr>, Err e)
     | (cl, Ok candidates) \<Rightarrow>
         (case try_p2p_connect probes (nc\<lparr>nc_core := ice_messages E window cl\<rparr>) of
            (nc1, Some (Ok p)) \<Rightarrow> (nc1, Ok ())
          | (nc1, r) \<Rightarrow> connect_relay relay session_key nc1))"

record P2PConnection =
  p2p_local_addr :: SocketAddr
  p2p_remote_addr :: SocketAddr

definition p2p_establish ::
  "SocketAddr result \<Rightarrow> bytes \<Rightarrow> (nat \<Rightarrow> attempt) \<Rightarrow> (nat \<Rightarrow> punch_event list) \<Rightarrow> Candidate list \<Rightarrow> P2PConnection result option" where
  "p2p_establish bound transaction_id stun probes remotes =
    (case bound of
       Err e \<Rightarrow> Some (Err e)
     | Ok a \<Rightarrow>
         map_option (\<lambda>r. and_then r (\<lambda>(l, r). Ok \<lparr>p2p_local_addr = l, p2p_remote_addr = r\<rparr>))
           (check_connectivity probes
             (fold add_remote_candidate remotes (fst (gather_candidates transaction_id stun (ice_agent_new a))))))"

fun p2p_recv :: "P2PConnection \<Rightarrow> (nat \<times> SocketAddr) result list \<Rightarrow> nat result option" where
  "p2p_recv c [] = None"
| "p2p_recv c (Err e # items) = Some (Err e)"
| "p2p_recv c (Ok (len, from) # items) = (if from = p2p_remote_addr c then Some (Ok len) else p2p_recv c items)"

section \<open>Direct connections are not tried\<close>

lemma cl_ice_agent_emit [simp]: "cl_ice_agent (emit ev cl) = cl_ice_agent cl"
  by (simp add: emit_def)

lemma send_raw_ok:
  assumes "cl_outbound cl = Some q" "cl_io_alive cl"
  shows "send_raw body fl cl = (cl\<lparr>cl_outbound := Some (q @ [(body, fl)])\<rparr>, Ok ())"
  using assms by (simp add: send_raw_def)

lemma send_candidates_ok:
  "cl_outbound cl = Some q \<Longrightarrow> cl_io_alive cl \<Longrightarrow> send_candidates fmt pid cs cl
    = (cl\<lparr>cl_outbound := Some (q @ map (\<lambda>c. (serialize (SignalIceCandidate (fmt (addr c)) (peer_bytes pid)), NONE)) cs)\<rparr>, Ok ())"
  by (induction cs arbitrary: cl q) (simp_all add: send_raw_ok)

lemma cl_handle_ice_candidate_outbound [simp]:
  "cl_outbound (cl_handle_ice_candidate E c pid cl) = cl_outbound cl"
  "cl_io_alive (cl_handle_ice_candidate E c pid cl) = cl_io_alive cl"
  by (simp_all add: cl_handle_ice_candidate_def emit_def split: option.splits)

lemma ice_messages_outbound [simp]:
  "cl_outbound (ice_messages E ms cl) = cl_outbound cl" "cl_io_alive (ice_messages E ms cl) = cl_io_alive cl"
  unfolding ice_messages_def by (induction ms arbitrary: cl) (simp_all add: case_prod_beta)

text \<open>The fallback is the rule.  \<^verbatim>\<open>connect_p2p_or_relay\<close> stores a new agent, which knows no candidate of the peer, and
  starts the connectivity check at once; the check keeps the agent locked.  Candidates of the peer that were handled
  before the new agent was stored went to the agent it replaces or nowhere.  So unless a candidate is dispatched in the
  short window between the two locks, no probe is sent and the client connects to the relay, whatever the network could do.
\<close>

theorem p2p_not_tried:
  fixes E :: client_env
  assumes "cl_outbound (nc_core nc) = Some q" "cl_io_alive (nc_core nc)"
    and "connect_p2p_or_relay E fmt (Ok a) tid stun meanwhile [] probes relay pid key nc = (nc1, r)"
  shows "r = relay \<and> nc_p2p nc1 = nc_p2p nc \<and> nc_relay nc1 = (if is_ok relay then Some key else nc_relay nc)"
proof -
  obtain agent cs where g: "gather_candidates tid stun (ice_agent_new a) = (agent, cs)" by fastforce
  then have "remote_candidates agent = []"
    by (auto simp: gather_candidates_def ice_agent_new_def Let_def split: result.splits)
  then have "check_connectivity probes agent = Some (Err (Nat ''all connectivity checks failed''))"
    by (simp add: check_connectivity_def sort_candidates_def)
  with assms g show ?thesis
    by (auto simp: connect_p2p_or_relay_def cl_gather_candidates_def send_candidates_ok try_p2p_connect_def
        ice_messages_def [of _ "[]"] connect_relay_def Let_def split: result.splits)
qed

theorem p2p_not_tried_witness:
  "snd (connect_p2p_or_relay (demo_env 0) (\<lambda>_. []) (Ok (SockV4 1 2)) [] (\<lambda>_. NoAnswer) [([], [])] [] (\<lambda>_. [PunchTick 5]) (Ok ())
      (PeerId [2]) [7] (api_build ((demo_client 1)\<lparr>cl_outbound := Some []\<rparr>))) = Ok ()"
proof -
  let ?nc = "api_build ((demo_client 1)\<lparr>cl_outbound := Some []\<rparr>)"
  have "cl_outbound (nc_core ?nc) = Some []" "cl_io_alive (nc_core ?nc)"
    by (simp_all add: api_build_def demo_client_def client_new_def client_build_def)
  from p2p_not_tried [OF this surjective_pairing] show ?thesis by blast
qed

section \<open>Connecting succeeds against the service's answers\<close>

definition flushes :: "ServerConnection \<Rightarrow> bool" where
  "flushes c \<longleftrightarrow> (\<forall>n. gc_flush c n = Ok ())"

lemma send_payload_flushes:
  assumes "flushes c" "length body \<le> 1000000"
  shows "\<exists>s. send_payload body fl c = (c\<lparr>gc_session := s\<rparr>, Ok ())"
  using assms
  by (auto simp: flushes_def send_payload_def send_frame_def next_flush_def encode_def HEADER_SIZE_def MAX_FRAME_SIZE_def Let_def
      intro!: exI [of _ "fst (send_frame (Ok ()) (gc_session c) body fl)"])

lemma ask_flushes:
  assumes "flushes c" "length body \<le> 1000000"
  shows "\<exists>s. ask body fl answer c = answer (c\<lparr>gc_session := s\<rparr>)"
  using send_payload_flushes [OF assms, of fl] by (auto simp: ask_def)

text \<open>Frames that a receive call returns: neither control frames nor the end of the session.\<close>

definition plain_frame :: "frame \<Rightarrow> bool" where
  "plain_frame f \<longleftrightarrow> flags f = NONE \<or> flags f = SESSION_INIT"

lemma recv_plain:
  assumes "gc_incoming c = Some (Ok f) # items" "plain_frame f"
  shows "\<exists>s. conn_recv_frame c = (c\<lparr>gc_session := s, gc_incoming := items\<rparr>, Some (Ok f))"
  using assms
  by (auto simp: conn_recv_frame_def recv_frame_def plain_frame_def contains_def NONE_def SESSION_INIT_def PING_def PONG_def
      ACK_ONLY_def SESSION_CLOSE_def)

lemma flushes_update [simp]: "flushes (c\<lparr>gc_session := s\<rparr>) = flushes c" "flushes (c\<lparr>gc_incoming := i\<rparr>) = flushes c"
  by (simp_all add: flushes_def)

lemma ask_plain:
  assumes "flushes c" "length body \<le> 1000000" "gc_incoming c = Some (Ok f) # items" "plain_frame f"
  obtains s where "ask body fl (\<lambda>c. on_answer g (conn_recv_frame c)) c
      = (c\<lparr>gc_session := s, gc_incoming := items\<rparr>, Some (g f))"
proof -
  obtain s where s: "ask body fl (\<lambda>c. on_answer g (conn_recv_frame c)) c = on_answer g (conn_recv_frame (c\<lparr>gc_session := s\<rparr>))"
    using ask_flushes [OF assms(1,2)] by metis
  obtain s2 where "conn_recv_frame (c\<lparr>gc_session := s\<rparr>) = (c\<lparr>gc_session := s2, gc_incoming := items\<rparr>, Some (Ok f))"
    using recv_plain [of "c\<lparr>gc_session := s\<rparr>" f items] assms by auto
  with s that show ?thesis by (simp add: on_answer_def)
qed

lemma on_answer_on_answer: "on_answer f (on_answer g a) = on_answer (\<lambda>x. and_then (g x) f) a"
  by (cases a; cases "snd a"; cases "the (snd a)"; auto simp: on_answer_def)

lemma pad4_le: "pad4 n \<le> 4"
  by (simp add: pad4_def)

lemma length_encode_bytes_le: "length (encode_bytes [] b) \<le> length b + 8"
  using pad4_le [of "length b"] by (simp add: encode_bytes_def)

lemma serialized_sizes:
  "length (serialize TransportBootstrap) \<le> 1000000"
  by (simp add: serialize_def serialize_struct_def)

text \<open>What the first two answers of the services make of the connection phase.\<close>

lemma connect_phases_answers:
  fixes E :: client_env
  assumes c: "crypto_ok (ce_crypto E)" "flushes conn" "gc_incoming conn = Some (Ok f1) # Some (Ok f2) # items"
    and f: "plain_frame f1" "payload f1 = serialize (SessionAck server_nonce ts)" "msg_wf (SessionAck server_nonce ts)" "plain_frame f2"
    and l: "length (peer_bytes (cl_peer_id cl)) = 32" "length nonce = 32" "length (cl_inbox_id cl) \<le> 32"
  obtains conn1 where "connect_phases E nonce cl conn
      = and_then (and_then (classify (ce_json E) f2) bootstrap_reply) (\<lambda>(raddr, rkey, vkey, caps).
          and_then (bootstrap_from_proto (ce_crypto E) raddr rkey vkey caps) (\<lambda>b. Ok (conn1, b)))"
    and "gc_incoming conn1 = items"
proof -
  let ?C = "ce_crypto E"
  have n: "length (serialize (SessionInit (peer_bytes (cl_peer_id cl)) nonce)) \<le> 1000000"
    using l length_encode_bytes_le [of nonce] length_encode_bytes_le [of "peer_bytes (cl_peer_id cl)"]
    by (simp add: serialize_def serialize_struct_def)
  obtain s1 where 1: "session_init (peer_bytes (cl_peer_id cl)) nonce conn
      = (conn\<lparr>gc_session := s1, gc_incoming := Some (Ok f2) # items\<rparr>, Some (session_ack f1))"
    unfolding session_init_def by (rule ask_plain [OF c(2) n c(3) f(1)])
  have ack: "session_ack f1 = Ok server_nonce" using dispatch_serialize [OF f(3), of "[]"] f(2) by (simp add: session_ack_def)
  let ?c1 = "conn\<lparr>gc_session := s1, gc_incoming := Some (Ok f2) # items\<rparr>"
  have "length (serialize (prekey_upload ?C cl)) \<le> 1000000"
    using l c(1) length_encode_bytes_le [of "dh_public_key ?C (km_identity (cl_keys cl))"]
      length_encode_bytes_le [of "x25519_public ?C (spk_secret (cl_keys cl))"] length_encode_bytes_le [of "cl_inbox_id cl"]
    by (simp add: prekey_upload_eq dh_public_key_def x25519_public_length serialize_def serialize_struct_def)
  then obtain s2 where 2: "upload_prekeys (prekey_upload ?C cl) ?c1 = (?c1\<lparr>gc_session := s2\<rparr>, Ok ())"
    using send_payload_flushes [of ?c1] c(2) unfolding upload_prekeys_def by fastforce
  obtain s3 where 3: "get_transport_bootstrap (ce_json E) (?c1\<lparr>gc_session := s2\<rparr>)
      = (?c1\<lparr>gc_session := s3, gc_incoming := items\<rparr>, Some (and_then (classify (ce_json E) f2) bootstrap_reply))"
    unfolding get_transport_bootstrap_def recv_server_frame_def on_answer_on_answer
    by (rule ask_plain [of "?c1\<lparr>gc_session := s2\<rparr>" _ f2 items]) (use c f serialized_sizes in simp_all)
  show ?thesis
    by (rule that [of "?c1\<lparr>gc_session := s3, gc_incoming := items\<rparr>"])
      (simp_all add: connect_phases_def 1 2 3 [simplified] ack timed_def)
qed

lemma classify_info:
  assumes "msg_wf (TransportBootstrapInfo raddr rkey vkey caps)" "payload f = serialize (TransportBootstrapInfo raddr rkey vkey caps)"
  shows "and_then (classify J f) bootstrap_reply = Ok (raddr, rkey, vkey, caps)"
  using dispatch_serialize [OF assms(1), of "[]"] assms(2) serialize_not_json by (simp add: classify_def bootstrap_reply_def)


definition demo_conn :: "frame list \<Rightarrow> ServerConnection" where
  "demo_conn fs = from_session (map (\<lambda>f. Some (Ok f)) fs) (\<lambda>_. Ok ()) from_stream"

definition demo_api :: ClientApi where
  "demo_api = api_build ((demo_client 1)\<lparr>cl_peer_id := PeerId (replicate 32 1)\<rparr>)"

definition demo_ack :: frame where
  "demo_ack = \<lparr>seq_no = 1, ack = 1, flags = SESSION_INIT, payload = serialize (SessionAck [7] 5)\<rparr>"

definition demo_info :: frame where
  "demo_info = \<lparr>seq_no = 2, ack = 3, flags = NONE,
     payload = serialize (TransportBootstrapInfo (ascii ''r:1'') (replicate 32 4) (ed_public demo_crypto [3])
       (or CLIENT_CAPABILITY_SIGNED_INBOX CLIENT_CAPABILITY_RELAY))\<rparr>"

definition demo_world :: fetch_world where
  "demo_world = \<lparr>fw_dummies = [], fw_shuffle = id, fw_acquired = (\<lambda>_. Ok ()), fw_fetch_one = (\<lambda>_ _. Err ConnectionClosed)\<rparr>"

lemma demo_api_facts:
  "length (peer_bytes (cl_peer_id (nc_core demo_api))) = 32" "cl_inbox_id (nc_core demo_api) = []"
  "flushes (demo_conn fs)" "gc_incoming (demo_conn fs) = map (\<lambda>f. Some (Ok f)) fs"
  "crypto_ok (ce_crypto (demo_env 0))" "plain_frame demo_ack" "plain_frame demo_info" "msg_wf (SessionAck [7] 5)"
  by (simp_all add: demo_api_def api_build_def demo_client_def client_new_def client_build_def demo_conn_def from_session_def
      flushes_def demo_env_def demo_crypto_ok plain_frame_def demo_ack_def demo_info_def msg_wf_def fits_u32_def)


text \<open>A message that is delivered too early breaks the connection attempt.  From the moment the gateway has
  acknowledged the session other clients can reach it; \<^verbatim>\<open>get_transport_bootstrap\<close> takes the next data frame for its answer.
  If a message of a peer arrives before the answer of the signaling service, \<^verbatim>\<open>do_connect\<close> fails, the client stays
  disconnected, and the message is lost.
\<close>

theorem early_message_breaks_connect:
  fixes E :: client_env
  assumes E: "crypto_ok (ce_crypto E)" "flushes conn"
    and i: "gc_incoming conn = Some (Ok f1) # Some (Ok f2) # items" "plain_frame f1" "plain_frame f2"
    and f: "payload f1 = serialize (SessionAck server_nonce ts)" "msg_wf (SessionAck server_nonce ts)"
      "payload f2 = serialize (ChatSend pid ciphertext ratchet_key msg_no)" "msg_wf (ChatSend pid ciphertext ratchet_key msg_no)"
    and l: "length (peer_bytes (cl_peer_id (nc_core nc))) = 32" "length nonce = 32" "length (cl_inbox_id (nc_core nc)) \<le> 32"
  shows "do_connect E W (Ok conn) nonce warmed slow nc
    = ([], nc, Err (Protocol ''TransportBootstrap: unexpected proto response''))"
proof -
  have "and_then (classify (ce_json E) f2) bootstrap_reply = Err (Protocol ''TransportBootstrap: unexpected proto response'')"
    using dispatch_serialize [OF f(4), of "[]"] f(3) serialize_not_json by (simp add: classify_def bootstrap_reply_def)
  then have "connect_phases E nonce (nc_core nc) conn = Err (Protocol ''TransportBootstrap: unexpected proto response'')"
    by - (rule connect_phases_answers [OF E i(1,2) f(1,2) i(3) l], simp)
  then show ?thesis by (simp add: do_connect_def)
qed

theorem early_message_breaks_connect_witness:
  "snd (snd (do_connect (demo_env 0) demo_world (Ok (demo_conn [demo_ack,
      \<lparr>seq_no = 2, ack = 1, flags = NONE, payload = serialize (ChatSend [2] [8] [9] 0)\<rparr>, demo_info])) (replicate 32 9) [] False demo_api))
    = Err (Protocol ''TransportBootstrap: unexpected proto response'')"
  using early_message_breaks_connect [of "demo_env 0" "demo_conn [demo_ack,
      \<lparr>seq_no = 2, ack = 1, flags = NONE, payload = serialize (ChatSend [2] [8] [9] 0)\<rparr>, demo_info]" demo_ack
      "\<lparr>seq_no = 2, ack = 1, flags = NONE, payload = serialize (ChatSend [2] [8] [9] 0)\<rparr>" "[Some (Ok demo_info)]" "[7]" 5
      "[2]" "[8]" "[9]" 0 demo_api "replicate 32 9" demo_world "[]" False] demo_api_facts
  by (simp add: demo_ack_def plain_frame_def msg_wf_def fits_u32_def)

section \<open>The size of the pool\<close>

text \<open>
  What happens to a pool: a pipeline takes a transport, gives one back, or a warm-up task ends with a new circuit or without.
\<close>

inductive pool_step :: "crypto \<Rightarrow> TransportPool \<Rightarrow> TransportPool \<Rightarrow> bool" for C where
  pool_acquire: "acquire direct p = (p1, r) \<Longrightarrow> pool_step C p p1"
| pool_release: "pool_step C p (release h p)"
| pool_warm: "0 < tp_warming p \<Longrightarrow> pool_step C p (warm_one C r ek cid p)"

lemma acquire_keeps:
  "tp_target_count (fst (acquire direct p)) = tp_target_count p \<and> tp_relay (fst (acquire direct p)) = tp_relay p"
  by (cases "rev (tp_circuits p)") (auto simp: acquire_def spawn_warming_def Let_def)

lemma pool_step_keeps:
  "pool_step C p p1 \<Longrightarrow> tp_target_count p1 = tp_target_count p \<and> tp_relay p1 = tp_relay p"
proof (induction rule: pool_step.induct)
  case (pool_acquire direct p p1 r)
  then show ?case using acquire_keeps [of direct p] by simp
qed (auto simp: release_def warm_one_def Let_def split: option.splits result.splits TransportHandle.splits)

text \<open>
  A release never lifts the pool above its target.
\<close>

lemma release_bounded:
  "relay_ready_count p \<le> relay_ready_count (release h p)
    \<and> relay_ready_count (release h p) \<le> max (relay_ready_count p) (tp_target_count p)"
  by (auto simp: relay_ready_count_def release_def split: TransportHandle.splits)

definition borrow :: "TransportPool \<Rightarrow> TransportPool" where
  "borrow p = (case acquire (Err ConnectionClosed) p of (p1, Ok h) \<Rightarrow> release h p1 | (p1, Err _) \<Rightarrow> p1)"

lemma borrow_reachable: "(pool_step C)\<^sup>*\<^sup>* p (borrow p)"
proof -
  obtain p1 r where a: "acquire (Err ConnectionClosed) p = (p1, r)" by fastforce
  then have s: "pool_step C p p1" by (rule pool_acquire)
  show ?thesis
  proof (cases r)
    case (Ok h)
    then show ?thesis using a s pool_release [of C p1 h] by (simp add: borrow_def)
  qed (use a s in \<open>simp add: borrow_def r_into_rtranclp\<close>)
qed

lemma borrow_one:
  assumes "tp_circuits p = [pair]" "tp_relay p = Some relay" "0 < tp_target_count p"
  shows "borrow p = p\<lparr>tp_warming := tp_warming p + 1\<rparr>"
  using assms by (cases pair) (simp add: borrow_def acquire_def release_def spawn_warming_def Let_def)

lemma borrow_many:
  assumes "tp_circuits p = [pair]" "tp_relay p = Some relay" "0 < tp_target_count p"
  shows "(borrow ^^ n) p = p\<lparr>tp_warming := tp_warming p + n\<rparr> \<and> (pool_step C)\<^sup>*\<^sup>* p ((borrow ^^ n) p)"
proof (induction n)
  case (Suc n)
  then have e: "(borrow ^^ n) p = p\<lparr>tp_warming := tp_warming p + n\<rparr>" by simp
  have "borrow ((borrow ^^ n) p) = p\<lparr>tp_warming := tp_warming p + Suc n\<rparr>"
    unfolding e using assms by (subst borrow_one) simp_all
  moreover have "(pool_step C)\<^sup>*\<^sup>* p (borrow ((borrow ^^ n) p))"
    using Suc borrow_reachable [of C "(borrow ^^ n) p"] by (meson rtranclp_trans)
  ultimately show ?case by simp
qed simp

lemma warm_many:
  assumes "and_then conn relay_client_connect = Ok client"
  shows "tp_relay p = Some relay \<Longrightarrow> n \<le> tp_warming p \<Longrightarrow>
    \<exists>p1. (pool_step C)\<^sup>*\<^sup>* p p1 \<and> tp_relay p1 = Some relay \<and> length (tp_circuits p1) = length (tp_circuits p) + n"
proof (induction n arbitrary: p)
  case (Suc n)
  let ?p = "warm_one C conn [] [] p"
  have w: "?p = p\<lparr>tp_warming := tp_warming p - 1, tp_circuits := tp_circuits p @ [(client, circuit_new C [] [] (rb_public_key relay))]\<rparr>"
    using Suc.prems assms by (cases conn) (simp_all add: warm_one_def Let_def)
  have s: "pool_step C p ?p" using Suc.prems by (intro pool_warm) simp
  obtain p1 where "(pool_step C)\<^sup>*\<^sup>* ?p p1" "tp_relay p1 = Some relay" "length (tp_circuits p1) = length (tp_circuits ?p) + n"
  proof -
    have "tp_relay ?p = Some relay" "n \<le> tp_warming ?p" using Suc.prems by (simp_all add: w)
    from Suc.IH [OF this] that show thesis by blast
  qed
  with s show ?case by (intro exI [of _ p1]) (auto simp: w intro: converse_rtranclp_into_rtranclp)
qed auto

text \<open>The target is not a bound.  \<^verbatim>\<open>acquire\<close> starts a warm-up task for every circuit it hands out, without counting the
  tasks already under way, and \<^verbatim>\<open>warm_one\<close> adds its circuit without looking at the size of the pool; only \<^verbatim>\<open>release\<close>
  respects the target.  From a pool that holds one circuit every size can be reached, with one transport in use at a time.
\<close>

theorem pool_exceeds_target:
  assumes "tp_circuits p = [pair]" "tp_relay p = Some relay" "0 < tp_target_count p" "and_then conn relay_client_connect = Ok client"
  shows "\<exists>p1. (pool_step C)\<^sup>*\<^sup>* p p1 \<and> tp_target_count p1 = tp_target_count p \<and> relay_ready_count p1 = n + 1"
proof -
  have b: "(borrow ^^ n) p = p\<lparr>tp_warming := tp_warming p + n\<rparr>" "(pool_step C)\<^sup>*\<^sup>* p ((borrow ^^ n) p)"
    using borrow_many [OF assms(1-3)] by blast+
  obtain p1 where p1: "(pool_step C)\<^sup>*\<^sup>* ((borrow ^^ n) p) p1" "length (tp_circuits p1) = n + 1"
    using warm_many [OF assms(4), of "(borrow ^^ n) p" relay n C] assms by (auto simp: b(1))
  then have r: "(pool_step C)\<^sup>*\<^sup>* p p1" using b(2) by (meson rtranclp_trans)
  moreover have "tp_target_count p1 = tp_target_count p" using r by (induction rule: rtranclp_induct) (auto dest: pool_step_keeps)
  ultimately show ?thesis using p1(2) by (auto simp: relay_ready_count_def)
qed

definition demo_pool :: TransportPool where
  "demo_pool = (pool_new (Some \<lparr>rb_addr = [], rb_public_key = replicate 32 4\<rparr>))
     \<lparr>tp_circuits := [(demo_conn [], circuit_new demo_crypto [1] [2] (replicate 32 4))]\<rparr>"

theorem pool_exceeds_target_witness:
  "\<exists>p1. (pool_step demo_crypto)\<^sup>*\<^sup>* demo_pool p1 \<and> tp_target_count p1 = 3 \<and> relay_ready_count p1 = 1001"
proof -
  obtain c where "and_then (Ok (demo_conn [])) relay_client_connect = Ok c"
    using send_payload_flushes [OF demo_api_facts(3) [of "[]"], of "ascii ''ONION''" NONE]
    by (auto simp: relay_client_connect_def ascii_def)
  from pool_exceeds_target [OF _ _ _ this, of demo_pool _ _ demo_crypto 1000] show ?thesis
    by (simp add: demo_pool_def pool_new_def)
qed

end
