(* ===== verification/Desktop_App.thy ===== *)
theory Desktop_App
  imports Client_Connect
begin

text \<open>
  The desktop application around the client library (\<^verbatim>\<open>clients/desktop/src-tauri/src\<close>): its state, the handling of
  client events (\<^verbatim>\<open>lib.rs\<close>), and the commands of the user interface (\<^verbatim>\<open>commands/chat.rs\<close>, \<^verbatim>\<open>identity.rs\<close>, \<^verbatim>\<open>link.rs\<close>,
  \<^verbatim>\<open>transfer.rs\<close>, \<^verbatim>\<open>settings.rs\<close>, \<^verbatim>\<open>connect.rs\<close>).  The theorems are about what survives a restart of the application.
\<close>

section \<open>State\<close>

text \<open>What is sent to the user interface: the events of \<^verbatim>\<open>handle.emit\<close> and the two notifications.\<close>

datatype ui_event =
    UiConnected rstring
  | UiDisconnected
  | UiPeerConnected rstring
  | UiMessage rstring rstring u64
  | UiNotifyOffered rstring u64
  | UiFileOffered rstring rstring rstring u64 u32
  | UiFileProgress rstring rat
  | UiNotifyComplete
  | UiFileComplete rstring
  | UiIceCandidate rstring rstring
  | UiAnonymityLevel nat string string
  | UiError string

text \<open>\<^verbatim>\<open>ap_peers\<close> is the set of connected peers, \<^verbatim>\<open>ap_loops\<close> the number of event loops that have been started.\<close>

record AppState =
  ap_api :: ClientApi
  ap_peers :: "PeerId list"
  ap_nickname :: "rstring option"
  ap_loops :: nat
  ap_ui :: "ui_event list"

definition app_default :: "crypto \<Rightarrow> IdentityKeyPair \<Rightarrow> IdentityKeyPair \<Rightarrow> x25519_pair \<Rightarrow> AppState" where
  "app_default C session_identity keys_identity spk =
    \<lparr>ap_api = api_build (client_new C session_identity keys_identity spk), ap_peers = [], ap_nickname = None, ap_loops = 0, ap_ui = []\<rparr>"

definition app_core :: "AppState \<Rightarrow> Client" where
  "app_core a = nc_core (ap_api a)"

definition on_core :: "(Client \<Rightarrow> Client) \<Rightarrow> AppState \<Rightarrow> AppState" where
  "on_core f a = a\<lparr>ap_api := (ap_api a)\<lparr>nc_core := f (nc_core (ap_api a))\<rparr>\<rparr>"

definition ui :: "ui_event \<Rightarrow> AppState \<Rightarrow> AppState" where
  "ui ev a = a\<lparr>ap_ui := ap_ui a @ [ev]\<rparr>"

definition peer_id_hex :: "PeerId \<Rightarrow> rstring" where
  "peer_id_hex p = hex_encode (peer_bytes p)"

definition level_number :: "AnonymityLevel \<Rightarrow> nat" where
  "level_number l = (case l of LevelDirect \<Rightarrow> 0 | LevelRelay \<Rightarrow> 2 | LevelTor \<Rightarrow> 3)"

definition level_label :: "AnonymityLevel \<Rightarrow> string" where
  "level_label l = (case l of LevelDirect \<Rightarrow> ''Level 0 (Direct)'' | LevelRelay \<Rightarrow> ''Level 2 (Relay)'' | LevelTor \<Rightarrow> ''Level 3 (Tor)'')"

definition level_description :: "AnonymityLevel \<Rightarrow> string" where
  "level_description l = (case l of
     LevelDirect \<Rightarrow> ''Direct fetch''
   | LevelRelay \<Rightarrow> ''Inbox fetch routed through relay''
   | LevelTor \<Rightarrow> ''Inbox fetch routed through Tor'')"

section \<open>Calls that wait for the signaling service\<close>

text \<open>
  While a command waits for an answer the other tasks go on: \<^verbatim>\<open>meanwhile\<close> is what they do to the client, \<^verbatim>\<open>answer\<close> what the
  wait ends with, \<^verbatim>\<open>None\<close> when it does not end.
\<close>

record awaiting =
  aw_meanwhile :: "Client \<Rightarrow> Client"
  aw_answer :: "json result option"

definition api_initiate_session :: "client_env \<Rightarrow> awaiting \<Rightarrow> PeerId \<Rightarrow> Client \<Rightarrow> Client \<times> unit result option" where
  "api_initiate_session E w pid cl =
    (case initiate_session pid cl of
       (cl1, Err e) \<Rightarrow> (cl1, Some (Err e))
     | (cl1, Ok None) \<Rightarrow> (cl1, Some (Ok ()))
     | (cl1, Ok (Some t)) \<Rightarrow>
         (case aw_answer w of
            None \<Rightarrow> (aw_meanwhile w cl1, None)
          | Some (Err e) \<Rightarrow> (aw_meanwhile w cl1, Some (Err e))
          | Some (Ok resp) \<Rightarrow> (case initiate_session_reply E pid resp (aw_meanwhile w cl1) of (cl2, r) \<Rightarrow> (cl2, Some r))))"

section \<open>Events of the client\<close>

text \<open>
  \<^verbatim>\<open>lossy\<close> is the conversion \<^verbatim>\<open>String::from_utf8_lossy\<close>, \<^verbatim>\<open>fmt\<close> the text of an address.  The result says whether the handler
  returns; the event loop waits for it.
\<close>

definition peer_connected :: "client_env \<Rightarrow> awaiting \<Rightarrow> PeerId \<Rightarrow> AppState \<Rightarrow> AppState \<times> bool" where
  "peer_connected E w pid a =
    (let a1 = a\<lparr>ap_peers := List.insert pid (ap_peers a)\<rparr> in
     case api_initiate_session E w pid (app_core a1) of
       (cl, None) \<Rightarrow> (on_core (\<lambda>_. cl) a1, False)
     | (cl, Some r) \<Rightarrow>
         (ui (UiPeerConnected (peer_id_hex pid)) (on_core (\<lambda>_. with_store (sq_save_conversation E pid None) cl) a1), True))"

fun handle_event ::
  "client_env \<Rightarrow> awaiting \<Rightarrow> (bytes \<Rightarrow> rstring) \<Rightarrow> (SocketAddr \<Rightarrow> rstring) \<Rightarrow> ClientEvent \<Rightarrow> AppState \<Rightarrow> AppState \<times> bool" where
  "handle_event E w lossy fmt (EvConnected pid) a = (ui (UiConnected (peer_id_hex pid)) a, True)"
| "handle_event E w lossy fmt EvDisconnected a = (ui UiDisconnected (a\<lparr>ap_peers := []\<rparr>), True)"
| "handle_event E w lossy fmt (EvPeerConnected pid) a = peer_connected E w pid a"
| "handle_event E w lossy fmt (EvMessageReceived from plaintext) a =
    (ui (UiMessage (peer_id_hex from) (lossy plaintext) (ce_now E)) a, True)"
| "handle_event E w lossy fmt (EvFileOffered from meta) a =
    (ui (UiFileOffered (peer_id_hex from) (hex_encode (file_id_bytes (meta_file_id meta))) (meta_name meta) (meta_size meta)
       (meta_chunk_count meta)) (ui (UiNotifyOffered (meta_name meta) (meta_size meta)) a), True)"
| "handle_event E w lossy fmt (EvFileProgress fid progress) a = (ui (UiFileProgress (hex_encode fid) progress) a, True)"
| "handle_event E w lossy fmt (EvFileComplete fid) a = (ui (UiFileComplete (hex_encode fid)) (ui UiNotifyComplete a), True)"
| "handle_event E w lossy fmt (EvIceCandidateReceived from c) a = (ui (UiIceCandidate (hex_encode from) (fmt (addr c))) a, True)"
| "handle_event E w lossy fmt (EvAnonymityLevelChanged l) a =
    (ui (UiAnonymityLevel (level_number l) (level_label l) (level_description l)) a, True)"
| "handle_event E w lossy fmt (EvError msg) a = (ui (UiError msg) a, True)"

text \<open>One turn of the event loop: the oldest event is taken from the channel and handled.\<close>

definition event_loop_turn ::
  "client_env \<Rightarrow> awaiting \<Rightarrow> (bytes \<Rightarrow> rstring) \<Rightarrow> (SocketAddr \<Rightarrow> rstring) \<Rightarrow> AppState \<Rightarrow> AppState \<times> bool" where
  "event_loop_turn E w lossy fmt a =
    (case cl_events (app_core a) of
       [] \<Rightarrow> (a, False)
     | ev # evs \<Rightarrow> handle_event E w lossy fmt ev (on_core (\<lambda>cl. cl\<lparr>cl_events := evs\<rparr>) a))"

section \<open>Identities\<close>

text \<open>\<^verbatim>\<open>db\<close> is the outcome of opening the database file.\<close>

definition restore_sessions :: "client_env \<Rightarrow> SqliteMessageStore \<Rightarrow> KeyManager \<Rightarrow> KeyManager" where
  "restore_sessions E store km =
    fold (\<lambda>conv km. case peer_from_bytes (co_peer_id conv) of
        None \<Rightarrow> km
      | Some pid \<Rightarrow> (case sq_load_ratchet_state E pid store of
            Ok (Some ratchet) \<Rightarrow> restore_ratchet_state (peer_bytes pid) ratchet km
          | _ \<Rightarrow> km)) (sq_list_conversations store) km"

definition activate_identity ::
  "client_env \<Rightarrow> bytes \<Rightarrow> x25519_pair \<Rightarrow> SqliteMessageStore result \<Rightarrow> AppState \<Rightarrow> AppState \<times> rstring result" where
  "activate_identity E seed spk db a =
    (case db of
       Err e \<Rightarrow> (a, Err e)
     | Ok file \<Rightarrow>
         let store = sqlite_open (derive_storage_key (ce_crypto E) seed) file;
             cl = client_with_seed (ce_crypto E) seed spk (Some store);
             cl1 = cl\<lparr>cl_keys := restore_sessions E store (cl_keys cl)\<rparr>
         in (a\<lparr>ap_api := api_build cl1, ap_peers := [], ap_loops := ap_loops a + 1\<rparr>, Ok (peer_id_hex (cl_peer_id cl1))))"

definition create_identity ::
  "client_env \<Rightarrow> bool \<Rightarrow> bool \<Rightarrow> bytes \<Rightarrow> bytes \<Rightarrow> bytes \<Rightarrow> x25519_pair \<Rightarrow> SqliteMessageStore result \<Rightarrow> rstring \<Rightarrow> rstring
    \<Rightarrow> bytes option \<times> AppState \<Rightarrow> (bytes option \<times> AppState) \<times> rstring result" where
  "create_identity E dir_ok write_ok salt nonce fresh_seed spk db nickname passphrase = (\<lambda>(file, a).
    (case identity_create E dir_ok write_ok salt nonce fresh_seed nickname passphrase file of
       (file', Err e) \<Rightarrow> ((file', a), Err e)
     | (file', Ok seed) \<Rightarrow>
         (case activate_identity E seed spk db a of
            (a1, Err e) \<Rightarrow> ((file', a1), Err e)
          | (a1, Ok pid) \<Rightarrow> ((file', a1\<lparr>ap_nickname := Some nickname\<rparr>), Ok pid))))"

definition unlock_identity ::
  "client_env \<Rightarrow> x25519_pair \<Rightarrow> SqliteMessageStore result \<Rightarrow> rstring \<Rightarrow> bytes option \<Rightarrow> AppState \<Rightarrow> AppState \<times> (rstring \<times> rstring) result" where
  "unlock_identity E spk db passphrase file a =
    (case unlock E passphrase file of
       Err e \<Rightarrow> (a, Err e)
     | Ok (seed, nickname) \<Rightarrow>
         (case activate_identity E seed spk db a of
            (a1, Err e) \<Rightarrow> (a1, Err e)
          | (a1, Ok pid) \<Rightarrow> (a1\<lparr>ap_nickname := Some nickname\<rparr>, Ok (pid, nickname))))"

definition import_identity ::
  "client_env \<Rightarrow> ('p \<Rightarrow> bytes option) \<Rightarrow> bool \<Rightarrow> bool \<Rightarrow> bytes \<Rightarrow> bytes \<Rightarrow> 'p \<Rightarrow> x25519_pair \<Rightarrow> SqliteMessageStore result \<Rightarrow> rstring \<Rightarrow> rstring
    \<Rightarrow> bytes option \<times> AppState \<Rightarrow> (bytes option \<times> AppState) \<times> rstring result" where
  "import_identity E parse dir_ok write_ok salt nonce phrase spk db nickname passphrase = (\<lambda>(file, a).
    (case import_mnemonic E parse dir_ok write_ok salt nonce phrase nickname passphrase file of
       (file', Err e) \<Rightarrow> ((file', a), Err e)
     | (file', Ok seed) \<Rightarrow>
         (case activate_identity E seed spk db a of
            (a1, Err e) \<Rightarrow> ((file', a1), Err e)
          | (a1, Ok pid) \<Rightarrow> ((file', a1\<lparr>ap_nickname := Some nickname\<rparr>), Ok pid))))"

section \<open>Commands\<close>

definition parse_peer_id :: "rstring \<Rightarrow> PeerId result" where
  "parse_peer_id hx = and_then (hex_decode hx) (\<lambda>b. ok_or (peer_from_bytes b) (Protocol ''peer_id must be 32 bytes''))"

text \<open>
  \<^verbatim>\<open>send_message\<close> checks the length first.  A pair of hexadecimal digits that is not one is an error; the code panics
  instead where such a pair cuts through a character of several bytes.
\<close>

definition parse_peer_id_64 :: "rstring \<Rightarrow> PeerId result" where
  "parse_peer_id_64 hx =
    (if length hx \<noteq> 64 then Err (Protocol ''peer_id must be exactly 64 hex characters (32 bytes)'')
     else and_then (ok_or (hex_pairs_strict hx) (Protocol ''invalid peer_id hex'')) (\<lambda>b.
       ok_or (peer_from_bytes b) (Protocol ''peer_id must be 32 bytes'')))"

definition send_online ::
  "client_env \<Rightarrow> awaiting \<Rightarrow> PeerId \<Rightarrow> rstring \<Rightarrow> Client \<Rightarrow> Client \<times> unit result option" where
  "send_online E w pid txt cl =
    (case (if has_session (peer_bytes pid) (cl_keys cl) then (cl, Some (Ok ())) else api_initiate_session E w pid cl) of
       (cl1, Some (Ok _)) \<Rightarrow> (case send_message E pid txt cl1 of (cl2, r) \<Rightarrow> (cl2, Some r))
     | (cl1, r) \<Rightarrow> (cl1, r))"

definition send_offline :: "client_env \<Rightarrow> PeerId \<Rightarrow> rstring \<Rightarrow> Client \<Rightarrow> Client \<times> unit result" where
  "send_offline E pid txt cl =
    (case cl_store cl of
       None \<Rightarrow> (cl, Err (Session ''message store unavailable''))
     | Some store \<Rightarrow>
         (case sq_load_peer_inbox_id pid store of
            None \<Rightarrow> (cl, Err (Session ''offline delivery is unavailable until the peer reconnects''))
          | Some inbox_id \<Rightarrow>
              if \<not> has_session (peer_bytes pid) (cl_keys cl)
              then (cl, Err (Session ''offline delivery is unavailable without a restored session''))
              else send_message_offline E pid inbox_id txt cl))"

definition send_message_cmd ::
  "client_env \<Rightarrow> awaiting \<Rightarrow> rstring \<Rightarrow> rstring \<Rightarrow> AppState \<Rightarrow> AppState \<times> unit result option" where
  "send_message_cmd E w hx txt a =
    (case parse_peer_id_64 hx of
       Err e \<Rightarrow> (a, Some (Err e))
     | Ok pid \<Rightarrow>
         if pid \<in> set (ap_peers a)
         then (case send_online E w pid txt (app_core a) of (cl, r) \<Rightarrow> (on_core (\<lambda>_. cl) a, r))
         else (case send_offline E pid txt (app_core a) of (cl, r) \<Rightarrow> (on_core (\<lambda>_. cl) a, Some r)))"

definition create_link_cmd :: "client_env \<Rightarrow> awaiting \<Rightarrow> AppState \<Rightarrow> AppState \<times> rstring result option" where
  "create_link_cmd E w a =
    (case cl_create_link E (app_core a) of
       (cl, Err e) \<Rightarrow> (on_core (\<lambda>_. cl) a, Some (Err e))
     | (cl, Ok t) \<Rightarrow> (on_core (\<lambda>_. aw_meanwhile w cl) a, map_option (\<lambda>r. and_then r cl_create_link_reply) (aw_answer w)))"

text \<open>The joiner of a link: two answers are awaited, that of the link and that of the key exchange.\<close>

definition join_link_cmd ::
  "client_env \<Rightarrow> awaiting \<Rightarrow> awaiting \<Rightarrow> rstring \<Rightarrow> AppState \<Rightarrow> AppState \<times> rstring result option" where
  "join_link_cmd E w1 w2 link a =
    (case cl_join_link link (app_core a) of
       (cl, Err e) \<Rightarrow> (on_core (\<lambda>_. cl) a, Some (Err e))
     | (cl, Ok t) \<Rightarrow>
         let cl1 = aw_meanwhile w1 cl in
         (case map_option (\<lambda>r. and_then r cl_join_link_reply) (aw_answer w1) of
            None \<Rightarrow> (on_core (\<lambda>_. cl1) a, None)
          | Some (Err e) \<Rightarrow> (on_core (\<lambda>_. cl1) a, Some (Err e))
          | Some (Ok pid) \<Rightarrow>
              (case api_initiate_session E w2 pid cl1 of
                 (cl2, None) \<Rightarrow> (on_core (\<lambda>_. cl2) a, None)
               | (cl2, Some (Err e)) \<Rightarrow> (on_core (\<lambda>_. cl2) a, Some (Err e))
               | (cl2, Some (Ok _)) \<Rightarrow>
                   let a2 = on_core (\<lambda>_. cl2) a in
                   (a2\<lparr>ap_peers := List.insert pid (ap_peers a2)\<rparr>, Some (Ok (peer_id_hex pid))))))"

text \<open>\<^verbatim>\<open>first\<close> is the element that the hash order of the set yields first.\<close>

definition send_file_cmd ::
  "client_env \<Rightarrow> (PeerId list \<Rightarrow> PeerId) \<Rightarrow> bytes \<Rightarrow> rstring \<Rightarrow> AppState \<Rightarrow> AppState \<times> FileMeta result" where
  "send_file_cmd E first contents name a =
    (if ap_peers a = [] then (a, Err (Session ''no peer connected''))
     else case send_file E (first (ap_peers a)) contents name (app_core a) of (cl, r) \<Rightarrow> (on_core (\<lambda>_. cl) a, r))"

fun send_files :: "client_env \<Rightarrow> PeerId \<Rightarrow> (bytes \<times> rstring) list \<Rightarrow> Client \<Rightarrow> Client \<times> FileMeta list result" where
  "send_files E pid [] cl = (cl, Ok [])"
| "send_files E pid ((contents, name) # fs) cl =
    (case send_file E pid contents name cl of
       (cl1, Err e) \<Rightarrow> (cl1, Err e)
     | (cl1, Ok meta) \<Rightarrow> (case send_files E pid fs cl1 of (cl2, r) \<Rightarrow> (cl2, and_then r (\<lambda>ms. Ok (meta # ms)))))"

definition browse_and_send ::
  "client_env \<Rightarrow> (PeerId list \<Rightarrow> PeerId) \<Rightarrow> (bytes \<times> rstring) list option \<Rightarrow> AppState \<Rightarrow> AppState \<times> FileMeta list result" where
  "browse_and_send E first picked a =
    (case picked of
       None \<Rightarrow> (a, Ok [])
     | Some fs \<Rightarrow>
         if ap_peers a = [] then (a, Err (Session ''no peer connected''))
         else (case send_files E (first (ap_peers a)) fs (app_core a) of (cl, r) \<Rightarrow> (on_core (\<lambda>_. cl) a, r)))"

definition accept_file_cmd :: "rstring \<Rightarrow> bytes option \<Rightarrow> bytes \<Rightarrow> AppState \<Rightarrow> AppState \<times> unit result" where
  "accept_file_cmd hx sidecar_file dest a =
    (case hex_decode hx of
       Err e \<Rightarrow> (a, Err e)
     | Ok fid \<Rightarrow> (case accept_file fid sidecar_file dest (app_core a) of (cl, r) \<Rightarrow> (on_core (\<lambda>_. cl) a, r)))"

definition apply_anonymous_settings :: "bool \<Rightarrow> rstring list \<Rightarrow> AppState \<Rightarrow> AppState \<times> unit result" where
  "apply_anonymous_settings enabled bridge_lines a =
    (case set_anonymous_transport_config
        \<lparr>ac_power_mode = (if enabled then Desktop else BatterySaver), ac_target_count = 3,
         ac_tor = \<lparr>tor_enabled = enabled, tor_bridge_lines = bridge_lines\<rparr>\<rparr> (ap_api a) of
       (nc, r) \<Rightarrow> (a\<lparr>ap_api := nc\<rparr>, r))"

definition connect_cmd ::
  "client_env \<Rightarrow> fetch_world \<Rightarrow> ServerConnection result \<Rightarrow> bytes \<Rightarrow> (ServerConnection result \<times> bytes \<times> bytes) list \<Rightarrow> bool
    \<Rightarrow> AppState \<Rightarrow> AppState \<times> unit result" where
  "connect_cmd E W conn nonce warmed slow a =
    (case do_connect E W conn nonce warmed slow (ap_api a) of (acks, nc, r) \<Rightarrow> (a\<lparr>ap_api := nc\<rparr>, r))"

section \<open>Chat history\<close>

definition conversation_json :: "Conversation \<Rightarrow> json" where
  "conversation_json c =
    JObj [(ascii ''peer_id'', JStr (hex_encode (co_peer_id c))),
          (ascii ''display_name'', case co_nickname c of None \<Rightarrow> JNull | Some n \<Rightarrow> JStr n),
          (ascii ''created_at'', of_u64 (co_created_at c)),
          (ascii ''last_message_at'', of_u64 (co_last_message_at c)),
          (ascii ''inbox_id'', case co_inbox_id c of None \<Rightarrow> JNull | Some i \<Rightarrow> JStr (hex_encode i))]"

definition get_conversations :: "AppState \<Rightarrow> json list" where
  "get_conversations a = (case cl_store (app_core a) of
     None \<Rightarrow> [] | Some store \<Rightarrow> map conversation_json (sq_list_conversations store))"

definition get_conversation :: "rstring \<Rightarrow> AppState \<Rightarrow> json option result" where
  "get_conversation hx a = (case cl_store (app_core a) of
     None \<Rightarrow> Ok None
   | Some store \<Rightarrow> and_then (parse_peer_id hx) (\<lambda>pid.
       Ok (map_option conversation_json (find (\<lambda>c. co_peer_id c = peer_bytes pid) (sq_list_conversations store)))))"

definition message_json :: "(bytes \<Rightarrow> rstring) \<Rightarrow> StoredMessage \<Rightarrow> json" where
  "message_json lossy m =
    JObj [(ascii ''id'', of_u64 (sm_id m)), (ascii ''peer_id'', JStr (hex_encode (sm_peer_id m))),
          (ascii ''direction'', JStr (case sm_direction m of Sent \<Rightarrow> ascii ''sent'' | Received \<Rightarrow> ascii ''received'')),
          (ascii ''text'', JStr (lossy (sm_plaintext m))), (ascii ''timestamp'', of_u64 (sm_timestamp m))]"

definition get_history ::
  "client_env \<Rightarrow> (bytes \<Rightarrow> rstring) \<Rightarrow> rstring \<Rightarrow> u32 \<Rightarrow> u64 option \<Rightarrow> AppState \<Rightarrow> json list result" where
  "get_history E lossy hx limit before_id a = (case cl_store (app_core a) of
     None \<Rightarrow> Ok []
   | Some store \<Rightarrow> and_then (parse_peer_id hx) (\<lambda>pid.
       and_then (sq_load_messages E pid limit before_id store) (\<lambda>ms. Ok (map (message_json lossy) ms))))"

definition clear_chat_history :: "AppState \<Rightarrow> AppState \<times> unit result" where
  "clear_chat_history a =
    (case cl_store (app_core a) of
       None \<Rightarrow> (on_core (\<lambda>cl. cl\<lparr>cl_keys := clear_sessions (cl_keys cl)\<rparr>) a, Ok ())
     | Some store \<Rightarrow>
         (case sq_clear_all store of
            (store1, Err e) \<Rightarrow> (on_core (\<lambda>cl. cl\<lparr>cl_store := Some store1\<rparr>) a, Err e)
          | (store1, Ok _) \<Rightarrow>
              (on_core (\<lambda>cl. cl\<lparr>cl_store := Some store1, cl_keys := clear_sessions (cl_keys cl)\<rparr>) a, Ok ())))"

section \<open>What a restart restores\<close>

lemma app_core_on_core [simp]: "app_core (on_core f a) = f (app_core a)"
  by (simp add: app_core_def on_core_def)

lemma app_simps [simp]:
  "app_core (ui ev a) = app_core a" "ap_peers (ui ev a) = ap_peers a" "ap_peers (on_core f a) = ap_peers a"
  "app_core (a\<lparr>ap_peers := ps\<rparr>) = app_core a" "app_core (a\<lparr>ap_api := nc, ap_peers := ps, ap_loops := n\<rparr>) = nc_core nc"
  by (simp_all add: app_core_def ui_def on_core_def)

definition restored :: "client_env \<Rightarrow> SqliteMessageStore \<Rightarrow> bytes \<Rightarrow> RatchetState option" where
  "restored E store p = (if length p = 32 then (case sq_load_ratchet_state E (PeerId p) store of Ok s \<Rightarrow> s | Err e \<Rightarrow> None) else None)"

lemma restore_fold:
  "map_of (peer_sessions (fold (\<lambda>conv km. case peer_from_bytes (co_peer_id conv) of
        None \<Rightarrow> km
      | Some pid \<Rightarrow> (case sq_load_ratchet_state E pid store of
            Ok (Some ratchet) \<Rightarrow> restore_ratchet_state (peer_bytes pid) ratchet km
          | _ \<Rightarrow> km)) cs km)) p
    = (if p \<in> co_peer_id ` set cs \<and> restored E store p \<noteq> None then restored E store p else map_of (peer_sessions km) p)"
  by (induction cs arbitrary: km)
    (auto simp: restored_def peer_from_bytes_def restore_ratchet_state_def update_conv' split: option.splits result.splits)

lemma sq_list_conversations_peers: "co_peer_id ` set (sq_list_conversations s) = fst ` set (sq_conversations s)"
  by (force simp: sq_list_conversations_def image_iff)

lemma restore_sessions_lookup:
  "map_of (peer_sessions (restore_sessions E store km)) p
    = (if map_of (sq_conversations store) p \<noteq> None \<and> restored E store p \<noteq> None then restored E store p
       else map_of (peer_sessions km) p)"
  unfolding restore_sessions_def restore_fold sq_list_conversations_peers
  by (simp add: map_of_eq_None_iff)

lemma sqlite_open_same: "sq_sek file = key \<Longrightarrow> sqlite_open key file = file"
  by (simp add: sqlite_open_def)

lemma restart_lookup:
  assumes "sq_sek file = derive_storage_key (ce_crypto E) seed" "activate_identity E seed spk (Ok file) a = (a1, r)"
  shows "map_of (peer_sessions (cl_keys (app_core a1))) p = (if map_of (sq_conversations file) p \<noteq> None then restored E file p else None)"
  using assms(2)
  by (auto simp: activate_identity_def Let_def api_build_def client_with_seed_def client_build_def key_manager_new_def
      restore_sessions_lookup sqlite_open_same [OF assms(1)])

text \<open>C25. After a restart the sessions of a client are those of the database: a peer has a session if and only if there is a
  conversation with it, its identifier has 32 bytes, and a ratchet state was saved and can be read, and then the session
  is that state.  Messages, conversations and stored inbox identifiers are those of the file, and nobody is connected.
\<close>

theorem restart_restores:
  assumes "sq_sek file = derive_storage_key (ce_crypto E) seed" "activate_identity E seed spk (Ok file) a = (a1, r)"
  shows "r = Ok (hex_encode (peer_id (ce_crypto E) (derive_identity (ce_crypto E) seed)))
    \<and> cl_store (app_core a1) = Some file \<and> ap_peers a1 = [] \<and> cl_inbox_id (app_core a1) = derive_inbox_id (ce_crypto E) seed
    \<and> map_of (peer_sessions (cl_keys (app_core a1))) p
      = (if map_of (sq_conversations file) p \<noteq> None then restored E file p else None)"
  using assms(2) restart_lookup [OF assms]
  by (auto simp: activate_identity_def Let_def api_build_def client_with_seed_def client_build_def sqlite_open_same [OF assms(1)]
      peer_id_hex_def)

text \<open>A database with one conversation and its session; the codec of the example knows that one state.\<close>

definition demo_session :: RatchetState where
  "demo_session = init_sender demo_crypto [5] [6] [7]"

definition codec_env :: client_env where
  "codec_env = (demo_env 5)\<lparr>ce_to_postcard := (\<lambda>s. if s = demo_session then Some [1] else None),
     ce_from_postcard := (\<lambda>b. if b = [1] then Some demo_session else None)\<rparr>"

definition demo_seed :: bytes where "demo_seed = replicate 32 3"

definition demo_peer :: PeerId where "demo_peer = PeerId (replicate 32 1)"

definition demo_file :: SqliteMessageStore where
  "demo_file = fst (sq_save_ratchet_state codec_env demo_peer demo_session
     (fst (sq_save_conversation codec_env demo_peer None (sqlite_create True (derive_storage_key demo_crypto demo_seed)))))"

definition demo_app :: AppState where
  "demo_app = app_default demo_crypto \<lparr>signing_key = [1], dh_secret = [2]\<rparr> \<lparr>signing_key = [1], dh_secret = [2]\<rparr> \<lparr>secret = [3]\<rparr>"

lemma codec_env_ok: "codecs_ok codec_env" "ce_crypto codec_env = demo_crypto"
  by (simp_all add: codecs_ok_def codec_env_def demo_env_def)

lemma demo_file_facts:
  "sq_sek demo_file = derive_storage_key demo_crypto demo_seed"
  "map_of (sq_conversations demo_file) (replicate 32 1) = Some \<lparr>cv_nickname = None, cv_created_at = 0, cv_last_msg_at = 0, cv_inbox_id = None\<rparr>"
  "sq_load_ratchet_state codec_env demo_peer demo_file = Ok (Some demo_session)"
proof -
  let ?s = "fst (sq_save_conversation codec_env demo_peer None (sqlite_create True (derive_storage_key demo_crypto demo_seed)))"
  have s: "?s = (sqlite_create True (derive_storage_key demo_crypto demo_seed))\<lparr>sq_conversations :=
      [(replicate 32 1, \<lparr>cv_nickname = None, cv_created_at = 0, cv_last_msg_at = 0, cv_inbox_id = None\<rparr>)]\<rparr>"
    by (simp add: sq_save_conversation_def sqlite_create_def demo_peer_def fits_i64_def codec_env_def demo_env_def)
  show "sq_sek demo_file = derive_storage_key demo_crypto demo_seed"
    "map_of (sq_conversations demo_file) (replicate 32 1) = Some \<lparr>cv_nickname = None, cv_created_at = 0, cv_last_msg_at = 0, cv_inbox_id = None\<rparr>"
    unfolding demo_file_def sq_save_ratchet_frame s by (simp_all add: sqlite_create_def)
  have "ratchet_serialize (ce_to_postcard codec_env) demo_session = Ok [1]"
    by (simp add: ratchet_serialize_def codec_env_def)
  then have "snd (sq_save_ratchet_state codec_env demo_peer demo_session ?s) = Ok ()"
    unfolding s by (simp add: sq_save_ratchet_state_def ratchet_payload_def rest_encrypt_def codec_env_def demo_env_def demo_crypto_def
        sqlite_create_def fits_i64_def Let_def)
  then have "sq_save_ratchet_state codec_env demo_peer demo_session ?s = (demo_file, Ok ())"
    by (simp add: demo_file_def prod_eq_iff)
  then show "sq_load_ratchet_state codec_env demo_peer demo_file = Ok (Some demo_session)"
    by (rule sq_load_saved_ratchet [OF codec_env_ok(1)])
qed

theorem restart_restores_witness:
  "map_of (peer_sessions (cl_keys (app_core (fst (activate_identity codec_env demo_seed \<lparr>secret = [4]\<rparr> (Ok demo_file) demo_app)))))
    (replicate 32 1) = Some demo_session"
  using restart_restores [OF _ surjective_pairing, of demo_file codec_env demo_seed "\<lparr>secret = [4]\<rparr>" demo_app "replicate 32 1"]
    demo_file_facts
  by (simp add: codec_env_ok(2) restored_def demo_peer_def)

section \<open>Message keys after a restart\<close>

lemma encrypt_for_peer_header:
  assumes "map_of (peer_sessions km) p = Some st" "encrypt_for_peer C p d km = (km1, Ok (ct, rk, n))"
  shows "\<exists>ck. send_chain_key st = Some ck \<and> rk = send_ratchet_key st \<and> n = send_count st
    \<and> aead_encrypt C (snd (kdf_chain C ck)) (nonce_material (snd (kdf_chain C ck)) n) d rk = Ok ct"
  using assms by (auto simp: encrypt_for_peer_def encrypt_def Let_def split: option.splits prod.splits)

lemma send_raw_queues: "send_raw body fl cl = (cl1, Ok ()) \<Longrightarrow> \<exists>q. cl_outbound cl1 = Some (q @ [(body, fl)])"
  by (auto simp: send_raw_def split: option.splits if_splits)

text \<open>C26. Message keys are used twice.  The chunks of a file are encrypted with the ratchet of the conversation, but the
  advanced state is not saved.  If the application is restarted after a chunk has been sent and before the next chat
  message, it goes on with the state of the database: the next message carries the same ratchet key and message number
  as the chunk, and both are sealed under the same key with the same nonce.
\<close>

theorem chunks_reuse_message_keys:
  assumes store: "cl_store cl = Some file" "sq_sek file = derive_storage_key (ce_crypto E) seed"
      "map_of (sq_conversations file) (peer_bytes pid) \<noteq> None" "length (peer_bytes pid) = 32"
    and saved: "map_of (peer_sessions (cl_keys cl)) (peer_bytes pid) = Some st" "sq_load_ratchet_state E pid file = Ok (Some st)"
    and chunk: "chunk_callback E pid fid False index data hash cl = (cl1, Ok ())"
    and restart: "activate_identity E seed spk (Ok (the (cl_store cl1))) a = (a1, r)"
    and message: "send_message E pid txt ((app_core a1)\<lparr>cl_outbound := Some []\<rparr>) = (cl2, Ok ())"
  shows "\<exists>key nonce rk n c1 c2 q1 q2.
    cl_outbound cl1 = Some (q1 @ [(serialize (FileChunk (peer_bytes pid) fid index c1 hash rk n), NONE)])
    \<and> cl_outbound cl2 = Some (q2 @ [(serialize (ChatSend (peer_bytes pid) c2 rk n), NONE)])
    \<and> aead_encrypt (ce_crypto E) key nonce data rk = Ok c1 \<and> aead_encrypt (ce_crypto E) key nonce txt rk = Ok c2"
proof -
  obtain km1 c1 rk n clx where e1: "encrypt_for_peer (ce_crypto E) (peer_bytes pid) data (cl_keys cl) = (km1, Ok (c1, rk, n))"
    and q1: "send_raw (serialize (FileChunk (peer_bytes pid) fid index c1 hash rk n)) NONE (cl\<lparr>cl_keys := km1\<rparr>) = (clx, Ok ())"
    and cl1: "cl1 = emit (EvFileProgress fid (- 1)) clx"
    using chunk by (auto simp: chunk_callback_def split: prod.splits result.splits)
  have "cl_store clx = Some file" using q1 store(1) by (auto simp: send_raw_def split: option.splits if_splits)
  then have s1: "cl_store cl1 = Some file" by (simp add: cl1 emit_def)
  have m: "map_of (peer_sessions (cl_keys (app_core a1))) (peer_bytes pid) = Some st"
    using restart_lookup [OF store(2), of spk a a1 r "peer_bytes pid"] restart store(3,4) saved(2) by (cases pid) (simp add: s1 restored_def)
  obtain km2 c2 rk2 n2 cly where e2: "encrypt_for_peer (ce_crypto E) (peer_bytes pid) txt (cl_keys (app_core a1)) = (km2, Ok (c2, rk2, n2))"
    and q2: "send_raw (serialize (ChatSend (peer_bytes pid) c2 rk2 n2)) NONE
        ((app_core a1)\<lparr>cl_outbound := Some [], cl_keys := km2\<rparr>) = (cly, Ok ())"
    and cl2: "cl2 = persist_message E Sent pid txt cly"
    using message by (auto simp: send_message_def split: prod.splits result.splits)
  obtain ck where ck: "rk2 = rk" "n2 = n" "aead_encrypt (ce_crypto E) (snd (kdf_chain (ce_crypto E) ck))
        (nonce_material (snd (kdf_chain (ce_crypto E) ck)) n) data rk = Ok c1"
      "aead_encrypt (ce_crypto E) (snd (kdf_chain (ce_crypto E) ck)) (nonce_material (snd (kdf_chain (ce_crypto E) ck)) n) txt rk = Ok c2"
    using encrypt_for_peer_header [OF saved(1) e1] encrypt_for_peer_header [OF m e2] by auto
  have "cl_outbound cl1 = cl_outbound clx" "cl_outbound cl2 = cl_outbound cly" by (simp_all add: cl1 cl2 emit_def)
  with send_raw_queues [OF q1] send_raw_queues [OF q2] ck show ?thesis by metis
qed

lemma encrypt_for_demo:
  assumes "map_of (peer_sessions km) p = Some demo_session"
  shows "\<exists>km1 c. encrypt_for_peer demo_crypto p d km = (km1, Ok (c, send_ratchet_key demo_session, 0))"
  using assms
  by (auto simp: encrypt_for_peer_def encrypt_def demo_session_def init_sender_def aead_encrypt_def demo_crypto_def Let_def
      split: prod.splits)

theorem chunks_reuse_message_keys_witness:
  "\<exists>key nonce rk n c1 c2. aead_encrypt demo_crypto key nonce [1, 2] rk = Ok c1 \<and> aead_encrypt demo_crypto key nonce [8] rk = Ok c2
    \<and> (let cl = (demo_client 1)\<lparr>cl_store := Some demo_file, cl_keys := restore_ratchet_state (replicate 32 1) demo_session (cl_keys (demo_client 1))\<rparr>;
           cl1 = fst (chunk_callback codec_env demo_peer [7] False 0 [1, 2] [] cl);
           a1 = fst (activate_identity codec_env demo_seed \<lparr>secret = [4]\<rparr> (Ok (the (cl_store cl1))) demo_app);
           cl2 = fst (send_message codec_env demo_peer [8] ((app_core a1)\<lparr>cl_outbound := Some []\<rparr>))
       in last (the (cl_outbound cl1)) = (serialize (FileChunk (replicate 32 1) [7] 0 c1 [] rk n), NONE)
          \<and> last (the (cl_outbound cl2)) = (serialize (ChatSend (replicate 32 1) c2 rk n), NONE))"
proof -
  define cl where "cl = (demo_client 1)\<lparr>cl_store := Some demo_file,
    cl_keys := restore_ratchet_state (replicate 32 1) demo_session (cl_keys (demo_client 1))\<rparr>"
  define r where "r = chunk_callback codec_env demo_peer [7] False 0 [1, 2] [] cl"
  define ac where "ac = activate_identity codec_env demo_seed \<lparr>secret = [4]\<rparr> (Ok (the (cl_store (fst r)))) demo_app"
  define m where "m = send_message codec_env demo_peer [8] ((app_core (fst ac))\<lparr>cl_outbound := Some []\<rparr>)"
  have cl: "cl_store cl = Some demo_file" "cl_outbound cl = Some []" "cl_io_alive cl"
      "map_of (peer_sessions (cl_keys cl)) (replicate 32 1) = Some demo_session"
    by (simp_all add: cl_def demo_client_def client_new_def client_build_def restore_ratchet_state_def update_conv')
  have p: "peer_bytes demo_peer = replicate 32 1" by (simp add: demo_peer_def)
  obtain km c where e: "encrypt_for_peer demo_crypto (replicate 32 1) [1, 2] (cl_keys cl) = (km, Ok (c, send_ratchet_key demo_session, 0))"
    using encrypt_for_demo [OF cl(4)] by blast
  have r: "snd r = Ok ()" "cl_store (fst r) = Some demo_file"
    using cl e by (simp_all add: r_def chunk_callback_def codec_env_ok p send_raw_def emit_def)
  have a1: "map_of (peer_sessions (cl_keys (app_core (fst ac)))) (replicate 32 1) = Some demo_session"
    using restart_lookup [of demo_file codec_env demo_seed "\<lparr>secret = [4]\<rparr>" demo_app "fst ac" "snd ac" "replicate 32 1"] demo_file_facts
    by (simp add: ac_def r codec_env_ok(2) restored_def demo_peer_def)
  have io: "cl_io_alive (app_core (fst ac))"
    by (simp add: ac_def r activate_identity_def Let_def api_build_def client_with_seed_def client_build_def)
  obtain km2 c2 where e2: "encrypt_for_peer demo_crypto (replicate 32 1) [8] (cl_keys (app_core (fst ac)))
      = (km2, Ok (c2, send_ratchet_key demo_session, 0))"
    using encrypt_for_demo [OF a1] by blast
  have m: "snd m = Ok ()" using e2 io by (simp add: m_def send_message_def codec_env_ok p send_raw_def)
  have ac: "activate_identity codec_env demo_seed \<lparr>secret = [4]\<rparr> (Ok demo_file) demo_app = ac" by (simp add: ac_def r)
  have "\<exists>key nonce rk n c1 c2 q1 q2.
    cl_outbound (fst r) = Some (q1 @ [(serialize (FileChunk (replicate 32 1) [7] 0 c1 [] rk n), NONE)])
    \<and> cl_outbound (fst m) = Some (q2 @ [(serialize (ChatSend (replicate 32 1) c2 rk n), NONE)])
    \<and> aead_encrypt demo_crypto key nonce [1, 2] rk = Ok c1 \<and> aead_encrypt demo_crypto key nonce [8] rk = Ok c2"
    using chunks_reuse_message_keys [of cl demo_file codec_env demo_seed demo_peer demo_session "[7]" 0 "[1, 2]" "[]" "fst r"
        "\<lparr>secret = [4]\<rparr>" demo_app "fst ac" "snd ac" "[8]" "fst m"] cl r m demo_file_facts
    by (simp add: codec_env_ok(2) p prod_eq_iff r_def [symmetric] ac m_def [symmetric])
  then show ?thesis unfolding Let_def cl_def [symmetric] r_def [symmetric] ac_def [symmetric] m_def [symmetric]
    by (metis last_snoc option.sel)
qed

section \<open>Peers that cannot be reached when they are offline\<close>

lemma hex_pairs_strict_encode [simp]: "hex_pairs_strict (hex_encode b) = Some b"
  by (induction b) (simp_all add: hex_encode_def byte_from_hex_digits)

lemma length_hex_encode [simp]: "length (hex_encode b) = 2 * length b"
  by (induction b) (simp_all add: hex_encode_def)

lemma parse_peer_id_hex:
  assumes "length (peer_bytes pid) = 32"
  shows "parse_peer_id_64 (peer_id_hex pid) = Ok pid" "parse_peer_id (peer_id_hex pid) = Ok pid"
  using assms by (cases pid; simp add: parse_peer_id_64_def parse_peer_id_def peer_id_hex_def hex_decode_def peer_from_bytes_def)+

text \<open>A peer with a session and a conversation, but without an inbox identifier.\<close>

definition row_without_inbox :: "PeerId \<Rightarrow> SqliteMessageStore \<Rightarrow> bool" where
  "row_without_inbox pid s \<longleftrightarrow> map_option cv_inbox_id (map_of (sq_conversations s) (peer_bytes pid)) = Some None"

definition no_inbox :: "PeerId \<Rightarrow> Client \<Rightarrow> bool" where
  "no_inbox pid cl \<longleftrightarrow> has_session (peer_bytes pid) (cl_keys cl)
    \<and> (case cl_store cl of None \<Rightarrow> False | Some s \<Rightarrow> row_without_inbox pid s)"

lemma no_inbox_with_store:
  "no_inbox pid cl \<Longrightarrow> (\<And>s. row_without_inbox pid s \<Longrightarrow> row_without_inbox pid (fst (f s))) \<Longrightarrow> no_inbox pid (with_store f cl)"
  by (auto simp: no_inbox_def with_store_def split: option.splits)

lemma row_without_inbox_save:
  "row_without_inbox pid s \<Longrightarrow> row_without_inbox pid (fst (sq_save_conversation E q None s))"
  "row_without_inbox pid s \<Longrightarrow> pid \<noteq> q \<Longrightarrow> row_without_inbox pid (fst (sq_save_peer_inbox_id q i s))"
  by (auto simp: row_without_inbox_def sq_save_conversation_def sq_save_peer_inbox_id_def map_of_map_entry map_add_def Let_def
      split: option.splits)

lemma request_frame:
  assumes "request k body cl = (cl1, r)"
  shows "cl_keys cl1 = cl_keys cl" "cl_store cl1 = cl_store cl" "cl_peer_id cl1 = cl_peer_id cl"
  using assms by (auto simp: request_def new_pending_def send_raw_def split: option.splits if_splits)

lemma no_inbox_keys: "no_inbox pid cl \<Longrightarrow> has_session (peer_bytes pid) km \<Longrightarrow> no_inbox pid (cl\<lparr>cl_keys := km\<rparr>)"
  by (simp add: no_inbox_def)

lemma has_session_init:
  "has_session p km \<Longrightarrow> has_session p (init_sender_session C rnd q ss pub km)" "has_session p km \<Longrightarrow> has_session p (init_receiver_session C q ss km)"
  by (simp_all add: has_session_def init_sender_session_def init_receiver_session_def update_conv')

lemma no_inbox_reply:
  assumes "no_inbox pid cl" "pid \<noteq> q"
  shows "no_inbox pid (fst (initiate_session_reply E q resp cl))"
proof -
  have "has_session (peer_bytes pid) (cl_keys cl)" using assms(1) by (simp add: no_inbox_def)
  then show ?thesis using assms(1)
    by (auto simp: initiate_session_reply_def Let_def split: result.splits option.splits
        intro!: no_inbox_with_store no_inbox_keys has_session_init row_without_inbox_save(2) assms(2))
qed

lemma no_inbox_initiate:
  assumes "no_inbox pid cl" "aw_meanwhile w = id"
  shows "no_inbox pid (fst (api_initiate_session E w q cl))"
proof (cases "has_session (peer_bytes q) (cl_keys cl)")
  case False
  then have "pid \<noteq> q" using assms(1) by (auto simp: no_inbox_def)
  moreover obtain cl1 r where i: "request GetPrekeys (serialize (KeysGetPrekeys (peer_bytes q))) cl = (cl1, r)" by fastforce
  moreover have n: "no_inbox pid cl1" using assms(1) request_frame [OF i] by (simp add: no_inbox_def)
  moreover have "no_inbox pid c" if "initiate_session_reply E q resp cl1 = (c, x)" for resp c x
    using no_inbox_reply [OF n \<open>pid \<noteq> q\<close>, of E resp] that by simp
  ultimately show ?thesis using assms(2) False
    by (auto simp: api_initiate_session_def initiate_session_def split: result.splits option.splits prod.splits)
qed (use assms in \<open>simp add: api_initiate_session_def initiate_session_def\<close>)

lemma no_inbox_handle_event:
  assumes "no_inbox pid (app_core a)" "aw_meanwhile w = id"
  shows "no_inbox pid (app_core (fst (handle_event E w lossy fmt ev a)))"
proof (cases ev)
  case (EvPeerConnected q)
  then show ?thesis using no_inbox_initiate [OF assms, of E q]
    by (auto simp: peer_connected_def Let_def split: prod.splits option.splits intro: no_inbox_with_store row_without_inbox_save(1))
qed (use assms in simp_all)

definition handle_events ::
  "client_env \<Rightarrow> (bytes \<Rightarrow> rstring) \<Rightarrow> (SocketAddr \<Rightarrow> rstring) \<Rightarrow> (awaiting \<times> ClientEvent) list \<Rightarrow> AppState \<Rightarrow> AppState" where
  "handle_events E lossy fmt evs a = fold (\<lambda>(w, ev) a. fst (handle_event E w lossy fmt ev a)) evs a"

lemma no_inbox_handle_events:
  "no_inbox pid (app_core a) \<Longrightarrow> \<forall>(w, ev)\<in>set evs. aw_meanwhile w = id \<Longrightarrow> no_inbox pid (app_core (handle_events E lossy fmt evs a))"
  unfolding handle_events_def by (induction evs arbitrary: a) (auto simp: no_inbox_handle_event)

lemma map_entry_absent: "map_of xs k = None \<Longrightarrow> AList.map_entry k f xs = xs"
  by (induction xs) auto

lemma peer_connected_no_inbox:
  assumes "cl_store (app_core a) = Some s" "sq_writable s" "fits_i64 (ce_now E)" "map_of (sq_conversations s) (peer_bytes pid) = None"
    and "\<not> has_session (peer_bytes pid) (cl_keys (app_core a))" "cl_outbound (app_core a) = Some q" "cl_io_alive (app_core a)"
    and "prekey_answer resp ik spk" "length ik = 32" "length spk = 32"
  shows "no_inbox pid (app_core (fst (peer_connected E \<lparr>aw_meanwhile = id, aw_answer = Some (Ok resp)\<rparr> pid a)))"
proof -
  obtain cl1 t where i: "request GetPrekeys (serialize (KeysGetPrekeys (peer_bytes pid))) (app_core a) = (cl1, Ok t)"
    using assms(6,7) by (auto simp: request_def new_pending_def send_raw_def)
  have "sq_save_peer_inbox_id pid inbox s = (s, Ok ())" for inbox
    using assms(2,4) by (simp add: sq_save_peer_inbox_id_def map_entry_absent)
  then show ?thesis using assms request_frame [OF i]
    by (auto simp: peer_connected_def api_initiate_session_def initiate_session_def i initiate_session_reply_def prekey_answer_def Let_def
        no_inbox_def row_without_inbox_def with_store_def sq_save_conversation_def has_session_def init_sender_session_def init_receiver_session_def
        update_conv' map_add_def split: option.splits)
qed

text \<open>The inbox identifier of a new peer is lost.  The answer of the key exchange carries it, and \<^verbatim>\<open>initiate_session\<close>
  stores it by an update of the row of the conversation; but the event handler creates that row only afterwards.  From
  then on the session exists, so the identifier is never asked for again: whatever events follow, as soon as the peer is
  offline every message to it is refused.
\<close>

theorem new_peer_inbox_lost:
  assumes "cl_store (app_core a) = Some s" "sq_writable s" "fits_i64 (ce_now E)" "map_of (sq_conversations s) (peer_bytes pid) = None"
    and "\<not> has_session (peer_bytes pid) (cl_keys (app_core a))" "cl_outbound (app_core a) = Some q" "cl_io_alive (app_core a)"
    and "prekey_answer resp ik spk" "length ik = 32" "length spk = 32" "reply_inbox_id resp = Some inbox" "length (peer_bytes pid) = 32"
    and "a1 = fst (handle_event E \<lparr>aw_meanwhile = id, aw_answer = Some (Ok resp)\<rparr> lossy fmt (EvPeerConnected pid) a)"
    and "\<forall>(w, ev)\<in>set evs. aw_meanwhile w = id" "a2 = handle_events E lossy fmt evs a1" "pid \<notin> set (ap_peers a2)"
  shows "snd (send_message_cmd E w (peer_id_hex pid) txt a2)
    = Some (Err (Session ''offline delivery is unavailable until the peer reconnects''))"
proof -
  have "no_inbox pid (app_core a1)" using peer_connected_no_inbox [OF assms(1-10)] assms(13) by simp
  then have "no_inbox pid (app_core a2)" using no_inbox_handle_events assms(14,15) by blast
  then show ?thesis using assms(16) parse_peer_id_hex(1) [OF assms(12)]
    by (auto simp: send_message_cmd_def send_offline_def no_inbox_def row_without_inbox_def sq_load_peer_inbox_id_def
        split: option.splits)
qed

definition fresh_app :: AppState where
  "fresh_app = on_core (\<lambda>_. (demo_client 1)\<lparr>cl_store := Some (sqlite_create True [9])\<rparr>) demo_app"

definition inbox_json :: json where
  "inbox_json = (case bundle_json (replicate 32 4) (replicate 32 5) of JObj kvs \<Rightarrow>
     JObj ((ascii ''inbox_id'', JStr (hex_encode [10, 11])) # kvs) | j \<Rightarrow> j)"

lemma inbox_json_answer:
  "prekey_answer inbox_json (replicate 32 4) (replicate 32 5)" "reply_inbox_id inbox_json = Some [10, 11]"
  using bundle_json_answer [of "replicate 32 4" "replicate 32 5"]
  by (simp_all add: inbox_json_def prekey_answer_def bundle_json_def json_bytes_field_def json_field_def ascii_def reply_inbox_id_def
      hex_decode_def)

theorem new_peer_inbox_lost_witness:
  "snd (send_message_cmd (demo_env 5) \<lparr>aw_meanwhile = id, aw_answer = None\<rparr> (peer_id_hex demo_peer) [104] (handle_events (demo_env 5) id (\<lambda>_. [])
      [(\<lparr>aw_meanwhile = id, aw_answer = None\<rparr>, EvDisconnected)]
      (fst (handle_event (demo_env 5) \<lparr>aw_meanwhile = id, aw_answer = Some (Ok inbox_json)\<rparr> id (\<lambda>_. []) (EvPeerConnected demo_peer) fresh_app))))
    = Some (Err (Session ''offline delivery is unavailable until the peer reconnects''))"
  by (rule new_peer_inbox_lost [where s = "sqlite_create True [9]" and q = "[]", OF _ _ _ _ _ _ _ inbox_json_answer(1) _ _ inbox_json_answer(2) _ refl _ refl])
    (simp_all add: fresh_app_def sqlite_create_def fits_i64_def demo_env_def has_session_def demo_client_def client_new_def client_build_def
      key_manager_new_def demo_peer_def handle_events_def ui_def)

section \<open>The history of the peer that joins a link\<close>

text \<open>A database with enforced foreign keys that has no conversation with the peer; \<^verbatim>\<open>ms\<close> are its messages.\<close>

definition unlisted_row :: "PeerId \<Rightarrow> message_row list \<Rightarrow> SqliteMessageStore \<Rightarrow> bool" where
  "unlisted_row pid ms s \<longleftrightarrow> sq_foreign_keys s \<and> map_of (sq_conversations s) (peer_bytes pid) = None \<and> sq_messages s = ms"

definition unlisted :: "PeerId \<Rightarrow> message_row list \<Rightarrow> Client \<Rightarrow> bool" where
  "unlisted pid ms cl \<longleftrightarrow> (case cl_store cl of None \<Rightarrow> False | Some s \<Rightarrow> unlisted_row pid ms s)"

lemma unlisted_row_ops:
  "unlisted_row pid ms s \<Longrightarrow> unlisted_row pid ms (fst (sq_save_peer_inbox_id q i s))"
  "unlisted_row pid ms s \<Longrightarrow> unlisted_row pid ms (fst (sq_save_message E pid d m t s))"
  "unlisted_row pid ms s \<Longrightarrow> unlisted_row pid ms (fst (sq_save_ratchet_state E q st s))"
  by (auto simp: unlisted_row_def sq_save_peer_inbox_id_def sq_save_message_def sq_save_ratchet_state_def map_of_map_entry Let_def
      split: result.splits option.splits)

lemma unlisted_with_store:
  "unlisted pid ms cl \<Longrightarrow> (\<And>s. unlisted_row pid ms s \<Longrightarrow> unlisted_row pid ms (fst (f s))) \<Longrightarrow> unlisted pid ms (with_store f cl)"
  by (auto simp: unlisted_def with_store_def split: option.splits)

lemma unlisted_keys [simp]: "unlisted pid ms (cl\<lparr>cl_keys := km\<rparr>) = unlisted pid ms cl"
  by (simp add: unlisted_def)

lemma unlisted_reply: "unlisted pid ms cl \<Longrightarrow> unlisted pid ms (fst (initiate_session_reply E q resp cl))"
  by (auto simp: initiate_session_reply_def Let_def split: result.splits option.splits
      intro!: unlisted_with_store unlisted_row_ops(1))

lemma unlisted_initiate:
  assumes "unlisted pid ms cl" "aw_meanwhile w = id" "api_initiate_session E w q cl = (cl1, r)"
  shows "unlisted pid ms cl1"
proof (cases "has_session (peer_bytes q) (cl_keys cl)")
  case False
  obtain c x where i: "request GetPrekeys (serialize (KeysGetPrekeys (peer_bytes q))) cl = (c, x)" by fastforce
  have u: "unlisted pid ms c" using assms(1) request_frame [OF i] by (simp add: unlisted_def)
  have "unlisted pid ms c1" if "initiate_session_reply E q resp c = (c1, y)" for resp c1 y
    using unlisted_reply [OF u, of E q resp] that by simp
  then show ?thesis using assms(2,3) i False u
    by (auto simp: api_initiate_session_def initiate_session_def split: result.splits option.splits prod.splits)
qed (use assms in \<open>simp add: api_initiate_session_def initiate_session_def\<close>)

lemma unlisted_send_raw: "unlisted pid ms cl \<Longrightarrow> send_raw body fl cl = (cl1, r) \<Longrightarrow> unlisted pid ms cl1"
  by (auto simp: unlisted_def send_raw_def split: option.splits if_splits)

lemma unlisted_persist: "unlisted pid ms cl \<Longrightarrow> unlisted pid ms (persist_message E d pid m cl)"
  by (auto simp: persist_message_def persist_ratchet_def split: option.splits intro!: unlisted_with_store unlisted_row_ops)

lemma unlisted_send_message:
  assumes "unlisted pid ms cl" "send_message E pid txt cl = (cl1, r)"
  shows "unlisted pid ms cl1"
  using assms
  by (auto simp: send_message_def split: prod.splits result.splits intro!: unlisted_persist dest: unlisted_send_raw [rotated])

lemma unlisted_send_online:
  assumes "unlisted pid ms cl" "aw_meanwhile w = id" "send_online E w pid txt cl = (cl1, r)"
  shows "unlisted pid ms cl1"
  using assms
  by (auto simp: send_online_def split: prod.splits option.splits result.splits if_splits
      dest: unlisted_initiate unlisted_send_message)

definition send_texts :: "client_env \<Rightarrow> rstring \<Rightarrow> (awaiting \<times> rstring) list \<Rightarrow> AppState \<Rightarrow> AppState" where
  "send_texts E hx ts a = fold (\<lambda>(w, txt) a. fst (send_message_cmd E w hx txt a)) ts a"

lemma unlisted_send_texts:
  assumes "length (peer_bytes pid) = 32"
  shows "unlisted pid ms (app_core a) \<Longrightarrow> pid \<in> set (ap_peers a) \<Longrightarrow> \<forall>(w, txt)\<in>set ts. aw_meanwhile w = id \<Longrightarrow>
    unlisted pid ms (app_core (send_texts E (peer_id_hex pid) ts a))"
proof (induction ts arbitrary: a)
  case (Cons t ts)
  obtain w m where t: "t = (w, m)" by fastforce
  obtain cl r where s: "send_online E w pid m (app_core a) = (cl, r)" by fastforce
  have "fst (send_message_cmd E w (peer_id_hex pid) m a) = on_core (\<lambda>_. cl) a"
    using Cons.prems(2) s by (simp add: send_message_cmd_def parse_peer_id_hex(1) [OF assms])
  moreover have "aw_meanwhile w = id" using Cons.prems(3) t by (simp add: id_def)
  then have "unlisted pid ms cl" by (rule unlisted_send_online [OF Cons.prems(1) _ s])
  ultimately show ?case using Cons.IH [of "on_core (\<lambda>_. cl) a"] Cons.prems t by (simp add: send_texts_def)
qed (simp add: send_texts_def)

text \<open>Whoever joins a link keeps nothing.  Only the handler of \<^verbatim>\<open>PeerConnected\<close>, which the creator of the link receives,
  creates a conversation; the command that joins a link does not.  With enforced foreign keys, the default of the bundled
  SQLite, none of the messages that are then sent is stored, and after a restart there is no session with the peer.
\<close>

theorem joiner_keeps_nothing:
  assumes "cl_store (app_core a) = Some s" "sq_foreign_keys s" "map_of (sq_conversations s) (peer_bytes pid) = None"
    and "length (peer_bytes pid) = 32" "aw_meanwhile w1 = id" "aw_meanwhile w2 = id"
    and "join_link_cmd E w1 w2 link a = (a1, Some (Ok (peer_id_hex pid)))"
    and "\<forall>(w, txt)\<in>set ts. aw_meanwhile w = id" "a2 = send_texts E (peer_id_hex pid) ts a1"
  shows "\<exists>s2. cl_store (app_core a2) = Some s2 \<and> sq_messages s2 = sq_messages s \<and> (sq_sek s2 = derive_storage_key (ce_crypto E) seed \<longrightarrow>
      \<not> has_session (peer_bytes pid) (cl_keys (app_core (fst (activate_identity E seed spk (Ok s2) a0)))))"
proof -
  have "unlisted pid (sq_messages s) (app_core a)" using assms(1-3) by (simp add: unlisted_def unlisted_row_def)
  moreover obtain cl t where j: "cl_join_link link (app_core a) = (cl, Ok t)"
    using assms(7) by (auto simp: join_link_cmd_def split: result.splits prod.splits)
  ultimately have u: "unlisted pid (sq_messages s) cl"
    using request_frame(2) [OF j [unfolded cl_join_link_def]] by (simp add: unlisted_def)
  obtain q cl2 where i: "api_initiate_session E w2 q cl = (cl2, Some (Ok ()))" "peer_id_hex q = peer_id_hex pid"
      "app_core a1 = cl2" "ap_peers a1 = List.insert q (ap_peers a)"
    using assms(5,7) j by (auto simp: join_link_cmd_def Let_def split: result.splits option.splits prod.splits)
  then have "unlisted pid (sq_messages s) (app_core a1)" "pid \<in> set (ap_peers a1)"
    using unlisted_initiate [OF u assms(6) i(1)] by (auto simp: peer_id_hex_def)
  then have "unlisted pid (sq_messages s) (app_core a2)"
    using unlisted_send_texts [OF assms(4) _ _ assms(8)] assms(9) by simp
  then obtain s2 where s2: "cl_store (app_core a2) = Some s2" "sq_messages s2 = sq_messages s"
      "map_of (sq_conversations s2) (peer_bytes pid) = None"
    by (auto simp: unlisted_def unlisted_row_def split: option.splits)
  then show ?thesis using restart_lookup [OF _ surjective_pairing, of s2 E seed spk a0 "peer_bytes pid"]
    by (simp add: has_session_def)
qed

definition joiner_wait :: awaiting where
  "joiner_wait = \<lparr>aw_meanwhile = id, aw_answer = Some (Ok (JObj [(ascii ''found'', JBool True), (ascii ''peer_id'', JStr (peer_id_hex demo_peer))]))\<rparr>"

definition keys_wait :: awaiting where
  "keys_wait = \<lparr>aw_meanwhile = id, aw_answer = Some (Ok inbox_json)\<rparr>"

lemma demo_join:
  "\<exists>a1. join_link_cmd (demo_env 5) joiner_wait keys_wait [97] fresh_app = (a1, Some (Ok (peer_id_hex demo_peer)))"
proof -
  have "app_core fresh_app = (demo_client 1)\<lparr>cl_store := Some (sqlite_create True [9])\<rparr>" by (simp add: fresh_app_def)
  moreover have "cl_join_link_reply (JObj [(ascii ''found'', JBool True), (ascii ''peer_id'', JStr (peer_id_hex demo_peer))]) = Ok demo_peer"
    by (simp add: cl_join_link_reply_def json_field_def ascii_def peer_id_hex_def hex_decode_def demo_peer_def peer_from_bytes_def)
  ultimately show ?thesis
    using inbox_json_answer
    by (auto simp: join_link_cmd_def cl_join_link_def request_def new_pending_def send_raw_def demo_client_def client_new_def
        client_build_def joiner_wait_def keys_wait_def api_initiate_session_def initiate_session_def has_session_def key_manager_new_def
        initiate_session_reply_def prekey_answer_def Let_def)
qed

theorem joiner_keeps_nothing_witness:
  "\<exists>s2. cl_store (app_core (send_texts (demo_env 5) (peer_id_hex demo_peer) [(keys_wait, [104]), (keys_wait, [105])]
      (fst (join_link_cmd (demo_env 5) joiner_wait keys_wait [97] fresh_app)))) = Some s2 \<and> sq_messages s2 = []"
proof -
  obtain a1 where a1: "join_link_cmd (demo_env 5) joiner_wait keys_wait [97] fresh_app = (a1, Some (Ok (peer_id_hex demo_peer)))"
    using demo_join by blast
  have "cl_store (app_core fresh_app) = Some (sqlite_create True [9])" "sq_foreign_keys (sqlite_create True [9])"
      "map_of (sq_conversations (sqlite_create True [9])) (peer_bytes demo_peer) = None" "length (peer_bytes demo_peer) = 32"
      "aw_meanwhile joiner_wait = id" "aw_meanwhile keys_wait = id" "sq_messages (sqlite_create True [9]) = []"
    by (simp_all add: fresh_app_def sqlite_create_def demo_peer_def joiner_wait_def keys_wait_def)
  with joiner_keeps_nothing [OF this(1-6) a1 _ refl, of "[(keys_wait, [104]), (keys_wait, [105])]" demo_seed "\<lparr>secret = [4]\<rparr>" demo_app] a1
  show ?thesis by auto
qed

end
