(* ===== verification/Dtls_Session.thy ===== *)
theory Dtls_Session
  imports Crypto_Base Nat_Stun "HOL-Library.Sublist"
begin

text \<open>
  The authenticated UDP session over a punched hole (\<^verbatim>\<open>crates/cypher-nat/src/dtls.rs\<close>): datagrams carry a sequence
  number and an HMAC over number and payload, receivers accept strictly increasing numbers, and a one-round
  handshake checks that both sides hold the key.  What the socket delivers is a list of outcomes.
\<close>

section \<open>State and datagrams\<close>

definition MAX_DATAGRAM_PAYLOAD :: nat where "MAX_DATAGRAM_PAYLOAD = 65000"
definition DTLS_HEADER_LEN :: nat where "DTLS_HEADER_LEN = 8 + 32"
definition HANDSHAKE_MAGIC :: bytes where "HANDSHAKE_MAGIC = ascii ''P2P-DTLS''"
definition HANDSHAKE_ACK :: bytes where "HANDSHAKE_ACK = ascii ''P2P-DACK''"

record DtlsSession =
  dtls_remote :: SocketAddr
  send_seq :: u64
  recv_seq :: u64
  hmac_key :: bytes

definition dtls_session_new :: "SocketAddr \<Rightarrow> bytes \<Rightarrow> DtlsSession" where
  "dtls_session_new remote session_key
    = \<lparr>dtls_remote = remote, send_seq = 1, recv_seq = 0, hmac_key = session_key\<rparr>"

definition dtls_datagram :: "crypto \<Rightarrow> bytes \<Rightarrow> u64 \<Rightarrow> bytes \<Rightarrow> bytes" where
  "dtls_datagram C key n body = u64_le n @ hmac C key (u64_le n @ body) @ body"

text \<open>\<^verbatim>\<open>fetch_add\<close> wraps; the datagram is the one handed to the socket, whose send may fail.\<close>

definition send_authenticated :: "crypto \<Rightarrow> bool \<Rightarrow> bytes \<Rightarrow> DtlsSession \<Rightarrow> DtlsSession \<times> bytes \<times> unit result" where
  "send_authenticated C sent body s =
    (s\<lparr>send_seq := send_seq s + 1\<rparr>, dtls_datagram C (hmac_key s) (send_seq s) body,
     if sent then Ok () else Err (Transport ''DTLS send''))"

definition dtls_constant_time_eq :: "bytes \<Rightarrow> bytes \<Rightarrow> bool" where
  "dtls_constant_time_eq a b =
    (if length a \<noteq> length b then False
     else fold (\<lambda>(x, y) diff. or diff (xor x y)) (zip a b) 0 = 0)"

definition verify_and_strip :: "crypto \<Rightarrow> bytes \<Rightarrow> DtlsSession \<Rightarrow> DtlsSession \<times> bytes option" where
  "verify_and_strip C data s =
    (if length data < DTLS_HEADER_LEN then (s, None)
     else let seqno = (from_le (slice_of 0 8 data) :: u64);
              received_hmac = slice_of 8 40 data;
              body = drop DTLS_HEADER_LEN data;
              expected = hmac C (hmac_key s) (slice_of 0 8 data @ body)
       in if \<not> dtls_constant_time_eq received_hmac expected then (s, None)
          else if seqno \<le> recv_seq s then (s, None)
          else (s\<lparr>recv_seq := seqno\<rparr>, Some body))"

section \<open>Handshake, send and receive\<close>

text \<open>One receive call: a datagram and its source, an I/O error, or the timeout of the call.\<close>

datatype udp_event = UdpData bytes SocketAddr | UdpErr string | UdpTimeout

text \<open>The loop of the initiator after its handshake message; \<^verbatim>\<open>None\<close> while it is waiting.\<close>

fun await_ack :: "crypto \<Rightarrow> udp_event list \<Rightarrow> DtlsSession \<Rightarrow> DtlsSession result option" where
  "await_ack C [] s = None"
| "await_ack C (UdpErr e # es) s = Some (Err (Transport ''DTLS handshake recv''))"
| "await_ack C (UdpTimeout # es) s = Some (Err (Transport ''DTLS handshake timeout''))"
| "await_ack C (UdpData datagram source # es) s =
    (if source = dtls_remote s then
       (case verify_and_strip C (take (DTLS_HEADER_LEN + length HANDSHAKE_ACK) datagram) s of
          (s', Some body) \<Rightarrow> if body = HANDSHAKE_ACK then Some (Ok s') else await_ack C es s'
        | (s', None) \<Rightarrow> await_ack C es s')
     else await_ack C es s)"

definition connect_as_client ::
  "crypto \<Rightarrow> SocketAddr \<Rightarrow> bytes \<Rightarrow> bool \<Rightarrow> udp_event list \<Rightarrow> bytes list \<times> DtlsSession result option" where
  "connect_as_client C remote session_key sent es =
    (case send_authenticated C sent HANDSHAKE_MAGIC (dtls_session_new remote session_key) of
       (s, datagram, Err e) \<Rightarrow> ([datagram], Some (Err e))
     | (s, datagram, Ok _) \<Rightarrow> ([datagram], await_ack C es s))"

fun await_handshake :: "crypto \<Rightarrow> bool \<Rightarrow> udp_event list \<Rightarrow> DtlsSession \<Rightarrow> bytes list \<times> DtlsSession result option" where
  "await_handshake C sent [] s = ([], None)"
| "await_handshake C sent (UdpErr e # es) s = ([], Some (Err (Transport ''DTLS handshake recv'')))"
| "await_handshake C sent (UdpTimeout # es) s = ([], Some (Err (Transport ''DTLS handshake timeout'')))"
| "await_handshake C sent (UdpData datagram source # es) s =
    (if source = dtls_remote s then
       (case verify_and_strip C (take (DTLS_HEADER_LEN + length HANDSHAKE_MAGIC) datagram) s of
          (s', Some body) \<Rightarrow>
            if body = HANDSHAKE_MAGIC then
              (case send_authenticated C sent HANDSHAKE_ACK s' of
                 (s'', out, Ok _) \<Rightarrow> ([out], Some (Ok s''))
               | (s'', out, Err e) \<Rightarrow> ([out], Some (Err e)))
            else await_handshake C sent es s'
        | (s', None) \<Rightarrow> await_handshake C sent es s')
     else await_handshake C sent es s)"

definition accept_as_server ::
  "crypto \<Rightarrow> SocketAddr \<Rightarrow> bytes \<Rightarrow> bool \<Rightarrow> udp_event list \<Rightarrow> bytes list \<times> DtlsSession result option" where
  "accept_as_server C remote session_key sent es
    = await_handshake C sent es (dtls_session_new remote session_key)"

definition dtls_send :: "crypto \<Rightarrow> bool \<Rightarrow> bytes \<Rightarrow> DtlsSession \<Rightarrow> DtlsSession \<times> bytes list \<times> unit result" where
  "dtls_send C sent data s =
    (if MAX_DATAGRAM_PAYLOAD < length data then (s, [], Err (Transport ''payload too large for UDP''))
     else case send_authenticated C sent data s of (s', datagram, r) \<Rightarrow> (s', [datagram], r))"

text \<open>One call of \<^verbatim>\<open>recv\<close>: the remaining socket outcomes and what it returns, \<^verbatim>\<open>Ok None\<close> after a quiet 30 s.\<close>

fun dtls_recv :: "crypto \<Rightarrow> udp_event list \<Rightarrow> DtlsSession
    \<Rightarrow> DtlsSession \<times> udp_event list \<times> bytes option result option" where
  "dtls_recv C [] s = (s, [], None)"
| "dtls_recv C (UdpErr e # es) s = (s, es, Some (Err (Transport ''DTLS recv'')))"
| "dtls_recv C (UdpTimeout # es) s = (s, es, Some (Ok None))"
| "dtls_recv C (UdpData datagram source # es) s =
    (if source \<noteq> dtls_remote s then dtls_recv C es s
     else case verify_and_strip C (take (DTLS_HEADER_LEN + MAX_DATAGRAM_PAYLOAD) datagram) s of
        (s', Some body) \<Rightarrow> (s', es, Some (Ok (Some body)))
      | (s', None) \<Rightarrow> dtls_recv C es s')"

section \<open>Sequences of sends and receives\<close>

text \<open>The datagrams a session emits for a list of payloads, and the payloads repeated \<^verbatim>\<open>recv\<close> calls return.\<close>

primrec dtls_send_all :: "crypto \<Rightarrow> bytes list \<Rightarrow> DtlsSession \<Rightarrow> DtlsSession \<times> bytes list" where
  "dtls_send_all C [] s = (s, [])"
| "dtls_send_all C (b # bs) s =
    (let (s', out, r) = dtls_send C True b s; (s'', outs) = dtls_send_all C bs s' in (s'', out @ outs))"

lemma dtls_recv_shrinks: "dtls_recv C es s = (s', es', Some r) \<Longrightarrow> length es' < length es"
  by (induction C es s rule: dtls_recv.induct) (auto split: if_splits prod.splits option.splits)

function dtls_recv_all :: "crypto \<Rightarrow> udp_event list \<Rightarrow> DtlsSession \<Rightarrow> DtlsSession \<times> bytes list" where
  "dtls_recv_all C es s =
    (case dtls_recv C es s of
       (s', es', None) \<Rightarrow> (s', [])
     | (s', es', Some (Ok (Some b))) \<Rightarrow> (let (s'', bs) = dtls_recv_all C es' s' in (s'', b # bs))
     | (s', es', Some (Ok None)) \<Rightarrow> dtls_recv_all C es' s'
     | (s', es', Some (Err e)) \<Rightarrow> dtls_recv_all C es' s')"
  by pat_completeness auto

termination
  by (relation "measure (\<lambda>(C, es, s). length es)") (auto dest!: dtls_recv_shrinks [OF sym])

declare dtls_recv_all.simps [simp del]

lemma dtls_recv_all_step [simp]:
  "dtls_recv_all C [] s = (s, [])"
  "dtls_recv_all C (UdpErr e # es) s = dtls_recv_all C es s"
  "dtls_recv_all C (UdpTimeout # es) s = dtls_recv_all C es s"
  "dtls_recv_all C (UdpData d src # es) s =
    (if src \<noteq> dtls_remote s then dtls_recv_all C es s
     else case verify_and_strip C (take (DTLS_HEADER_LEN + MAX_DATAGRAM_PAYLOAD) d) s of
        (s', Some b) \<Rightarrow> (let (s'', bs) = dtls_recv_all C es s' in (s'', b # bs))
      | (s', None) \<Rightarrow> dtls_recv_all C es s')"
     apply (subst dtls_recv_all.simps, simp)
    apply (subst dtls_recv_all.simps, simp)
   apply (subst dtls_recv_all.simps, simp)
  apply (subst dtls_recv_all.simps)
  apply (auto split: prod.split option.split simp: dtls_recv_all.simps [of C es])
  done

lemma dtls_constant_time_eq_iff: "dtls_constant_time_eq a b \<longleftrightarrow> a = b"
  unfolding dtls_constant_time_eq_def or_fold_zero by (subst list_eq_iff_zip_eq) simp

definition authentic :: "crypto \<Rightarrow> bytes \<Rightarrow> bytes \<Rightarrow> bool" where
  "authentic C key d \<longleftrightarrow> DTLS_HEADER_LEN \<le> length d
    \<and> slice_of 8 40 d = hmac C key (slice_of 0 8 d @ drop DTLS_HEADER_LEN d)"

lemma verify_and_strip_eq:
  "verify_and_strip C d s =
    (if authentic C (hmac_key s) d \<and> recv_seq s < from_le (slice_of 0 8 d)
     then (s\<lparr>recv_seq := from_le (slice_of 0 8 d)\<rparr>, Some (drop DTLS_HEADER_LEN d)) else (s, None))"
  by (auto simp: verify_and_strip_def authentic_def dtls_constant_time_eq_iff Let_def not_less)

lemma dtls_datagram_fields:
  assumes "crypto_ok C"
  shows "slice_of 0 8 (dtls_datagram C key n b) = u64_le n"
    and "drop DTLS_HEADER_LEN (dtls_datagram C key n b) = b"
    and "authentic C key (dtls_datagram C key n b)"
    and "length (dtls_datagram C key n b) = DTLS_HEADER_LEN + length b"
  using assms by (simp_all add: dtls_datagram_def slice_of_def DTLS_HEADER_LEN_def authentic_def hmac_length)

text \<open>A datagram of this key is accepted exactly when its number is above every number accepted before.\<close>

lemma verify_and_strip_datagram:
  assumes "crypto_ok C" "hmac_key s = key"
  shows "verify_and_strip C (dtls_datagram C key n b) s =
    (if recv_seq s < n then (s\<lparr>recv_seq := n\<rparr>, Some b) else (s, None))"
  using assms by (simp add: verify_and_strip_eq dtls_datagram_fields u64le.dec_enc)

lemma dtls_send_ok:
  "length b \<le> MAX_DATAGRAM_PAYLOAD \<Longrightarrow> dtls_send C True b s
    = (s\<lparr>send_seq := send_seq s + 1\<rparr>, [dtls_datagram C (hmac_key s) (send_seq s) b], Ok ())"
  by (simp add: dtls_send_def send_authenticated_def)

lemma dtls_send_all_eq:
  "\<forall>b\<in>set bs. length b \<le> MAX_DATAGRAM_PAYLOAD \<Longrightarrow>
    dtls_send_all C bs s = (s\<lparr>send_seq := send_seq s + of_nat (length bs)\<rparr>,
      map (\<lambda>i. dtls_datagram C (hmac_key s) (send_seq s + of_nat i) (bs ! i)) [0..<length bs])"
proof (induction bs arbitrary: s)
  case (Cons b bs)
  have "[0..<length (b # bs)] = 0 # map Suc [0..<length bs]"
    by (simp add: upt_conv_Cons map_Suc_upt del: upt_Suc)
  then show ?case using Cons by (simp add: dtls_send_ok algebra_simps del: upt_Suc)
qed simp

text \<open>Sequence numbers that do not wrap grow strictly.\<close>

lemma seq_no_wrap:
  "unat start + n < 2 ^ 64 \<Longrightarrow> i < n \<Longrightarrow> unat (start + of_nat i :: u64) = unat start + i"
  by (simp add: unat_word_ariths unat_of_nat)

lemma recv_all_subseq:
  assumes C: "crypto_ok C"
    and bs: "\<forall>b\<in>set bs. length b \<le> MAX_DATAGRAM_PAYLOAD"
    and wrap: "unat start + length bs < 2 ^ 64"
    and auth: "\<And>d src. UdpData d src \<in> set es \<Longrightarrow> authentic C key (take (DTLS_HEADER_LEN + MAX_DATAGRAM_PAYLOAD) d)
        \<Longrightarrow> \<exists>i<length bs. take (DTLS_HEADER_LEN + MAX_DATAGRAM_PAYLOAD) d = dtls_datagram C key (start + of_nat i) (bs ! i)"
    and r: "hmac_key r = key" and k: "\<forall>i<length bs. recv_seq r < start + of_nat i \<longrightarrow> k \<le> i"
  shows "subseq (snd (dtls_recv_all C es r)) (drop k bs)"
  using auth r k
proof (induction es arbitrary: r k)
  case (Cons e es)
  have IH: "subseq (snd (dtls_recv_all C es r')) (drop k' bs)"
    if "hmac_key r' = key" "\<forall>i<length bs. recv_seq r' < start + of_nat i \<longrightarrow> k' \<le> i" for r' k'
    by (rule Cons.IH [OF _ that]) (metis Cons.prems(1) list.set_intros(2))
  show ?case
  proof (cases e)
    case (UdpData d src)
    let ?d = "take (DTLS_HEADER_LEN + MAX_DATAGRAM_PAYLOAD) d"
    show ?thesis
    proof (cases "src = dtls_remote r \<and> authentic C key ?d \<and> recv_seq r < from_le (slice_of 0 8 ?d)")
      case True
      then obtain i where i: "i < length bs" "?d = dtls_datagram C key (start + of_nat i) (bs ! i)"
        using Cons.prems(1) UdpData by (metis list.set_intros(1))
      let ?n = "start + of_nat i" and ?r = "r\<lparr>recv_seq := start + of_nat i\<rparr>"
      have lt: "recv_seq r < ?n"
        using True i(2) by (simp add: dtls_datagram_fields [OF C] u64le.dec_enc)
      then have "k \<le> i" using Cons.prems(3) i(1) by blast
      have "Suc i \<le> j" if "j < length bs" "?n < start + of_nat j" for j
        using that(2) seq_no_wrap [OF wrap i(1)] seq_no_wrap [OF wrap that(1)] by (simp add: word_less_nat_alt)
      then have "subseq (snd (dtls_recv_all C es ?r)) (drop (Suc i) bs)"
        using Cons.prems(2) by (intro IH) auto
      then have "subseq (bs ! i # snd (dtls_recv_all C es ?r)) (drop i bs)"
        using Cons_nth_drop_Suc [OF i(1)] subseq_Cons2_iff by metis
      moreover have "subseq (drop i bs) (drop k bs)"
        using \<open>k \<le> i\<close> by (metis drop_drop le_add_diff_inverse2 subseq_order.order_refl suffix_drop suffix_imp_subseq)
      ultimately have "subseq (bs ! i # snd (dtls_recv_all C es ?r)) (drop k bs)"
        by (rule subseq_order.trans)
      moreover have "snd (dtls_recv_all C (e # es) r) = bs ! i # snd (dtls_recv_all C es ?r)"
        using True lt Cons.prems(2) UdpData
        by (simp add: i(2) verify_and_strip_datagram [OF C] split_beta)
      ultimately show ?thesis by simp
    next
      case False
      then have "dtls_recv_all C (e # es) r = dtls_recv_all C es r"
        using Cons.prems(2) UdpData by (auto simp: verify_and_strip_eq)
      then show ?thesis using IH [OF Cons.prems(2,3)] by simp
    qed
  qed (use IH [OF Cons.prems(2,3)] in simp_all)
qed simp


definition demo_dtls :: DtlsSession where
  "demo_dtls = dtls_session_new (SockV4 1 1) (replicate 32 9)"

definition demo_datagram :: "u64 \<Rightarrow> bytes" where
  "demo_datagram n = dtls_datagram demo_crypto (replicate 32 9) n [ucast n]"


section \<open>Handshake and exchange\<close>

lemma take_datagram:
  "crypto_ok C \<Longrightarrow> length b \<le> n \<Longrightarrow>
    take (DTLS_HEADER_LEN + n) (dtls_datagram C key i b) = dtls_datagram C key i b"
  by (simp add: dtls_datagram_fields)

text \<open>A network that keeps order and loses nothing delivers everything.\<close>

lemma recv_all_in_order:
  assumes C: "crypto_ok C"
  shows "\<forall>b\<in>set bs. length b \<le> MAX_DATAGRAM_PAYLOAD \<Longrightarrow> unat (send_seq s) + length bs < 2 ^ 64
    \<Longrightarrow> hmac_key r = hmac_key s \<Longrightarrow> recv_seq r < send_seq s
    \<Longrightarrow> snd (dtls_recv_all C (map (\<lambda>d. UdpData d (dtls_remote r)) (snd (dtls_send_all C bs s))) r) = bs"
proof (induction bs arbitrary: s r)
  case (Cons b bs)
  let ?s = "s\<lparr>send_seq := send_seq s + 1\<rparr>" and ?r = "r\<lparr>recv_seq := send_seq s\<rparr>"
  have n: "unat (send_seq s + 1) = unat (send_seq s) + 1"
    using seq_no_wrap [of "send_seq s" "length bs + 2" 1] seq_no_wrap [of "send_seq s" "Suc (length bs)" 1] Cons.prems(2)
    by (cases bs) (auto simp: unat_word_ariths)
  have "snd (dtls_recv_all C (map (\<lambda>d. UdpData d (dtls_remote ?r)) (snd (dtls_send_all C bs ?s))) ?r) = bs"
    using Cons.prems n by (intro Cons.IH) (auto simp: word_less_nat_alt)
  then show ?case using Cons.prems
    by (simp add: dtls_send_ok take_datagram [OF C] verify_and_strip_datagram [OF C] split_beta)
qed simp

lemma client_session:
  assumes "crypto_ok C"
  shows "connect_as_client C remote key True [UdpData (dtls_datagram C key 1 HANDSHAKE_ACK) remote]
    = ([dtls_datagram C key 1 HANDSHAKE_MAGIC],
       Some (Ok \<lparr>dtls_remote = remote, send_seq = 2, recv_seq = 1, hmac_key = key\<rparr>))"
  using assms by (simp add: connect_as_client_def send_authenticated_def dtls_session_new_def take_datagram
      verify_and_strip_datagram)

lemma server_session:
  assumes "crypto_ok C"
  shows "accept_as_server C remote key True [UdpData (dtls_datagram C key 1 HANDSHAKE_MAGIC) remote]
    = ([dtls_datagram C key 1 HANDSHAKE_ACK],
       Some (Ok \<lparr>dtls_remote = remote, send_seq = 2, recv_seq = 1, hmac_key = key\<rparr>))"
  using assms by (simp add: accept_as_server_def send_authenticated_def dtls_session_new_def take_datagram
      verify_and_strip_datagram)



text \<open>The HMAC does not cover the direction: after a completed handshake, a datagram the session sent itself, returned
  to it under the peer's address, is accepted and handed to the application as a message of the peer.
\<close>

theorem dtls_accepts_reflected:
  assumes "crypto_ok C" "length b \<le> MAX_DATAGRAM_PAYLOAD"
    and "connect_as_client C remote key True [UdpData (dtls_datagram C key 1 HANDSHAKE_ACK) remote] = (out, Some (Ok c))"
    and "dtls_send C True b c = (c', [d], r)"
  shows "snd (snd (dtls_recv C [UdpData d remote] c')) = Some (Ok (Some b))"
proof -
  have "c = \<lparr>dtls_remote = remote, send_seq = 2, recv_seq = 1, hmac_key = key\<rparr>"
    using assms(3) client_session [OF assms(1)] by simp
  then show ?thesis
    using assms(2,4) dtls_send_ok [OF assms(2), of C c]
    by (auto simp: take_datagram [OF assms(1)] verify_and_strip_datagram [OF assms(1)])
qed

theorem dtls_accepts_reflected_witness:
  "\<exists>out c c' d r. connect_as_client demo_crypto (SockV4 2 2) [7] True
      [UdpData (dtls_datagram demo_crypto [7] 1 HANDSHAKE_ACK) (SockV4 2 2)] = (out, Some (Ok c))
    \<and> dtls_send demo_crypto True [5] c = (c', [d], r)
    \<and> snd (snd (dtls_recv demo_crypto [UdpData d (SockV4 2 2)] c')) = Some (Ok (Some [5]))"
proof -
  obtain out c where c: "connect_as_client demo_crypto (SockV4 2 2) [7] True
      [UdpData (dtls_datagram demo_crypto [7] 1 HANDSHAKE_ACK) (SockV4 2 2)] = (out, Some (Ok c))"
    using client_session [OF demo_crypto_ok] by blast
  have b: "length [5 :: u8] \<le> MAX_DATAGRAM_PAYLOAD" by (simp add: MAX_DATAGRAM_PAYLOAD_def)
  from dtls_accepts_reflected [OF demo_crypto_ok b c dtls_send_ok [OF b]] c dtls_send_ok [OF b]
  show ?thesis by blast
qed

end
