(* ===== verification/Relay_Pairing.thy ===== *)
theory Relay_Pairing
  imports Frame_Codec "HOL-Library.AList"
begin

text \<open>
  The pairing and forwarding part of the relay service (\<^verbatim>\<open>services/relay/src/main.rs\<close>): the first frame of a
  connection names a session key, the second connection with the same key is joined to the first, and two
  tasks then forward frames in both directions.  Connections are numbered in the order of their first frames; the
  steps of all tasks interleave freely.  The throttle of the forwarding loop only delays and has no other effect;
  connections that ask for onion mode belong to \<^verbatim>\<open>Onion_Relay\<close>.
\<close>

section \<open>Session keys\<close>

text \<open>The key of a connection: \<^verbatim>\<open>String::from_utf8(..).unwrap_or_default().trim()\<close>.\<close>

definition relay_key :: "frame \<Rightarrow> rstring" where
  "relay_key first = str_trim (if utf8_valid (payload first) then payload first else [])"

section \<open>State\<close>

record RelaySession =
  peer_a :: nat
  peer_b :: nat
  created_at :: u64
  bytes_relayed :: u64

text \<open>
  \<^verbatim>\<open>sessions\<close> maps keys to shared session objects, which live in \<^verbatim>\<open>objects\<close> for as long as a task holds them.
  \<^verbatim>\<open>deciding\<close> are the connections that found no partner and have not yet registered; \<^verbatim>\<open>tasks\<close> are the running
  forwarding loops: reader, then writer, key and session object.  \<^verbatim>\<open>outbox\<close> is what the channel of a connection has
  accepted.
\<close>

record RelayService =
  sessions :: "(rstring \<times> nat) list"
  pending :: "(rstring \<times> nat) list"
  deciding :: "(nat \<times> rstring) list"
  tasks :: "(nat \<times> nat \<times> rstring \<times> nat) list"
  objects :: "nat \<Rightarrow> RelaySession option"
  outbox :: "nat \<Rightarrow> frame list"
  next_conn :: nat

definition relay_service_new :: RelayService where
  "relay_service_new = \<lparr>sessions = [], pending = [], deciding = [], tasks = [], objects = (\<lambda>_. None),
     outbox = (\<lambda>_. []), next_conn = 0\<rparr>"

section \<open>Operations\<close>

text \<open>\<^verbatim>\<open>handle_connection\<close> up to the point where the connection is paired or decides to wait.\<close>

definition relay_first_frame :: "u64 \<Rightarrow> frame \<Rightarrow> RelayService \<Rightarrow> RelayService" where
  "relay_first_frame now first st =
    (let c = next_conn st; st = st\<lparr>next_conn := c + 1\<rparr>; key = relay_key first in
     if key = [] then st
     else if key = ascii ''ONION'' then st
     else case map_of (pending st) key of
       Some p \<Rightarrow> st\<lparr>
         pending := AList.delete key (pending st),
         objects := (objects st)(c \<mapsto> \<lparr>peer_a = p, peer_b = c, created_at = now, bytes_relayed = 0\<rparr>),
         sessions := AList.update key c (sessions st),
         tasks := (p, c, key, c) # (c, p, key, c) # tasks st\<rparr>
     | None \<Rightarrow> st\<lparr>deciding := (c, key) # deciding st\<rparr>)"

text \<open>The insertion that follows a failed lookup; an entry another connection has made meanwhile is replaced.\<close>

definition relay_register :: "nat \<Rightarrow> RelayService \<Rightarrow> RelayService" where
  "relay_register c st =
    (case map_of (deciding st) c of
       None \<Rightarrow> st
     | Some key \<Rightarrow> st\<lparr>deciding := AList.delete c (deciding st), pending := AList.update key c (pending st)\<rparr>)"

text \<open>The end of a forwarding task: its session entry is removed by key.\<close>

definition end_task :: "nat \<Rightarrow> RelayService \<Rightarrow> RelayService" where
  "end_task c st =
    (case map_of (tasks st) c of
       None \<Rightarrow> st
     | Some (w, key, sid) \<Rightarrow> st\<lparr>tasks := AList.delete c (tasks st), sessions := AList.delete key (sessions st)\<rparr>)"

text \<open>
  One iteration of \<^verbatim>\<open>forward_loop\<close>: the frame passed on, and whether the loop goes on.  \<^verbatim>\<open>accepts\<close> says whether the
  channel of the other peer takes a frame.
\<close>

definition pong_for :: "frame \<Rightarrow> frame" where
  "pong_for f = \<lparr>seq_no = 0, ack = seq_no f, flags = PONG, payload = []\<rparr>"

definition forward_frame :: "bool \<Rightarrow> frame \<Rightarrow> frame option \<times> bool" where
  "forward_frame accepts f =
    (if contains (flags f) PING then (if accepts then (Some (pong_for f), True) else (None, False))
     else if contains (flags f) PONG then (None, True)
     else if contains (flags f) SESSION_CLOSE then (None, False)
     else if accepts then (Some f, True) else (None, False))"

definition counted :: "frame \<Rightarrow> u64" where
  "counted f =
    (if contains (flags f) PING \<or> contains (flags f) PONG \<or> contains (flags f) SESSION_CLOSE then 0
     else word_of_nat (length (payload f)))"

text \<open>What \<^verbatim>\<open>reader.next()\<close> yields: a frame, a decoding error, or the end of the stream.\<close>

datatype read_result = ReadFrame frame | ReadErr string | ReadEnd

definition relay_read :: "nat \<Rightarrow> read_result \<Rightarrow> bool \<Rightarrow> RelayService \<Rightarrow> RelayService" where
  "relay_read c res accepts st =
    (case map_of (tasks st) c of
       None \<Rightarrow> st
     | Some (w, key, sid) \<Rightarrow>
         (case res of
            ReadErr e \<Rightarrow> end_task c st
          | ReadEnd \<Rightarrow> end_task c st
          | ReadFrame f \<Rightarrow>
              (let (out, continue) = forward_frame accepts f;
                   st = st\<lparr>objects := (objects st)(sid :=
                      map_option (bytes_relayed_update (\<lambda>n. n + counted f)) (objects st sid))\<rparr>;
                   st = (case out of None \<Rightarrow> st | Some g \<Rightarrow> st\<lparr>outbox := (outbox st)(w := outbox st w @ [g])\<rparr>)
               in if continue then st else end_task c st)))"

definition MAX_SESSION_LIFETIME_SECS :: u64 where "MAX_SESSION_LIFETIME_SECS = 60 * 60"

text \<open>One round of \<^verbatim>\<open>cleanup_task\<close>: entries of sessions older than an hour are dropped from the table.\<close>

definition relay_cleanup :: "u64 \<Rightarrow> RelayService \<Rightarrow> RelayService" where
  "relay_cleanup now st = st\<lparr>sessions := filter (\<lambda>(k, sid).
      case objects st sid of None \<Rightarrow> True
      | Some r \<Rightarrow> (if created_at r \<le> now then now - created_at r else 0) \<le> MAX_SESSION_LIFETIME_SECS) (sessions st)\<rparr>"

datatype relay_event =
    RelayFirst u64 frame
  | RelayRegister nat
  | RelayRead nat read_result bool
  | RelayCleanup u64

primrec relay_step :: "relay_event \<Rightarrow> RelayService \<Rightarrow> RelayService" where
  "relay_step (RelayFirst now f) st = relay_first_frame now f st"
| "relay_step (RelayRegister c) st = relay_register c st"
| "relay_step (RelayRead c res accepts) st = relay_read c res accepts st"
| "relay_step (RelayCleanup now) st = relay_cleanup now st"

abbreviation relay_run :: "relay_event list \<Rightarrow> RelayService \<Rightarrow> RelayService" where
  "relay_run es st \<equiv> fold relay_step es st"

text \<open>The whole loop of one direction on its own: the frames it passes on for what its reader yields.\<close>

fun forward_loop :: "(read_result \<times> bool) list \<Rightarrow> frame list" where
  "forward_loop [] = []"
| "forward_loop ((ReadErr e, accepts) # rs) = []"
| "forward_loop ((ReadEnd, accepts) # rs) = []"
| "forward_loop ((ReadFrame f, accepts) # rs) =
    (let (out, continue) = forward_frame accepts f
     in (case out of None \<Rightarrow> [] | Some g \<Rightarrow> [g]) @ (if continue then forward_loop rs else []))"

section \<open>Each connection has one role\<close>

abbreviation waiting_conns :: "RelayService \<Rightarrow> nat set" where
  "waiting_conns st \<equiv> snd ` set (pending st)"

abbreviation deciding_conns :: "RelayService \<Rightarrow> nat set" where
  "deciding_conns st \<equiv> fst ` set (deciding st)"

definition busy_conns :: "RelayService \<Rightarrow> nat set" where
  "busy_conns st = fst ` set (tasks st) \<union> (fst \<circ> snd) ` set (tasks st)"

text \<open>Waiting, undecided and forwarding connections are disjoint and below the next number.\<close>

definition roles :: "nat set \<Rightarrow> nat set \<Rightarrow> nat set \<Rightarrow> nat \<Rightarrow> bool" where
  "roles W D B n \<longleftrightarrow> W \<inter> D = {} \<and> (W \<union> D) \<inter> B = {} \<and> (\<forall>c\<in>W \<union> D \<union> B. c < n)"

lemma roles_subset: "roles W D B n \<Longrightarrow> W' \<subseteq> W \<Longrightarrow> B' \<subseteq> B \<Longrightarrow> n \<le> n' \<Longrightarrow> roles W' D B' n'"
proof -
  assume r: "roles W D B n" and s: "W' \<subseteq> W" "B' \<subseteq> B" and "n \<le> n'"
  have "c < n'" if "c \<in> W' \<union> D \<union> B'" for c
    using that r s \<open>n \<le> n'\<close> unfolding roles_def by (meson UnCI UnE less_le_trans subsetD)
  moreover have "W' \<inter> D = {}" "(W' \<union> D) \<inter> B' = {}" using r s unfolding roles_def by blast+
  ultimately show ?thesis unfolding roles_def by blast
qed

lemma roles_pair: "roles W D B n \<Longrightarrow> p \<in> W \<Longrightarrow> roles (W - {p}) D (insert p (insert n B)) (Suc n)"
  unfolding roles_def by (auto intro: less_SucI)

lemma roles_wait: "roles W D B n \<Longrightarrow> roles W (insert n D) B (Suc n)"
  unfolding roles_def by (auto intro: less_SucI)

lemma roles_register: "roles W D B n \<Longrightarrow> c \<in> D \<Longrightarrow> W' \<subseteq> insert c W \<Longrightarrow> roles W' (D - {c}) B n"
  unfolding roles_def by blast

definition relay_inv :: "RelayService \<Rightarrow> bool" where
  "relay_inv st \<longleftrightarrow> inj_on snd (set (pending st))
    \<and> roles (waiting_conns st) (deciding_conns st) (busy_conns st) (next_conn st)"

lemma set_delete_eq: "set (AList.delete k al) = {p \<in> set al. fst p \<noteq> k}"
  by (auto simp: AList.delete_eq)

lemma set_update_subset: "set (AList.update k v al) \<subseteq> insert (k, v) (set al)"
  by (induction al) auto

lemma relay_inv_new [simp]: "relay_inv relay_service_new"
  by (simp add: relay_inv_def relay_service_new_def busy_conns_def roles_def)

lemma end_task_frame [simp]:
  "pending (end_task c st) = pending st" "deciding (end_task c st) = deciding st"
  "next_conn (end_task c st) = next_conn st" "outbox (end_task c st) = outbox st"
  by (simp_all add: end_task_def split: option.splits)

lemma relay_inv_shrink:
  "relay_inv st \<Longrightarrow> pending st' = pending st \<Longrightarrow> deciding st' = deciding st \<Longrightarrow> next_conn st \<le> next_conn st'
    \<Longrightarrow> busy_conns st' \<subseteq> busy_conns st \<Longrightarrow> relay_inv st'"
  unfolding relay_inv_def by (auto intro: roles_subset)

lemma relay_read_frame:
  shows "pending (relay_read c r a st) = pending st" and "deciding (relay_read c r a st) = deciding st"
    and "next_conn (relay_read c r a st) = next_conn st" and "set (tasks (relay_read c r a st)) \<subseteq> set (tasks st)"
  by (auto simp: relay_read_def end_task_def Let_def set_delete_eq split: option.splits read_result.splits prod.splits if_splits)

lemma busy_mono: "set (tasks st') \<subseteq> set (tasks st) \<Longrightarrow> busy_conns st' \<subseteq> busy_conns st"
  by (auto simp: busy_conns_def)

lemma relay_first_cases:
  obtains (idle) "relay_first_frame now f st = st\<lparr>next_conn := next_conn st + 1\<rparr>"
  | (paired) p where "map_of (pending st) (relay_key f) = Some p"
      "relay_first_frame now f st = st\<lparr>next_conn := next_conn st + 1,
         pending := AList.delete (relay_key f) (pending st),
         objects := (objects st)(next_conn st \<mapsto>
           \<lparr>peer_a = p, peer_b = next_conn st, created_at = now, bytes_relayed = 0\<rparr>),
         sessions := AList.update (relay_key f) (next_conn st) (sessions st),
         tasks := (p, next_conn st, relay_key f, next_conn st) # (next_conn st, p, relay_key f, next_conn st) # tasks st\<rparr>"
  | (waits) "map_of (pending st) (relay_key f) = None"
      "relay_first_frame now f st = st\<lparr>next_conn := next_conn st + 1,
         deciding := (next_conn st, relay_key f) # deciding st\<rparr>"
proof (cases "relay_key f = [] \<or> relay_key f = ascii ''ONION''")
  case True
  then show thesis using idle by (auto simp: relay_first_frame_def Let_def)
next
  case False
  then show thesis using paired waits
    by (cases "map_of (pending st) (relay_key f)") (auto simp: relay_first_frame_def Let_def)
qed

lemma relay_inv_first:
  assumes I: "relay_inv st"
  shows "relay_inv (relay_first_frame now f st)"
proof (cases rule: relay_first_cases [of now f st])
  case idle
  then show ?thesis using relay_inv_shrink [OF I] by (simp add: busy_conns_def)
next
  case (paired p)
  let ?P = "set (AList.delete (relay_key f) (pending st))"
  from paired(1) have p: "(relay_key f, p) \<in> set (pending st)" by (rule map_of_SomeD)
  from I have i: "inj_on snd (set (pending st))" and r: "roles (waiting_conns st) (deciding_conns st) (busy_conns st) (next_conn st)"
    by (simp_all add: relay_inv_def)
  have inj: "inj_on snd ?P" using i by (rule inj_on_subset) (auto simp: set_delete_eq)
  have "snd x \<noteq> p" if "x \<in> ?P" for x
  proof
    assume "snd x = p"
    moreover have "x \<in> set (pending st)" "fst x \<noteq> relay_key f" using that by (simp_all add: set_delete_eq)
    ultimately show False using inj_onD [OF i _ _ p, of x] by simp
  qed
  then have "snd ` ?P \<subseteq> waiting_conns st - {p}" by (auto simp: set_delete_eq)
  moreover have "p \<in> waiting_conns st" using p by force
  ultimately have "roles (snd ` ?P) (deciding_conns st) (insert p (insert (next_conn st) (busy_conns st))) (Suc (next_conn st))"
    using roles_subset [OF roles_pair [OF r]] by blast
  then show ?thesis using inj unfolding paired(2) relay_inv_def
    by (simp add: busy_conns_def Un_insert_right insert_commute)
next
  case waits
  then show ?thesis using I roles_wait [of "waiting_conns st"] by (simp add: relay_inv_def busy_conns_def)
qed

lemma relay_inv_register:
  assumes I: "relay_inv st"
  shows "relay_inv (relay_register c st)"
proof (cases "map_of (deciding st) c")
  case (Some key)
  then have c: "(c, key) \<in> set (deciding st)" by (rule map_of_SomeD)
  let ?p = "AList.update key c (pending st)"
  have u: "set ?p \<subseteq> insert (key, c) (set (pending st))" by (rule set_update_subset)
  have d: "c \<in> deciding_conns st" using c by force
  then have "c \<notin> waiting_conns st" using I by (auto simp: relay_inv_def roles_def)
  then have "inj_on snd (insert (key, c) (set (pending st)))"
    using I by (auto simp: relay_inv_def inj_on_def)
  then have inj: "inj_on snd (set ?p)" using u by (rule inj_on_subset)
  have "snd ` set ?p \<subseteq> insert c (waiting_conns st)" using u by auto
  moreover have "fst ` set (AList.delete c (deciding st)) = deciding_conns st - {c}"
    by (auto simp: set_delete_eq)
  ultimately have "roles (snd ` set ?p) (fst ` set (AList.delete c (deciding st))) (busy_conns st) (next_conn st)"
    using I roles_register [OF _ d] unfolding relay_inv_def by auto
  then show ?thesis using inj Some by (simp add: relay_inv_def relay_register_def busy_conns_def)
qed (use I in \<open>simp add: relay_register_def\<close>)

lemma relay_inv_step: "relay_inv st \<Longrightarrow> relay_inv (relay_step e st)"
proof (cases e)
  case (RelayRead c r a)
  assume "relay_inv st"
  then show ?thesis
    unfolding RelayRead relay_step.simps using relay_read_frame [of c r a st]
    by (elim relay_inv_shrink) (simp_all add: busy_mono)
next
  case (RelayCleanup now)
  assume "relay_inv st"
  then show ?thesis unfolding RelayCleanup by (simp add: relay_cleanup_def relay_inv_def busy_conns_def)
qed (simp_all add: relay_inv_first relay_inv_register)

lemma relay_inv_run: "relay_inv st \<Longrightarrow> relay_inv (relay_run es st)"
  by (induction es arbitrary: st) (simp_all add: relay_inv_step)
section \<open>Paired connections see each other's frames and nothing else\<close>

fun reads_of :: "nat \<Rightarrow> relay_event list \<Rightarrow> (read_result \<times> bool) list" where
  "reads_of c [] = []"
| "reads_of c (RelayRead d res accepts # es) = (if d = c then [(res, accepts)] else []) @ reads_of c es"
| "reads_of c (e # es) = reads_of c es"

text \<open>\<^verbatim>\<open>b\<close> is written by the task of \<^verbatim>\<open>a\<close> only, and neither will get another role.\<close>

definition linked :: "nat \<Rightarrow> nat \<Rightarrow> RelayService \<Rightarrow> bool" where
  "linked a b st \<longleftrightarrow> a < next_conn st \<and> b < next_conn st
    \<and> a \<notin> waiting_conns st \<and> b \<notin> waiting_conns st \<and> a \<notin> deciding_conns st \<and> b \<notin> deciding_conns st
    \<and> (\<forall>(c, w, r)\<in>set (tasks st). w = b \<longleftrightarrow> c = a)"

definition running :: "nat \<Rightarrow> RelayService \<Rightarrow> bool" where
  "running a st \<longleftrightarrow> a \<in> fst ` set (tasks st)"

lemma running_end_task: "running a (end_task c st) \<longleftrightarrow> a \<noteq> c \<and> running a st"
proof (cases "map_of (tasks st) c")
  case None
  then have "end_task c st = st" "\<not> running c st"
    by (simp_all add: running_def end_task_def flip: map_of_eq_None_iff)
  then show ?thesis by metis
qed (auto simp: running_def end_task_def set_delete_eq)

lemma running_updates [simp]:
  "running a (st\<lparr>objects := ob\<rparr>) = running a st" "running a (st\<lparr>outbox := xs\<rparr>) = running a st"
  by (simp_all add: running_def)

lemma running_task:
  assumes "running a st"
  obtains w key sid where "map_of (tasks st) a = Some (w, key, sid)"
  using assms by (cases "map_of (tasks st) a") (auto simp: running_def map_of_eq_None_iff)

lemma not_running_read: "\<not> running c st \<Longrightarrow> relay_read c r acc st = st"
  by (simp add: relay_read_def running_def flip: map_of_eq_None_iff)

lemma linked_subset:
  "linked a b st \<Longrightarrow> pending st' = pending st \<Longrightarrow> deciding st' = deciding st \<Longrightarrow> next_conn st \<le> next_conn st'
    \<Longrightarrow> set (tasks st') \<subseteq> set (tasks st) \<Longrightarrow> linked a b st'"
  unfolding linked_def by auto

lemma linked_first:
  assumes L: "linked a b st"
  shows "linked a b (relay_first_frame now f st)" "running a (relay_first_frame now f st) = running a st"
    "outbox (relay_first_frame now f st) = outbox st"
proof -
  have "linked a b (relay_first_frame now f st) \<and> running a (relay_first_frame now f st) = running a st
      \<and> outbox (relay_first_frame now f st) = outbox st"
  proof (cases rule: relay_first_cases [of now f st])
    case (paired p)
    from paired(1) have "(relay_key f, p) \<in> set (pending st)" by (rule map_of_SomeD)
    then have "p \<in> waiting_conns st" by force
    then have "p \<noteq> a" "p \<noteq> b" "next_conn st \<noteq> a" "next_conn st \<noteq> b" using L by (auto simp: linked_def)
    moreover have "snd ` set (AList.delete (relay_key f) (pending st)) \<subseteq> waiting_conns st"
      by (auto simp: set_delete_eq)
    ultimately show ?thesis using L unfolding paired(2) by (auto simp: linked_def running_def)
  qed (use L in \<open>auto simp: linked_def running_def\<close>)
  then show "linked a b (relay_first_frame now f st)" "running a (relay_first_frame now f st) = running a st"
    "outbox (relay_first_frame now f st) = outbox st" by simp_all
qed

lemma linked_register:
  assumes L: "linked a b st"
  shows "linked a b (relay_register c st)" "running a (relay_register c st) = running a st"
    "outbox (relay_register c st) = outbox st"
proof -
  have "linked a b (relay_register c st)"
  proof (cases "map_of (deciding st) c")
    case (Some key)
    then have "c \<in> deciding_conns st" by (force dest: map_of_SomeD)
    then have "c \<noteq> a" "c \<noteq> b" using L by (auto simp: linked_def)
    moreover have "snd ` set (AList.update key c (pending st)) \<subseteq> insert c (waiting_conns st)"
      using set_update_subset [of key c "pending st"] by auto
    moreover have "fst ` set (AList.delete c (deciding st)) \<subseteq> deciding_conns st"
      by (auto simp: set_delete_eq)
    ultimately show ?thesis using L Some unfolding linked_def relay_register_def by auto
  qed (use L in \<open>simp add: relay_register_def\<close>)
  then show "linked a b (relay_register c st)" "running a (relay_register c st) = running a st"
    "outbox (relay_register c st) = outbox st"
    by (simp_all add: relay_register_def running_def split: option.splits)
qed

lemma running_relay_read: "c \<noteq> a \<Longrightarrow> running a (relay_read c r acc st) = running a st"
  by (cases "map_of (tasks st) c")
     (auto simp: relay_read_def running_end_task Let_def split: option.splits read_result.splits prod.splits)

lemma outbox_relay_read:
  assumes "map_of (tasks st) c = Some (w, key, sid)"
  shows "outbox (relay_read c r acc st) = (outbox st)(w := outbox st w @ take 1 (forward_loop [(r, acc)]))"
  using assms
  by (cases r) (auto simp: relay_read_def Let_def split_beta split: option.splits)

lemma running_relay_read_self:
  assumes "running a st"
  shows "running a (relay_read a r acc st) \<longleftrightarrow> (case r of ReadFrame f \<Rightarrow> snd (forward_frame acc f) | _ \<Rightarrow> False)"
proof -
  obtain w key sid where "map_of (tasks st) a = Some (w, key, sid)"
    using assms by (rule running_task)
  then show ?thesis using assms
    by (cases r) (auto simp: relay_read_def running_end_task Let_def split_beta split: option.splits)
qed

lemma forward_loop_Cons:
  "forward_loop ((r, acc) # rs) = take 1 (forward_loop [(r, acc)])
    @ (if (case r of ReadFrame f \<Rightarrow> snd (forward_frame acc f) | _ \<Rightarrow> False) then forward_loop rs else [])"
  by (cases r) (auto split: prod.splits option.splits)

lemma linked_outbox:
  "linked a b st \<Longrightarrow> outbox (relay_run es st) b
    = outbox st b @ (if running a st then forward_loop (reads_of a es) else [])"
proof (induction es arbitrary: st)
  case (Cons e es)
  note L = Cons.prems
  show ?case
  proof (cases e)
    case (RelayRead c r acc)
    have L': "linked a b (relay_read c r acc st)"
      using relay_read_frame [of c r acc st] by (intro linked_subset [OF L]) simp_all
    show ?thesis
    proof (cases "running c st")
      case False
      then show ?thesis using Cons.IH [OF L] not_running_read [OF False] RelayRead by auto
    next
      case True
      then obtain w key sid where t: "map_of (tasks st) c = Some (w, key, sid)"
        by (rule running_task)
      then have "w = b \<longleftrightarrow> c = a" using L map_of_SomeD [OF t] by (auto simp: linked_def)
      moreover note o = outbox_relay_read [OF t, of r acc]
      ultimately show ?thesis
        using Cons.IH [OF L'] RelayRead True running_relay_read [of c a r acc st] running_relay_read_self [of a st r acc]
        by (cases "c = a") (auto simp: forward_loop_Cons [of r acc "reads_of a es"])
    qed
  next
    case (RelayFirst now f)
    then show ?thesis using Cons.IH [OF linked_first(1) [OF L]] linked_first(2,3) [OF L] by simp
  next
    case (RelayRegister c)
    then show ?thesis using Cons.IH [OF linked_register(1) [OF L]] linked_register(2,3) [OF L] by simp
  next
    case (RelayCleanup now)
    have "linked a b (relay_cleanup now st)" "running a (relay_cleanup now st) = running a st"
      "outbox (relay_cleanup now st) = outbox st"
      using L by (simp_all add: relay_cleanup_def linked_def running_def)
    then show ?thesis using Cons.IH [of "relay_cleanup now st"] RelayCleanup by simp
  qed
qed simp

lemma paired_linked:
  assumes I: "relay_inv st" and p: "map_of (pending st) (relay_key f) = Some a"
    and k: "relay_key f \<noteq> []" "relay_key f \<noteq> ascii ''ONION''"
  shows "linked a (next_conn st) (relay_first_frame now f st)"
    "linked (next_conn st) a (relay_first_frame now f st)"
    "running a (relay_first_frame now f st)" "running (next_conn st) (relay_first_frame now f st)"
    "outbox (relay_first_frame now f st) = outbox st"
proof -
  let ?b = "next_conn st"
  from map_of_SomeD [OF p] have m: "(relay_key f, a) \<in> set (pending st)" .
  from I have i: "inj_on snd (set (pending st))" and r: "roles (waiting_conns st) (deciding_conns st) (busy_conns st) ?b"
    by (simp_all add: relay_inv_def)
  have "a \<in> waiting_conns st" using m by force
  then have a: "a < ?b" "a \<notin> deciding_conns st" "a \<notin> busy_conns st" using r by (auto simp: roles_def)
  have b: "?b \<notin> waiting_conns st" "?b \<notin> deciding_conns st" "?b \<notin> busy_conns st" using r by (auto simp: roles_def)
  have w: "a \<notin> snd ` set (AList.delete (relay_key f) (pending st))"
    using inj_onD [OF i _ _ m] by (fastforce simp: set_delete_eq)
  have w': "?b \<notin> snd ` set (AList.delete (relay_key f) (pending st))"
    using b(1) by (auto simp: set_delete_eq)
  have t: "c \<noteq> a \<and> c \<noteq> ?b \<and> d \<noteq> a \<and> d \<noteq> ?b" if "(c, d, x) \<in> set (tasks st)" for c d x
    using that a(3) b(3) by (force simp: busy_conns_def)
  note e = relay_first_frame_def [of now f st, unfolded Let_def]
  show "linked a ?b (relay_first_frame now f st)" "linked ?b a (relay_first_frame now f st)"
    using a b w w' t k p by (auto simp: e linked_def dest: t)
  show "running a (relay_first_frame now f st)" "running ?b (relay_first_frame now f st)"
    "outbox (relay_first_frame now f st) = outbox st"
    using k p by (simp_all add: e running_def)
qed

text \<open>Nothing has been queued for a connection that is not paired yet.\<close>

definition quiet :: "RelayService \<Rightarrow> bool" where
  "quiet st \<longleftrightarrow> (\<forall>c. c \<in> waiting_conns st \<or> c \<in> deciding_conns st \<or> next_conn st \<le> c \<longrightarrow> outbox st c = [])"

lemma quiet_step:
  assumes I: "relay_inv st" and Q: "quiet st"
  shows "quiet (relay_step e st)"
proof (cases e)
  case (RelayFirst now f)
  show ?thesis unfolding RelayFirst relay_step.simps
  proof (cases rule: relay_first_cases [of now f st])
    case (paired p)
    then show "quiet (relay_first_frame now f st)" using Q by (auto simp: quiet_def set_delete_eq image_iff)
  qed (use Q in \<open>auto simp: quiet_def\<close>)
next
  case (RelayRegister c)
  show ?thesis
  proof (cases "map_of (deciding st) c")
    case (Some key)
    then have "c \<in> deciding_conns st" by (force dest: map_of_SomeD)
    moreover have "snd ` set (AList.update key c (pending st)) \<subseteq> insert c (waiting_conns st)"
      using set_update_subset [of key c "pending st"] by auto
    moreover have "fst ` set (AList.delete c (deciding st)) \<subseteq> deciding_conns st"
      by (auto simp: set_delete_eq)
    ultimately have "outbox st d = []"
      if "d \<in> snd ` set (AList.update key c (pending st)) \<or> d \<in> fst ` set (AList.delete c (deciding st))
        \<or> next_conn st \<le> d" for d
      using that Q unfolding quiet_def by blast
    then show ?thesis using Some RelayRegister by (simp add: quiet_def relay_register_def)
  qed (use Q RelayRegister in \<open>simp add: relay_register_def\<close>)
next
  case (RelayRead c r acc)
  show ?thesis
  proof (cases "running c st")
    case True
    then obtain w key sid where t: "map_of (tasks st) c = Some (w, key, sid)" by (rule running_task)
    then have "w \<in> busy_conns st" by (force simp: busy_conns_def dest: map_of_SomeD)
    then have "w \<notin> waiting_conns st \<union> deciding_conns st" "w < next_conn st"
      using I by (auto simp: relay_inv_def roles_def)
    then show ?thesis using Q relay_read_frame [of c r acc st] RelayRead outbox_relay_read [OF t, of r acc]
      unfolding quiet_def by auto
  qed (use Q RelayRead in \<open>simp add: not_running_read\<close>)
qed (use Q in \<open>simp add: quiet_def relay_cleanup_def\<close>)

lemma quiet_run: "relay_inv st \<Longrightarrow> quiet st \<Longrightarrow> quiet (relay_run es st)"
  by (induction es arbitrary: st) (simp_all add: quiet_step relay_inv_step)


definition key_frame :: "bytes \<Rightarrow> frame" where
  "key_frame k = \<lparr>seq_no = 0, ack = 0, flags = NONE, payload = k\<rparr>"

lemma relay_key_A [simp]: "relay_key (key_frame [65]) = [65]"
  by (simp add: relay_key_def key_frame_def str_trim_def white_space_def strip_one_def)

section \<open>Two peers that arrive together\<close>

text \<open>A connection without a role never gets one again.\<close>

definition forgotten :: "nat \<Rightarrow> RelayService \<Rightarrow> bool" where
  "forgotten c st \<longleftrightarrow> c < next_conn st \<and> c \<notin> waiting_conns st \<and> c \<notin> deciding_conns st \<and> c \<notin> busy_conns st"

lemma forgotten_linked: "forgotten c st \<Longrightarrow> linked c c st \<and> \<not> running c st"
  by (force simp: forgotten_def linked_def running_def busy_conns_def)

lemma forgotten_first:
  assumes F: "forgotten c st"
  shows "forgotten c (relay_first_frame now f st)"
proof (cases rule: relay_first_cases [of now f st])
  case (paired p)
  from map_of_SomeD [OF paired(1)] have "p \<in> waiting_conns st" by force
  then have "p \<noteq> c" using F by (auto simp: forgotten_def)
  moreover have "c \<notin> snd ` set (AList.delete (relay_key f) (pending st))"
    using F by (auto simp: forgotten_def set_delete_eq)
  ultimately show ?thesis using F unfolding paired(2) by (auto simp: forgotten_def busy_conns_def)
qed (use F in \<open>auto simp: forgotten_def busy_conns_def\<close>)

lemma forgotten_step:
  assumes F: "forgotten c st"
  shows "forgotten c (relay_step e st)"
proof (cases e)
  case (RelayRegister d)
  have "linked c c (relay_step e st)" using linked_register(1) forgotten_linked [OF F] RelayRegister by simp
  moreover have "busy_conns (relay_step e st) = busy_conns st"
    by (simp add: RelayRegister relay_register_def busy_conns_def split: option.split)
  ultimately show ?thesis using F by (simp add: forgotten_def linked_def)
next
  case (RelayRead d r acc)
  then show ?thesis using F relay_read_frame [of d r acc st] busy_mono [of "relay_read d r acc st" st]
    by (auto simp: forgotten_def)
qed (use F forgotten_first in \<open>simp_all add: relay_cleanup_def forgotten_def busy_conns_def\<close>)

lemma forgotten_run: "forgotten c st \<Longrightarrow> forgotten c (relay_run es st)"
  by (induction es arbitrary: st) (simp_all add: forgotten_step)

text \<open>The lookup and the registration of a waiting connection are two separate accesses to the table.  When two
  connections with one key look up before either registers, the second registration replaces the first: the first
  connection is dropped from every table and, whatever happens later, is never paired and never receives a frame.
\<close>

theorem relay_pairing_race:
  assumes st: "st = relay_run pre relay_service_new"
    and key: "relay_key f = k" "relay_key g = k" "k \<noteq> []" "k \<noteq> ascii ''ONION''"
    and none: "map_of (pending st) k = None"
    and fin: "fin = relay_run ([RelayFirst t f, RelayFirst t' g, RelayRegister (next_conn st),
        RelayRegister (Suc (next_conn st))] @ post) st"
  shows "next_conn st \<notin> waiting_conns fin \<and> \<not> running (next_conn st) fin \<and> outbox fin (next_conn st) = []"
proof -
  let ?c = "next_conn st"
  let ?mid = "relay_run [RelayFirst t f, RelayFirst t' g, RelayRegister ?c, RelayRegister (Suc ?c)] st"
  have I: "relay_inv st" unfolding st by (simp add: relay_inv_run)
  have "quiet st" unfolding st by (rule quiet_run [OF relay_inv_new]) (simp add: quiet_def relay_service_new_def)
  then have out: "outbox st ?c = []" by (simp add: quiet_def)
  from I have r: "roles (waiting_conns st) (deciding_conns st) (busy_conns st) ?c" by (simp add: relay_inv_def)
  have p: "k \<notin> fst ` set (pending st)" using none by (simp add: map_of_eq_None_iff)
  have "k \<notin> fst ` set al \<Longrightarrow> AList.update k y al = al @ [(k, y)] \<and> AList.update k y (al @ [(k, x)]) = al @ [(k, y)]" for al x y
    by (induction al) auto
  note u = this [OF p]
  have mid: "pending ?mid = pending st @ [(k, Suc ?c)]"
      "deciding ?mid = AList.delete (Suc ?c) (AList.delete ?c (deciding st))"
      "tasks ?mid = tasks st" "outbox ?mid = outbox st" "next_conn ?mid = Suc (Suc ?c)"
    using key none u by (simp_all add: relay_first_frame_def relay_register_def Let_def)
  have "forgotten ?c ?mid"
    using r unfolding forgotten_def busy_conns_def mid by (auto simp: roles_def set_delete_eq busy_conns_def)
  then have F: "forgotten ?c fin" and "linked ?c ?c ?mid" "\<not> running ?c ?mid"
    using forgotten_run [of ?c ?mid post] forgotten_linked [of ?c ?mid] fin by simp_all
  then have "outbox fin ?c = []" using linked_outbox [of ?c ?c ?mid post] fin mid(4) out by simp
  then show ?thesis using F forgotten_linked [OF F] by (simp add: forgotten_def)
qed

theorem relay_pairing_race_witness:
  "let fin = relay_run [RelayFirst 0 (key_frame [65]), RelayFirst 0 (key_frame [65]), RelayRegister 0, RelayRegister 1]
     relay_service_new
   in map_of (pending fin) [65] = Some 1 \<and> 0 \<notin> waiting_conns fin \<and> \<not> running 0 fin \<and> outbox fin 0 = []"
proof -
  let ?es = "[RelayFirst 0 (key_frame [65]), RelayFirst 0 (key_frame [65]), RelayRegister 0, RelayRegister 1]"
  have n: "next_conn relay_service_new = 0" "pending relay_service_new = []"
    by (simp_all add: relay_service_new_def)
  have "map_of (pending (relay_run ?es relay_service_new)) [65] = Some 1"
    by (simp add: relay_first_frame_def relay_register_def relay_service_new_def ascii_def)
  moreover have "0 \<notin> waiting_conns (relay_run ?es relay_service_new) \<and> \<not> running 0 (relay_run ?es relay_service_new)
      \<and> outbox (relay_run ?es relay_service_new) 0 = []"
    using relay_pairing_race [of relay_service_new "[]" "key_frame [65]" "[65]" "key_frame [65]"
        "relay_run ?es relay_service_new" 0 0 "[]"]
    by (simp add: n ascii_def)
  ultimately show ?thesis by (simp add: Let_def)
qed

end
