(* ===== verification/Schema_Parser.thy ===== *)
theory Schema_Parser
  imports Proto_Wire "HOL-Library.Char_ord"
begin

text \<open>
  The schema parser of the build script (\<^verbatim>\<open>crates/cypher-proto/build.rs\<close>), which reads \<^verbatim>\<open>proto/schema/core.p2p\<close> before the
  serializer is generated.  The combinators of the \<^verbatim>\<open>nom\<close> library that it uses are modelled on ASCII text: a parser returns
  the rest of the input and its value, or \<^verbatim>\<open>None\<close> for an error.  Every schema that is written out is read back, with
  comments and blank lines skipped, and the schema file yields exactly the schema of \<^verbatim>\<open>Proto_Wire\<close>.
\<close>

section \<open>Characters and combinators\<close>

definition between :: "char \<Rightarrow> char \<Rightarrow> char \<Rightarrow> bool" where
  "between a b c \<longleftrightarrow> a \<le> c \<and> c \<le> b"

definition ascii_alnum :: "char \<Rightarrow> bool" where
  "ascii_alnum c \<longleftrightarrow> between CHR ''a'' CHR ''z'' c \<or> between CHR ''A'' CHR ''Z'' c \<or> between CHR ''0'' CHR ''9'' c"

definition is_hex_digit :: "char \<Rightarrow> bool" where
  "is_hex_digit c \<longleftrightarrow> between CHR ''0'' CHR ''9'' c \<or> between CHR ''a'' CHR ''f'' c \<or> between CHR ''A'' CHR ''F'' c"

definition is_ident_char :: "char \<Rightarrow> bool" where
  "is_ident_char c \<longleftrightarrow> ascii_alnum c \<or> c = CHR ''_''"

definition is_method_char :: "char \<Rightarrow> bool" where
  "is_method_char c \<longleftrightarrow> ascii_alnum c \<or> c = CHR ''_'' \<or> c = CHR ''.''"

definition is_space :: "char \<Rightarrow> bool" where
  "is_space c \<longleftrightarrow> c = CHR '' '' \<or> c = CHR 0x09"

definition is_multispace :: "char \<Rightarrow> bool" where
  "is_multispace c \<longleftrightarrow> is_space c \<or> c = CHR 0x0A \<or> c = CHR 0x0D"

text \<open>What \<^verbatim>\<open>trim\<close> removes.\<close>

definition is_whitespace :: "char \<Rightarrow> bool" where
  "is_whitespace c \<longleftrightarrow> is_multispace c \<or> c = CHR 0x0B \<or> c = CHR 0x0C"

type_synonym 'a parser = "string \<Rightarrow> (string \<times> 'a) option"

definition tag :: "string \<Rightarrow> unit parser" where
  "tag t inp = (if take (length t) inp = t then Some (drop (length t) inp, ()) else None)"

definition take_while1 :: "(char \<Rightarrow> bool) \<Rightarrow> string parser" where
  "take_while1 P inp = (if takeWhile P inp = [] then None else Some (dropWhile P inp, takeWhile P inp))"

definition multispace0 :: "string \<Rightarrow> string" where
  "multispace0 inp = dropWhile is_multispace inp"

definition space0 :: "string \<Rightarrow> string" where
  "space0 inp = dropWhile is_space inp"

definition space1 :: "unit parser" where
  "space1 inp = (if takeWhile is_space inp = [] then None else Some (space0 inp, ()))"

section \<open>The grammar\<close>

definition hex_digit_value :: "char \<Rightarrow> nat" where
  "hex_digit_value c =
    (if between CHR ''0'' CHR ''9'' c then of_char c - 48
     else if between CHR ''a'' CHR ''f'' c then of_char c - 87 else of_char c - 55)"

text \<open>\<^verbatim>\<open>u32::from_str_radix\<close>; a number that does not fit makes the build script panic.\<close>

definition from_hex :: "string \<Rightarrow> u32 option" where
  "from_hex s = (let n = fold (\<lambda>c a. a * 16 + hex_digit_value c) s 0 in if n < 2 ^ 32 then Some (word_of_nat n) else None)"

definition parse_constructor_id :: "u32 parser" where
  "parse_constructor_id inp =
    Option.bind (tag ''@0x'' inp) (\<lambda>(inp, _).
    Option.bind (take_while1 is_hex_digit inp) (\<lambda>(inp, hex_str).
    map_option (\<lambda>i. (inp, i)) (from_hex hex_str)))"

definition alt_tag :: "string \<Rightarrow> 'a \<Rightarrow> 'a parser \<Rightarrow> 'a parser" where
  "alt_tag t x p inp = (case tag t inp of Some (r, _) \<Rightarrow> Some (r, x) | None \<Rightarrow> p inp)"

definition parse_field_type :: "FieldType parser" where
  "parse_field_type =
    alt_tag ''Int'' TInt (alt_tag ''Long'' TLong (alt_tag ''Bytes'' TBytes (alt_tag ''String'' FString (\<lambda>_. None))))"

definition parse_field :: "field parser" where
  "parse_field inp =
    Option.bind (take_while1 is_ident_char inp) (\<lambda>(inp, name).
    Option.bind (tag '':'' inp) (\<lambda>(inp, _).
    Option.bind (parse_field_type inp) (\<lambda>(inp, ty).
    Some (inp, \<lparr>field_name = name, field_ty = ty\<rparr>))))"

lemma tag_shorter: "tag t inp = Some (r, x) \<Longrightarrow> length r + length t = length inp"
proof -
  assume "tag t inp = Some (r, x)"
  then have t: "take (length t) inp = t" and r: "r = drop (length t) inp" by (simp_all add: tag_def split: if_splits)
  have "length t \<le> length inp" using arg_cong [OF t, of length] by simp
  then show ?thesis by (simp add: r)
qed

lemma dropWhile_shorter: "takeWhile P s \<noteq> [] \<Longrightarrow> length (dropWhile P s) < length s"
  by (cases s) (auto simp: le_imp_less_Suc length_dropWhile_le split: if_splits)

lemma take_while1_shorter: "take_while1 P inp = Some (r, x) \<Longrightarrow> length r < length inp"
  by (simp add: take_while1_def dropWhile_shorter split: if_splits) (use dropWhile_shorter in blast)

lemma space1_shorter: "space1 inp = Some (r, x) \<Longrightarrow> length r < length inp"
  by (simp add: space1_def space0_def split: if_splits) (use dropWhile_shorter in blast)

lemma parse_field_type_shorter: "parse_field_type inp = Some (r, x) \<Longrightarrow> length r \<le> length inp"
  by (auto simp: parse_field_type_def alt_tag_def dest!: tag_shorter split: option.splits)

lemma parse_field_shorter: "parse_field inp = Some (r, x) \<Longrightarrow> length r < length inp"
  by (auto simp: parse_field_def Option.bind_eq_Some_conv dest!: take_while1_shorter tag_shorter parse_field_type_shorter)

text \<open>\<^verbatim>\<open>many0(preceded(space1, parse_field))\<close>: the first failure ends the list, at the input before it.\<close>

function parse_fields :: "string \<Rightarrow> string \<times> field list" where
  "parse_fields inp =
    (case space1 inp of
       None \<Rightarrow> (inp, [])
     | Some (r, _) \<Rightarrow>
         (case parse_field r of
            None \<Rightarrow> (inp, [])
          | Some (r1, f) \<Rightarrow> (case parse_fields r1 of (r2, fs) \<Rightarrow> (r2, f # fs))))"
  by pat_completeness auto

termination parse_fields
  by (relation "measure length") (auto dest!: space1_shorter parse_field_shorter)

definition parse_constructor :: "Constructor parser" where
  "parse_constructor inp =
    Option.bind (parse_constructor_id (multispace0 inp)) (\<lambda>(inp, cid).
    Option.bind (space1 inp) (\<lambda>(inp, _).
    Option.bind (take_while1 is_method_char inp) (\<lambda>(inp, mname).
    (case parse_fields inp of (inp, fs) \<Rightarrow>
    Option.bind (tag ''='' (space0 inp)) (\<lambda>(inp, _).
    Option.bind (take_while1 is_method_char (space0 inp)) (\<lambda>(inp, rtype).
    Option.bind (tag '';'' inp) (\<lambda>(inp, _).
    Some (inp, \<lparr>ctor_id = cid, method_name = mname, ctor_fields = fs, response_type = rtype\<rparr>))))))))"

definition starts_with :: "string \<Rightarrow> string \<Rightarrow> bool" where
  "starts_with p s \<longleftrightarrow> take (length p) s = p"

definition parse_line :: "Constructor option parser" where
  "parse_line inp =
    (let inp = multispace0 inp in
     if inp = [] then Some (inp, None)
     else if starts_with ''//'' inp then Some (dropWhile (\<lambda>c. c \<noteq> CHR 0x0A) inp, None)
     else map_option (\<lambda>(r, c). (r, Some c)) (parse_constructor inp))"

declare parse_fields.simps [simp del]

lemma parse_fields_le: "length (fst (parse_fields inp)) \<le> length inp"
proof (induction inp rule: parse_fields.induct)
  case (1 inp)
  show ?case
  proof (cases "\<exists>r x r1 f. space1 inp = Some (r, x) \<and> parse_field r = Some (r1, f)")
    case True
    then obtain r x r1 f where e: "space1 inp = Some (r, x)" "parse_field r = Some (r1, f)" by blast
    from 1 [OF e(1) refl e(2) refl] have "length (fst (parse_fields r1)) \<le> length r1" .
    with space1_shorter [OF e(1)] parse_field_shorter [OF e(2)] show ?thesis
      by (subst parse_fields.simps) (simp add: e case_prod_beta)
  next
    case False
    then show ?thesis by (subst parse_fields.simps) (auto split: option.splits)
  qed
qed

lemma constructor_parts_shorter:
  "parse_constructor_id (multispace0 inp) = Some (a, i) \<Longrightarrow> length a \<le> length inp"
  "parse_fields x = (b, fs) \<Longrightarrow> length b \<le> length x"
  "tag t (space0 x) = Some (b, u) \<Longrightarrow> length b \<le> length x"
  "take_while1 P (space0 x) = Some (b, y) \<Longrightarrow> length b \<le> length x"
proof -
  have sp: "length (multispace0 s) \<le> length s" "length (space0 s) \<le> length s" for s
    by (simp_all add: multispace0_def space0_def length_dropWhile_le)
  show "parse_constructor_id (multispace0 inp) = Some (a, i) \<Longrightarrow> length a \<le> length inp"
    using sp(1) [of inp] by (auto simp: parse_constructor_id_def Option.bind_eq_Some_conv dest!: tag_shorter take_while1_shorter)
  show "parse_fields x = (b, fs) \<Longrightarrow> length b \<le> length x" using parse_fields_le [of x] by simp
  show "tag t (space0 x) = Some (b, u) \<Longrightarrow> length b \<le> length x" using sp(2) [of x] by (auto dest!: tag_shorter)
  show "take_while1 P (space0 x) = Some (b, y) \<Longrightarrow> length b \<le> length x" using sp(2) [of x] by (auto dest!: take_while1_shorter)
qed

lemma parse_constructor_shorter:
  assumes "parse_constructor inp = Some (r, c)"
  shows "length r < length inp"
proof -
  obtain a1 cid a2 u a3 mn where p: "parse_constructor_id (multispace0 inp) = Some (a1, cid)" "space1 a1 = Some (a2, u)"
      "take_while1 is_method_char a2 = Some (a3, mn)"
    using assms by (auto simp: parse_constructor_def Option.bind_eq_Some_conv)
  obtain a4 fs where f: "parse_fields a3 = (a4, fs)" by fastforce
  have "length (space0 a4) \<le> length a4" by (simp add: space0_def length_dropWhile_le)
  then have "length r \<le> length a4" using assms p f
    by (auto simp: parse_constructor_def Option.bind_eq_Some_conv dest!: constructor_parts_shorter(3,4) tag_shorter)
  then show ?thesis
    using constructor_parts_shorter(1) [OF p(1)] space1_shorter [OF p(2)] take_while1_shorter [OF p(3)]
      constructor_parts_shorter(2) [OF f] by simp
qed

text \<open>Every iteration of the loop of \<^verbatim>\<open>parse_schema\<close> consumes some input.\<close>

definition is_blank :: "string \<Rightarrow> bool" where
  "is_blank s \<longleftrightarrow> list_all is_whitespace s"

lemma parse_line_shorter: "\<not> is_blank inp \<Longrightarrow> parse_line inp = Some (r, x) \<Longrightarrow> length r < length inp"
proof -
  assume nb: "\<not> is_blank inp" and p: "parse_line inp = Some (r, x)"
  let ?i = "multispace0 inp"
  have l: "length ?i \<le> length inp" by (simp add: multispace0_def length_dropWhile_le)
  have "?i \<noteq> []" using nb by (auto simp: multispace0_def is_blank_def is_whitespace_def list_all_iff)
  then consider (comment) "starts_with ''//'' ?i" "r = dropWhile (\<lambda>c. c \<noteq> CHR 0x0A) ?i"
    | (decl) c where "parse_constructor ?i = Some (r, c)"
    using p by (auto simp: parse_line_def Let_def split: if_splits)
  then show ?thesis
  proof cases
    case comment
    then have "takeWhile (\<lambda>c. c \<noteq> CHR 0x0A) ?i \<noteq> []" using \<open>?i \<noteq> []\<close> by (cases ?i) (auto simp: starts_with_def)
    from dropWhile_shorter [OF this] comment(2) l show ?thesis by simp
  next
    case decl
    from parse_constructor_shorter [OF this] l show ?thesis by simp
  qed
qed

text \<open>\<^verbatim>\<open>None\<close> is the panic of the build script.\<close>

function parse_schema :: "string \<Rightarrow> Constructor list option" where
  "parse_schema inp =
    (if is_blank inp then Some []
     else case parse_line inp of
       None \<Rightarrow> None
     | Some (rest, None) \<Rightarrow> parse_schema rest
     | Some (rest, Some c) \<Rightarrow> map_option ((#) c) (parse_schema rest))"
  by pat_completeness auto

termination parse_schema
  by (relation "measure length") (auto dest: parse_line_shorter)

declare parse_schema.simps [simp del]

text \<open>The name of the structure of a method: each part with a capital.\<close>

definition capitalize :: "string \<Rightarrow> string" where
  "capitalize part = (case part of [] \<Rightarrow> [] | c # cs \<Rightarrow>
     (if between CHR ''a'' CHR ''z'' c then char_of (of_char c - 32 :: nat) else c) # cs)"

fun split_dots :: "string \<Rightarrow> string list" where
  "split_dots [] = [[]]"
| "split_dots (c # cs) = (if c = CHR ''.'' then [] # split_dots cs
     else case split_dots cs of p # ps \<Rightarrow> (c # p) # ps | [] \<Rightarrow> [[c]])"

definition to_struct_name :: "string \<Rightarrow> string" where
  "to_struct_name mname = concat (map capitalize (split_dots mname))"


section \<open>Schemas that are written out are read back\<close>

definition LF :: char where "LF = CHR 0x0A"

text \<open>A schema file: comments, empty lines, and declarations in the usual layout.\<close>

datatype schema_item = Remark string | EmptyLine | Decl Constructor

definition hex8 :: "u32 \<Rightarrow> string" where
  "hex8 i = map (\<lambda>k. ''0123456789ABCDEF'' ! (unat i div 16 ^ k mod 16)) (rev [0..<8])"

primrec type_name :: "FieldType \<Rightarrow> string" where
  "type_name TInt = ''Int''" | "type_name TLong = ''Long''" | "type_name TBytes = ''Bytes''" | "type_name FString = ''String''"

definition print_field :: "field \<Rightarrow> string" where
  "print_field f = field_name f @ '':'' @ type_name (field_ty f)"

definition print_constructor :: "Constructor \<Rightarrow> string" where
  "print_constructor c = ''@0x'' @ hex8 (ctor_id c) @ '' '' @ method_name c
     @ concat (map (\<lambda>f. '' '' @ print_field f) (ctor_fields c)) @ '' = '' @ response_type c @ '';''"

primrec print_item :: "schema_item \<Rightarrow> string" where
  "print_item (Remark t) = ''//'' @ t"
| "print_item EmptyLine = []"
| "print_item (Decl c) = print_constructor c"

definition unlines :: "string list \<Rightarrow> string" where
  "unlines ls = concat (map (\<lambda>l. l @ [LF]) ls)"

definition ctor_ok :: "Constructor \<Rightarrow> bool" where
  "ctor_ok c \<longleftrightarrow> method_name c \<noteq> [] \<and> list_all is_method_char (method_name c)
    \<and> response_type c \<noteq> [] \<and> list_all is_method_char (response_type c)
    \<and> list_all (\<lambda>f. field_name f \<noteq> [] \<and> list_all is_ident_char (field_name f)) (ctor_fields c)"

primrec item_ok :: "schema_item \<Rightarrow> bool" where
  "item_ok (Remark t) = list_all (\<lambda>c. c \<noteq> LF) t"
| "item_ok EmptyLine = True"
| "item_ok (Decl c) = ctor_ok c"

primrec decl_of :: "schema_item \<Rightarrow> Constructor list" where
  "decl_of (Remark t) = []" | "decl_of EmptyLine = []" | "decl_of (Decl c) = [c]"

lemma digits_value: "k < 16 \<Longrightarrow> hex_digit_value (''0123456789ABCDEF'' ! k) = k \<and> is_hex_digit (''0123456789ABCDEF'' ! k)"
proof -
  assume "k < 16"
  then have "k \<in> set [0..<16]" by simp
  moreover have "\<forall>k\<in>set [0..<16]. hex_digit_value (''0123456789ABCDEF'' ! k) = k \<and> is_hex_digit (''0123456789ABCDEF'' ! k)"
    by code_simp
  ultimately show ?thesis by blast
qed

lemma fold_digits:
  "fold (\<lambda>c a. a * 16 + hex_digit_value c) (map (\<lambda>k. ''0123456789ABCDEF'' ! (N div 16 ^ k mod 16)) (rev [0..<n])) a
    = a * 16 ^ n + N mod 16 ^ n"
proof (induction n arbitrary: a)
  case (Suc n)
  have "N mod 16 ^ Suc n = 16 ^ n * (N div 16 ^ n mod 16) + N mod 16 ^ n"
    using mod_mult2_eq [of N "16 ^ n" 16] by (simp add: mult.commute)
  then show ?case using Suc.IH [of "a * 16 + N div 16 ^ n mod 16"] digits_value [of "N div 16 ^ n mod 16"]
    by (simp add: algebra_simps)
qed simp

lemma from_hex_hex8: "from_hex (hex8 i) = Some i"
proof -
  have "unat i < 2 ^ 32" using unsigned_less [of i, where ?'a = nat] by simp
  moreover have "(16 :: nat) ^ 8 = 2 ^ 32" by simp
  ultimately show ?thesis using fold_digits [of "unat i" 8 0] by (simp add: from_hex_def hex8_def Let_def del: upt_Suc)
qed

lemma hex8_digits: "list_all is_hex_digit (hex8 i)" "hex8 i \<noteq> []"
  using digits_value by (auto simp: hex8_def list_all_iff simp del: upt_Suc)

lemma tag_app [simp]: "tag t (t @ r) = Some (r, ())"
  by (simp add: tag_def)

lemma take_while1_app:
  "xs \<noteq> [] \<Longrightarrow> list_all P xs \<Longrightarrow> (r \<noteq> [] \<Longrightarrow> \<not> P (hd r)) \<Longrightarrow> take_while1 P (xs @ r) = Some (r, xs)"
proof -
  assume "xs \<noteq> []" "list_all P xs" "r \<noteq> [] \<Longrightarrow> \<not> P (hd r)"
  then have "takeWhile P (xs @ r) = xs" "dropWhile P (xs @ r) = r"
    by (cases r; simp add: list_all_iff)+
  with \<open>xs \<noteq> []\<close> show ?thesis by (simp add: take_while1_def Let_def)
qed

lemma special_chars:
  "\<not> is_hex_digit CHR '' ''" "\<not> is_ident_char CHR '':''" "\<not> is_method_char CHR '' ''" "\<not> is_method_char CHR '';''"
  "\<not> is_ident_char CHR ''=''" "is_space CHR '' ''" "\<not> is_space CHR ''=''" "\<not> is_multispace CHR ''@''" "\<not> is_multispace CHR ''/''"
  "is_multispace LF" "is_whitespace LF" "\<not> is_whitespace CHR ''@''" "\<not> is_whitespace CHR ''/''"
  by code_simp+

lemma ident_not_space: "is_ident_char c \<Longrightarrow> \<not> is_space c" "is_method_char c \<Longrightarrow> \<not> is_space c"
  by (auto simp: is_ident_char_def is_method_char_def is_space_def ascii_alnum_def between_def less_eq_char_def)


lemma parse_constructor_id_print: "parse_constructor_id (''@0x'' @ hex8 i @ CHR '' '' # r) = Some (CHR '' '' # r, i)"
  using take_while1_app [OF hex8_digits(2,1), of "CHR '' '' # r"]
  by (simp add: parse_constructor_id_def from_hex_hex8 special_chars tag_def)

lemma parse_field_type_print: "parse_field_type (type_name t @ r) = Some (r, t)"
  by (cases t) (simp_all add: parse_field_type_def alt_tag_def tag_def)

lemma parse_field_print:
  "field_name f \<noteq> [] \<Longrightarrow> list_all is_ident_char (field_name f) \<Longrightarrow> parse_field (print_field f @ r) = Some (r, f)"
  using take_while1_app [of "field_name f" is_ident_char "CHR '':'' # type_name (field_ty f) @ r"]
  by (simp add: parse_field_def print_field_def special_chars tag_def parse_field_type_print)

lemma space0_word: "x \<noteq> [] \<Longrightarrow> \<not> is_space (hd x) \<Longrightarrow> space0 (CHR '' '' # x @ r) = x @ r"
  by (cases x) (simp_all add: space0_def special_chars)

lemma space1_word: "x \<noteq> [] \<Longrightarrow> \<not> is_space (hd x) \<Longrightarrow> space1 (CHR '' '' # x @ r) = Some (x @ r, ())"
  by (simp add: space1_def space0_word special_chars)

lemma word_start:
  "field_name f \<noteq> [] \<Longrightarrow> list_all is_ident_char (field_name f) \<Longrightarrow> print_field f \<noteq> [] \<and> \<not> is_space (hd (print_field f))"
  "w \<noteq> [] \<Longrightarrow> list_all is_method_char w \<Longrightarrow> \<not> is_space (hd w)"
  by (cases "field_name f"; simp add: print_field_def ident_not_space) (cases w; simp add: ident_not_space)

lemma parse_fields_print:
  "list_all (\<lambda>f. field_name f \<noteq> [] \<and> list_all is_ident_char (field_name f)) fs \<Longrightarrow>
   parse_fields (concat (map (\<lambda>f. '' '' @ print_field f) fs) @ '' = '' @ r) = ('' = '' @ r, fs)"
proof (induction fs)
  case Nil
  have "space1 ('' = '' @ r) = Some (''= '' @ r, ())" using space1_word [of "''= ''" r] by (simp add: special_chars)
  moreover have "parse_field (''= '' @ r) = None" by (simp add: parse_field_def take_while1_def special_chars)
  ultimately show ?case by (subst parse_fields.simps) simp
next
  case (Cons f fs)
  let ?r = "concat (map (\<lambda>f. '' '' @ print_field f) fs) @ '' = '' @ r"
  from Cons.prems have f: "field_name f \<noteq> []" "list_all is_ident_char (field_name f)" by simp_all
  have "space1 (CHR '' '' # print_field f @ ?r) = Some (print_field f @ ?r, ())"
    using word_start(1) [OF f] space1_word by blast
  moreover have "parse_field (print_field f @ ?r) = Some (?r, f)" by (rule parse_field_print [OF f])
  moreover have "parse_fields ?r = ('' = '' @ r, fs)" using Cons by simp
  ultimately have "parse_fields (CHR '' '' # print_field f @ ?r) = ('' = '' @ r, f # fs)"
    by (subst parse_fields.simps) simp
  then show ?case by simp
qed

lemma parse_constructor_print:
  assumes "ctor_ok c"
  shows "parse_constructor (print_constructor c @ r) = Some (r, c)"
proof -
  let ?fields = "concat (map (\<lambda>f. '' '' @ print_field f) (ctor_fields c))"
  let ?r2 = "response_type c @ '';'' @ r"
  let ?r1 = "?fields @ '' = '' @ ?r2"
  from assms have m: "method_name c \<noteq> []" "list_all is_method_char (method_name c)"
    and t: "response_type c \<noteq> []" "list_all is_method_char (response_type c)"
    and f: "list_all (\<lambda>f. field_name f \<noteq> [] \<and> list_all is_ident_char (field_name f)) (ctor_fields c)"
    by (simp_all add: ctor_ok_def)
  have "multispace0 (print_constructor c @ r) = ''@0x'' @ hex8 (ctor_id c) @ CHR '' '' # method_name c @ ?r1"
    by (simp add: print_constructor_def multispace0_def special_chars)
  then have p1: "parse_constructor_id (multispace0 (print_constructor c @ r)) = Some (CHR '' '' # method_name c @ ?r1, ctor_id c)"
    using parse_constructor_id_print by simp
  have p2: "space1 (CHR '' '' # method_name c @ ?r1) = Some (method_name c @ ?r1, ())"
    by (rule space1_word [OF m(1) word_start(2) [OF m]])
  have p3: "take_while1 is_method_char (method_name c @ ?r1) = Some (?r1, method_name c)"
    by (rule take_while1_app [OF m]) (cases "ctor_fields c"; simp add: special_chars)
  have p4: "parse_fields ?r1 = ('' = '' @ ?r2, ctor_fields c)" by (rule parse_fields_print [OF f])
  have p5: "tag ''='' (space0 ('' = '' @ ?r2)) = Some (CHR '' '' # ?r2, ())"
    using space0_word [of "''= ''" ?r2] by (simp add: special_chars tag_def)
  have p6: "take_while1 is_method_char (space0 (CHR '' '' # ?r2)) = Some ('';'' @ r, response_type c)"
    using space0_word [OF t(1) word_start(2) [OF t], of "'';'' @ r"] take_while1_app [OF t, of "'';'' @ r"]
    by (simp add: special_chars)
  have p7: "tag '';'' ('';'' @ r) = Some (r, ())" by (rule tag_app)
  show ?thesis unfolding parse_constructor_def
    by (simp only: p1 p2 p3 p4 p5 p6 p7 Option.bind.simps prod.case) simp
qed

lemma parse_schema_LF: "parse_schema (LF # t) = parse_schema t"
proof -
  have "parse_line (LF # t) = parse_line t" by (simp add: parse_line_def multispace0_def special_chars)
  then show ?thesis
    by (subst (1 2) parse_schema.simps) (simp add: is_blank_def special_chars)
qed

lemma parse_schema_item:
  assumes "item_ok i"
  shows "parse_schema (print_item i @ LF # t) = map_option (\<lambda>cs. decl_of i @ cs) (parse_schema t)"
proof (cases i)
  case (Remark x)
  have x: "dropWhile (\<lambda>c. c \<noteq> CHR 0x0A) (x @ LF # t) = LF # t"
    using assms by (simp add: Remark LF_def list_all_iff)
  have "parse_line (''//'' @ x @ LF # t) = Some (LF # t, None)"
    by (simp add: parse_line_def multispace0_def special_chars starts_with_def x Let_def)
  then show ?thesis
    by (cases "parse_schema t"; subst parse_schema.simps) (simp_all add: Remark is_blank_def special_chars parse_schema_LF)
next
  case EmptyLine
  then show ?thesis by (cases "parse_schema t") (simp_all add: parse_schema_LF)
next
  case (Decl c)
  have s: "print_constructor c @ LF # t = CHR ''@'' # tl (print_constructor c) @ LF # t" by (simp add: print_constructor_def)
  have "parse_line (print_constructor c @ LF # t) = Some (LF # t, Some c)"
    using parse_constructor_print [of c "LF # t"] assms
    by (simp add: Decl parse_line_def multispace0_def special_chars starts_with_def Let_def s)
  moreover have "\<not> is_blank (print_constructor c @ LF # t)" by (simp add: s is_blank_def special_chars)
  ultimately show ?thesis
    by (cases "parse_schema t"; subst parse_schema.simps) (simp_all add: Decl parse_schema_LF)
qed


definition core_lines :: "string list" where
  "core_lines = [
    ''// Session'',
    ''@0xA1000001 session.init client_id:Bytes nonce:Bytes = session.InitReq;'',
    ''@0xA1000002 session.ack server_nonce:Bytes timestamp:Long = session.InitAck;'',
    [],
    ''// Signaling'',
    ''@0xB1000001 signal.requestPeer link_id:String = signal.PeerInfo;'',
    ''@0xB1000002 signal.iceCandidate candidate:String peer_id:Bytes = signal.Ok;'',
    ''@0xB1000003 signal.offer sdp:Bytes peer_id:Bytes = signal.Ok;'',
    ''@0xB1000004 signal.answer sdp:Bytes peer_id:Bytes = signal.Ok;'',
    [],
    ''// Key exchange'',
    ''@0xB2000001 keys.uploadPrekeys identity_key:Bytes signed_prekey:Bytes inbox_id:Bytes = keys.Ok;'',
    ''@0xB2000002 keys.getPrekeys peer_id:Bytes = keys.PrekeyBundle;'',
    [],
    ''// Chat (E2EE)'',
    ''@0xC1000001 chat.send peer_id:Bytes ciphertext:Bytes ratchet_key:Bytes msg_no:Int = chat.Sent;'',
    ''@0xC1000002 chat.receive = chat.Messages;'',
    [],
    ''// File transfer (routed via gateway relay, E2EE between peers)'',
    ''// peer_id = target for offer/chunk/complete; target (sender) for accept/chunkAck'',
    ''@0xD1000001 file.offer peer_id:Bytes file_id:Bytes name:String size:Long chunks:Int hash:Bytes compressed:Int = file.OfferAck;'',
    ''@0xD1000002 file.accept peer_id:Bytes file_id:Bytes = file.AcceptAck;'',
    ''@0xD1000003 file.chunk peer_id:Bytes file_id:Bytes index:Int data:Bytes hash:Bytes ratchet_key:Bytes msg_no:Int = file.ChunkAck;'',
    ''@0xD1000004 file.complete peer_id:Bytes file_id:Bytes = file.Ok;'',
    ''@0xD1000005 file.chunkAck peer_id:Bytes file_id:Bytes index:Int = file.Ok;'',
    ''@0xD1000006 file.resume peer_id:Bytes file_id:Bytes missing:Bytes = file.ResumeAck;'',
    [],
    ''// Blind inbox (anonymous offline message queue)'',
    ''@0xC2000001 inbox.store inbox_id:Bytes ciphertext:Bytes = inbox.Ok;'',
    ''@0xC2000002 inbox.fetch inbox_id:Bytes = inbox.Messages;'',
    ''@0xC2000003 inbox.messages messages:Bytes count:Int = inbox.Ok;'',
    ''@0xC2000005 inbox.ack inbox_id:Bytes claim_token:Bytes = inbox.Ok;'',
    [],
    ''// Anonymous transport bootstrap'',
    ''@0xC3000001 transport.bootstrap = transport.Info;'',
    ''@0xC3000002 transport.bootstrapInfo relay_addr:String relay_public_key:Bytes inbox_verifying_key:Bytes capabilities:Int = transport.Ok;'']"

definition core_p2p :: string where
  "core_p2p = unlines core_lines"

definition core_items :: "schema_item list" where
  "core_items = [
    Remark '' Session'',
    Decl (core_schema ! 0),
    Decl (core_schema ! 1),
    EmptyLine,
    Remark '' Signaling'',
    Decl (core_schema ! 2),
    Decl (core_schema ! 3),
    Decl (core_schema ! 4),
    Decl (core_schema ! 5),
    EmptyLine,
    Remark '' Key exchange'',
    Decl (core_schema ! 6),
    Decl (core_schema ! 7),
    EmptyLine,
    Remark '' Chat (E2EE)'',
    Decl (core_schema ! 8),
    Decl (core_schema ! 9),
    EmptyLine,
    Remark '' File transfer (routed via gateway relay, E2EE between peers)'',
    Remark '' peer_id = target for offer/chunk/complete; target (sender) for accept/chunkAck'',
    Decl (core_schema ! 10),
    Decl (core_schema ! 11),
    Decl (core_schema ! 12),
    Decl (core_schema ! 13),
    Decl (core_schema ! 14),
    Decl (core_schema ! 15),
    EmptyLine,
    Remark '' Blind inbox (anonymous offline message queue)'',
    Decl (core_schema ! 16),
    Decl (core_schema ! 17),
    Decl (core_schema ! 18),
    Decl (core_schema ! 19),
    EmptyLine,
    Remark '' Anonymous transport bootstrap'',
    Decl (core_schema ! 20),
    Decl (core_schema ! 21)]"


lemma core_ids [simp]:
  "hex8 0xA1000001 = ''A1000001''" "hex8 0xA1000002 = ''A1000002''" "hex8 0xB1000001 = ''B1000001''"
  "hex8 0xB1000002 = ''B1000002''" "hex8 0xB1000003 = ''B1000003''" "hex8 0xB1000004 = ''B1000004''"
  "hex8 0xB2000001 = ''B2000001''" "hex8 0xB2000002 = ''B2000002''" "hex8 0xC1000001 = ''C1000001''"
  "hex8 0xC1000002 = ''C1000002''" "hex8 0xD1000001 = ''D1000001''" "hex8 0xD1000002 = ''D1000002''"
  "hex8 0xD1000003 = ''D1000003''" "hex8 0xD1000004 = ''D1000004''" "hex8 0xD1000005 = ''D1000005''"
  "hex8 0xD1000006 = ''D1000006''" "hex8 0xC2000001 = ''C2000001''" "hex8 0xC2000002 = ''C2000002''"
  "hex8 0xC2000003 = ''C2000003''" "hex8 0xC2000005 = ''C2000005''" "hex8 0xC3000001 = ''C3000001''"
  "hex8 0xC3000002 = ''C3000002''"
  by (simp_all add: hex8_def upt_rec)

lemma core_items_printed: "core_lines = map print_item core_items"
  by (simp add: core_lines_def core_items_def core_schema_def ctor_def print_constructor_def print_field_def)

lemma core_items_ok: "list_all item_ok core_items"
  by code_simp

lemma core_items_decls: "concat (map decl_of core_items) = core_schema"
  by (simp add: core_items_def core_schema_def)

lemma parse_schema_print:
  "list_all item_ok items \<Longrightarrow> parse_schema (unlines (map print_item items)) = Some (concat (map decl_of items))"
proof (induction items)
  case Nil
  show ?case by (simp add: unlines_def parse_schema.simps is_blank_def)
next
  case (Cons i items)
  then have "parse_schema (unlines (map print_item items)) = Some (concat (map decl_of items))" "item_ok i" by simp_all
  then show ?case using parse_schema_item [of i "unlines (map print_item items)"] by (simp add: unlines_def)
qed

text \<open>C17. A schema that is written out in the usual layout, its declarations separated by comments and empty lines in any way, is
  read back: the parser returns exactly its declarations, in their order.  The schema file of the repository is read as the
  schema the codec is built from; its constructor ids, and the names of the structures generated for them, are distinct.\<close>

theorem schema_roundtrip:
  "(list_all item_ok items \<longrightarrow> parse_schema (unlines (map print_item items)) = Some (concat (map decl_of items)))
   \<and> parse_schema core_p2p = Some core_schema
   \<and> distinct (map ctor_id core_schema) \<and> distinct (map (to_struct_name \<circ> method_name) core_schema)"
proof (intro conjI impI)
  show "parse_schema (unlines (map print_item items)) = Some (concat (map decl_of items))" if "list_all item_ok items"
    by (rule parse_schema_print [OF that])
  show "parse_schema core_p2p = Some core_schema"
    by (simp add: core_p2p_def core_items_printed parse_schema_print [OF core_items_ok] core_items_decls)
  show "distinct (map ctor_id core_schema)" by (simp add: core_schema_def ctor_def)
  show "distinct (map (to_struct_name \<circ> method_name) core_schema)" by code_simp
qed

theorem schema_roundtrip_witness:
  "parse_schema (unlines [''//x'', [], ''@0x0000000A a.b c:Int d:String = e;'', []]) =
     Some [ctor 10 ''a.b'' [(''c'', TInt), (''d'', FString)] ''e'']"
proof -
  let ?is = "[Remark ''x'', EmptyLine, Decl (ctor 10 ''a.b'' [(''c'', TInt), (''d'', FString)] ''e''), EmptyLine]"
  have ok: "list_all item_ok ?is" by code_simp
  have p: "map print_item ?is = [''//x'', [], ''@0x0000000A a.b c:Int d:String = e;'', []]"
    by (simp add: ctor_def print_constructor_def print_field_def hex8_def upt_rec)
  from schema_roundtrip [of ?is] ok show ?thesis unfolding p by simp
qed

end
