(* ===== verification/Service_Setup.thy ===== *)
theory Service_Setup
  imports Signaling_Invariant Gateway Onion_Relay
begin

text \<open>
  What the services do before they serve: the files that hold their long-term secrets
  (\<^verbatim>\<open>services/signaling/src/key_store.rs\<close>, \<^verbatim>\<open>services/relay/src/identity.rs\<close>, \<^verbatim>\<open>signing.rs\<close>), the configuration
  (\<^verbatim>\<open>cypher-common/src/config.rs\<close>), the loading of TLS certificates (\<^verbatim>\<open>cypher-tls/src/config.rs\<close>), the record the relay
  publishes about itself and the subjects the signaling service subscribes to.  The file system is a map from paths to
  contents; the outcome of every system call of a start is part of its input, so that each error branch is covered.
  The locale \<^verbatim>\<open>persistent_secret\<close> is the contract of a secret kept in a file, for both implementations.
\<close>

section \<open>Secret files\<close>

type_synonym files = "string \<Rightarrow> bytes option"

text \<open>The outcomes of the system calls of one start, in the order of the calls; a write fails after some bytes.\<close>

record key_io =
  io_read :: bool
  io_mkdir :: bool
  io_open :: bool
  io_write :: "nat option"
  io_sync :: bool
  io_chmod :: bool
  io_rename :: bool
  io_remove :: bool
  io_reread :: bool

definition temp_path :: "string \<Rightarrow> string" where
  "temp_path path = path @ ''.tmp''"

definition read_secret :: "bool \<Rightarrow> string \<Rightarrow> files \<Rightarrow> bytes option result" where
  "read_secret ok path fs =
    (case fs path of
       None \<Rightarrow> Ok None
     | Some data \<Rightarrow>
         if \<not> ok then Err (Io ''failed to read'')
         else if length data = 32 then Ok (Some data)
         else Err (InvalidData ''invalid secret length''))"

definition rename_or_reuse :: "key_io \<Rightarrow> string \<Rightarrow> string \<Rightarrow> files \<Rightarrow> files \<times> unit result" where
  "rename_or_reuse io tmp path fs =
    (if io_rename io \<and> fs tmp \<noteq> None then (fs(path := fs tmp, tmp := None), Ok ())
     else if fs path \<noteq> None then (if io_remove io then fs(tmp := None) else fs, Ok ())
     else (fs, Err (Io ''failed to move generated secret'')))"

definition load_or_create_secret :: "key_io \<Rightarrow> bytes \<Rightarrow> string \<Rightarrow> files \<Rightarrow> files \<times> bytes result" where
  "load_or_create_secret io random path fs =
    (case read_secret (io_read io) path fs of
       Err e \<Rightarrow> (fs, Err e)
     | Ok (Some existing) \<Rightarrow> (fs, Ok existing)
     | Ok None \<Rightarrow>
         if \<not> io_mkdir io then (fs, Err (Io ''failed to create directory''))
         else let tmp = temp_path path in
         if fs tmp \<noteq> None \<or> \<not> io_open io then (fs, Err (Io ''failed to create''))
         else (case io_write io of
           Some k \<Rightarrow> (fs(tmp \<mapsto> take k random), Err (Io ''failed to write''))
         | None \<Rightarrow>
             let fs1 = fs(tmp \<mapsto> random) in
             if \<not> io_sync io then (fs1, Err (Io ''failed to sync''))
             else if \<not> io_chmod io then (fs1, Err (Io ''failed to restrict permissions''))
             else (case rename_or_reuse io tmp path fs1 of
                (fs2, Err e) \<Rightarrow> (fs2, Err e)
              | (fs2, Ok _) \<Rightarrow>
                  (case read_secret (io_reread io) path fs2 of
                     Err e \<Rightarrow> (fs2, Err e)
                   | Ok None \<Rightarrow> (fs2, Err (InvalidData ''missing generated secret''))
                   | Ok (Some s) \<Rightarrow> (fs2, Ok s)))))"

text \<open>The relay has its own copy of the same code, for its onion identity.\<close>

definition read_identity :: "bool \<Rightarrow> string \<Rightarrow> files \<Rightarrow> bytes option result" where
  "read_identity ok path fs =
    (case fs path of
       None \<Rightarrow> Ok None
     | Some data \<Rightarrow>
         if \<not> ok then Err (Io ''failed to read'')
         else if length data = 32 then Ok (Some data)
         else Err (InvalidData ''invalid secret length''))"

definition load_or_create_onion_identity :: "key_io \<Rightarrow> bytes \<Rightarrow> string \<Rightarrow> files \<Rightarrow> files \<times> bytes result" where
  "load_or_create_onion_identity io random path fs =
    (case read_identity (io_read io) path fs of
       Err e \<Rightarrow> (fs, Err e)
     | Ok (Some existing) \<Rightarrow> (fs, Ok existing)
     | Ok None \<Rightarrow>
         if \<not> io_mkdir io then (fs, Err (Io ''failed to create directory''))
         else let tmp = temp_path path in
         if fs tmp \<noteq> None \<or> \<not> io_open io then (fs, Err (Io ''failed to create''))
         else (case io_write io of
           Some k \<Rightarrow> (fs(tmp \<mapsto> take k random), Err (Io ''failed to write''))
         | None \<Rightarrow>
             let fs1 = fs(tmp \<mapsto> random) in
             if \<not> io_sync io then (fs1, Err (Io ''failed to sync''))
             else if \<not> io_chmod io then (fs1, Err (Io ''failed to restrict permissions''))
             else (case rename_or_reuse io tmp path fs1 of
                (fs2, Err e) \<Rightarrow> (fs2, Err e)
              | (fs2, Ok _) \<Rightarrow>
                  (case read_identity (io_reread io) path fs2 of
                     Err e \<Rightarrow> (fs2, Err e)
                   | Ok None \<Rightarrow> (fs2, Err (InvalidData ''missing generated relay identity''))
                   | Ok (Some s) \<Rightarrow> (fs2, Ok s)))))"

text \<open>The sequence of the starts of a service, each with its system call outcomes and its random bytes.\<close>

primrec starts ::
  "(key_io \<Rightarrow> bytes \<Rightarrow> string \<Rightarrow> files \<Rightarrow> files \<times> bytes result) \<Rightarrow> string \<Rightarrow> (key_io \<times> bytes) list \<Rightarrow> files \<Rightarrow> files \<times> bytes result list" where
  "starts load path [] fs = (fs, [])"
| "starts load path (i # is) fs =
    (let (fs1, res) = load (fst i) (snd i) path fs; (fs2, rs) = starts load path is fs1 in (fs2, res # rs))"

section \<open>The contract of a secret file\<close>

definition secret_present :: "string \<Rightarrow> bytes \<Rightarrow> files \<Rightarrow> bool" where
  "secret_present path s fs \<longleftrightarrow> fs path = Some s \<and> length s = 32"

definition half_created :: "string \<Rightarrow> files \<Rightarrow> bool" where
  "half_created path fs \<longleftrightarrow> fs path = None \<and> fs (temp_path path) \<noteq> None"

locale persistent_secret =
  fixes load :: "key_io \<Rightarrow> bytes \<Rightarrow> string \<Rightarrow> files \<Rightarrow> files \<times> bytes result"
  assumes loaded: "load io r path fs = (fs1, Ok s) \<Longrightarrow> secret_present path s fs1"
    and kept: "secret_present path s fs \<Longrightarrow> fst (load io r path fs) = fs \<and> (\<forall>s1. snd (load io r path fs) = Ok s1 \<longrightarrow> s1 = s)"
    and readable: "secret_present path s fs \<Longrightarrow> io_read io \<Longrightarrow> load io r path fs = (fs, Ok s)"
    and stuck: "half_created path fs \<Longrightarrow> \<exists>e. load io r path fs = (fs, Err e)"
    and frame: "q \<noteq> path \<Longrightarrow> q \<noteq> temp_path path \<Longrightarrow> fst (load io r path fs) q = fs q"
begin

lemma present_stays:
  "secret_present path s fs \<Longrightarrow> fst (starts load path is fs) = fs \<and> (\<forall>s1. Ok s1 \<in> set (snd (starts load path is fs)) \<longrightarrow> s1 = s)"
proof (induction "is")
  case (Cons i "is")
  have "fst (load (fst i) (snd i) path fs) = fs" "\<forall>s1. snd (load (fst i) (snd i) path fs) = Ok s1 \<longrightarrow> s1 = s"
    using kept [OF Cons.prems, of "fst i" "snd i"] by blast+
  with Cons show ?case by (auto simp: Let_def case_prod_beta)
qed simp

lemma starts_agree:
  "Ok s1 \<in> set (snd (starts load path is fs)) \<Longrightarrow> Ok s2 \<in> set (snd (starts load path is fs)) \<Longrightarrow> s1 = s2"
proof (induction "is" arbitrary: fs)
  case (Cons i "is")
  obtain fs1 res where l: "load (fst i) (snd i) path fs = (fs1, res)" by fastforce
  show ?case
  proof (cases res)
    case (Ok s)
    then have "secret_present path s fs1" using loaded l by blast
    from present_stays [OF this, of "is"] Cons.prems show ?thesis by (auto simp: l Ok Let_def case_prod_beta)
  next
    case (Err e)
    with Cons.prems Cons.IH [of fs1] show ?thesis by (simp add: l Let_def case_prod_beta)
  qed
qed simp

lemma stuck_forever: "half_created path fs \<Longrightarrow> fst (starts load path is fs) = fs \<and> list_all (\<lambda>r. \<not> is_ok r) (snd (starts load path is fs))"
proof (induction "is")
  case (Cons i "is")
  from stuck [OF Cons.prems, of "fst i" "snd i"] obtain e where "load (fst i) (snd i) path fs = (fs, Err e)" by blast
  with Cons show ?case by (simp add: Let_def case_prod_beta)
qed simp

end


section \<open>Both implementations keep the contract\<close>

lemma temp_path_other: "temp_path path \<noteq> path" "path \<noteq> temp_path path"
  by (simp_all add: temp_path_def)

lemma read_secret_cases:
  "read_secret ok path fs = Ok (Some s) \<Longrightarrow> secret_present path s fs"
  "read_secret ok path fs = Ok None \<longleftrightarrow> fs path = None"
  "secret_present path s fs \<Longrightarrow> read_secret True path fs = Ok (Some s)"
  by (auto simp: read_secret_def secret_present_def split: option.splits if_splits)

lemma load_or_create_secret_present:
  "secret_present path s fs \<Longrightarrow> load_or_create_secret io r path fs = (fs, if io_read io then Ok s else Err (Io ''failed to read''))"
  by (simp add: load_or_create_secret_def read_secret_def secret_present_def)

lemma load_or_create_secret_absent:
  assumes "fs path = None" "load_or_create_secret io r path fs = (fs1, Ok s)"
  shows "fs (temp_path path) = None" "fs1 = fs(path \<mapsto> s)" "s = r" "length s = 32"
proof -
  have n: "fs (temp_path path) = None" "io_mkdir io" "io_open io" "io_write io = None" "io_sync io" "io_chmod io"
    using assms by (auto simp: load_or_create_secret_def read_secret_def Let_def split: if_splits option.splits)
  then have "rename_or_reuse io (temp_path path) path (fs(temp_path path \<mapsto> r)) =
      (if io_rename io then (fs(path \<mapsto> r), Ok ()) else (fs(temp_path path \<mapsto> r), Err (Io ''failed to move generated secret'')))"
    using assms(1) by (auto simp: rename_or_reuse_def temp_path_other)
  with assms n show "fs (temp_path path) = None" "fs1 = fs(path \<mapsto> s)" "s = r" "length s = 32"
    by (auto simp: load_or_create_secret_def read_secret_def Let_def split: if_splits)
qed

lemma rename_or_reuse_frame: "q \<noteq> path \<Longrightarrow> q \<noteq> tmp \<Longrightarrow> fst (rename_or_reuse io tmp path fs) q = fs q"
  by (simp add: rename_or_reuse_def)

lemma load_or_create_secret_frame:
  "q \<noteq> path \<Longrightarrow> q \<noteq> temp_path path \<Longrightarrow> fst (load_or_create_secret io r path fs) q = fs q"
  using rename_or_reuse_frame [of q path "temp_path path" io "fs(temp_path path \<mapsto> r)"]
  by (cases "rename_or_reuse io (temp_path path) path (fs(temp_path path \<mapsto> r))")
    (simp add: load_or_create_secret_def Let_def split: result.split option.split)

interpretation sk: persistent_secret load_or_create_secret
proof
  show "secret_present path s fs1" if l: "load_or_create_secret io r path fs = (fs1, Ok s)" for io r path fs fs1 s
  proof (cases "fs path")
    case None
    from load_or_create_secret_absent [OF this l] show ?thesis by (simp add: secret_present_def)
  next
    case (Some d)
    with l show ?thesis
      by (auto simp: load_or_create_secret_def read_secret_def secret_present_def split: if_splits)
  qed
  show "\<exists>e. load_or_create_secret io r path fs = (fs, Err e)" if "half_created path fs" for io r path fs
    using that by (auto simp: half_created_def load_or_create_secret_def read_secret_def Let_def)
qed (auto simp: load_or_create_secret_present load_or_create_secret_frame split: if_splits)

text \<open>The two copies do the same: the message in which they differ is never produced.\<close>

lemma onion_identity_same: "load_or_create_onion_identity = load_or_create_secret"
proof (intro ext)
  fix io r path and fs :: files
  have r: "read_identity = read_secret" by (intro ext) (simp add: read_identity_def read_secret_def)
  have "read_secret ok path fs2 \<noteq> Ok None" if "rename_or_reuse io (temp_path path) path fs1 = (fs2, Ok u)" for ok fs1 fs2 u
    using that by (auto simp: read_secret_cases(2) rename_or_reuse_def temp_path_other split: if_splits)
  then have eq: "(case rename_or_reuse io (temp_path path) path fs1 of (fs2, Err e) \<Rightarrow> (fs2, Err e)
       | (fs2, Ok _) \<Rightarrow> (case read_secret ok path fs2 of Err e \<Rightarrow> (fs2, Err e)
           | Ok None \<Rightarrow> (fs2, Err (InvalidData ''missing generated relay identity'')) | Ok (Some s) \<Rightarrow> (fs2, Ok s)))
     = (case rename_or_reuse io (temp_path path) path fs1 of (fs2, Err e) \<Rightarrow> (fs2, Err e)
       | (fs2, Ok _) \<Rightarrow> (case read_secret ok path fs2 of Err e \<Rightarrow> (fs2, Err e)
           | Ok None \<Rightarrow> (fs2, Err (InvalidData ''missing generated secret'')) | Ok (Some s) \<Rightarrow> (fs2, Ok s)))" for fs1 ok
    by (cases "rename_or_reuse io (temp_path path) path fs1") (auto split: result.split option.split)
  show "load_or_create_onion_identity io r path fs = load_or_create_secret io r path fs"
    unfolding load_or_create_onion_identity_def load_or_create_secret_def r Let_def eq ..
qed

interpretation oi: persistent_secret load_or_create_onion_identity
  unfolding onion_identity_same by unfold_locales


section \<open>The signing keys of the signaling service\<close>

definition load_or_create ::
  "key_io \<times> bytes \<Rightarrow> key_io \<times> bytes \<Rightarrow> string \<Rightarrow> string \<Rightarrow> files \<Rightarrow> files \<times> ServerSigner result" where
  "load_or_create i1 i2 signing_seed_path hmac_secret_path fs =
    (case load_or_create_secret (fst i1) (snd i1) signing_seed_path fs of
       (fs1, Err e) \<Rightarrow> (fs1, Err e)
     | (fs1, Ok seed) \<Rightarrow>
         (case load_or_create_secret (fst i2) (snd i2) hmac_secret_path fs1 of
            (fs2, Err e) \<Rightarrow> (fs2, Err e)
          | (fs2, Ok hsecret) \<Rightarrow> (fs2, Ok \<lparr>signing_seed = seed, hmac_secret = hsecret\<rparr>)))"

definition load_or_create_default :: "key_io \<times> bytes \<Rightarrow> key_io \<times> bytes \<Rightarrow> files \<Rightarrow> files \<times> ServerSigner result" where
  "load_or_create_default i1 i2 =
    load_or_create i1 i2 ''/data/signaling/inbox_signing.bin'' ''/data/signaling/inbox_hmac.bin''"

lemma load_or_create_stable:
  assumes l: "load_or_create i1 i2 p q fs = (fs1, Ok sr)" and "p \<noteq> q" "p \<noteq> temp_path q"
    and ok: "io_read (fst j1)" "io_read (fst j2)"
  shows "load_or_create j1 j2 p q fs1 = (fs1, Ok sr)"
proof -
  obtain fs0 seed hsecret where s: "load_or_create_secret (fst i1) (snd i1) p fs = (fs0, Ok seed)"
      "load_or_create_secret (fst i2) (snd i2) q fs0 = (fs1, Ok hsecret)" "sr = \<lparr>signing_seed = seed, hmac_secret = hsecret\<rparr>"
    using l by (auto simp: load_or_create_def split: prod.splits result.splits)
  have "fs1 p = fs0 p" using sk.frame [of p q "fst i2" "snd i2" fs0] assms(2,3) s(2) by simp
  then have "secret_present p seed fs1" "secret_present q hsecret fs1"
    using sk.loaded [OF s(1)] sk.loaded [OF s(2)] by (simp_all add: secret_present_def)
  with ok s(3) show ?thesis by (simp add: load_or_create_def sk.readable)
qed

section \<open>Configuration\<close>

record AppConfig =
  gateway_addr :: string
  signaling_addr :: string
  relay_addr :: string
  ws_addr :: string
  stun_addr :: string
  redis_url :: string
  nats_url :: string
  tls_cert_path :: "string option"
  tls_key_path :: "string option"

definition default_config :: AppConfig where
  "default_config = \<lparr>gateway_addr = ''0.0.0.0:9100'', signaling_addr = ''0.0.0.0:9200'', relay_addr = ''0.0.0.0:9300'',
     ws_addr = ''0.0.0.0:9101'', stun_addr = ''0.0.0.0:3478'', redis_url = ''redis://127.0.0.1:6379'',
     nats_url = ''nats://127.0.0.1:4222'', tls_cert_path = None, tls_key_path = None\<rparr>"

text \<open>The \<^verbatim>\<open>config\<close> library merges the file and the environment into one table, or fails.\<close>

definition load_config :: "(string \<Rightarrow> string option) result \<Rightarrow> AppConfig result" where
  "load_config built = and_then built (\<lambda>values.
    let field = (\<lambda>name d. case values name of None \<Rightarrow> d | Some v \<Rightarrow> v) in
    Ok \<lparr>gateway_addr = field ''gateway_addr'' ''0.0.0.0:9100'', signaling_addr = field ''signaling_addr'' ''0.0.0.0:9200'',
        relay_addr = field ''relay_addr'' ''0.0.0.0:9300'', ws_addr = field ''ws_addr'' ''0.0.0.0:9101'',
        stun_addr = field ''stun_addr'' ''0.0.0.0:3478'', redis_url = field ''redis_url'' ''redis://127.0.0.1:6379'',
        nats_url = field ''nats_url'' ''nats://127.0.0.1:4222'',
        tls_cert_path = values ''tls_cert_path'', tls_key_path = values ''tls_key_path''\<rparr>)"

section \<open>The relay announces itself\<close>

definition relay_bootstrap_json :: "crypto \<Rightarrow> AppConfig \<Rightarrow> bytes \<Rightarrow> json" where
  "relay_bootstrap_json C cfg onion_secret =
    JObj [(ascii ''relay_addr'', JStr (ascii (relay_addr cfg))),
          (ascii ''relay_public_key'', of_bytes (x25519_public C onion_secret))]"

definition RELAY_IDENTITY_PATH :: string where "RELAY_IDENTITY_PATH = ''/data/relay/onion_identity.bin''"

text \<open>The start of the relay up to the record in Redis; the secret is the one its onion handler then uses.\<close>

definition relay_start ::
  "'r sig_env \<Rightarrow> crypto \<Rightarrow> AppConfig \<Rightarrow> key_io \<times> bytes \<Rightarrow> files \<Rightarrow> 'r \<Rightarrow> files \<times> 'r \<times> bytes result" where
  "relay_start E C cfg i fs store =
    (case load_or_create_onion_identity (fst i) (snd i) RELAY_IDENTITY_PATH fs of
       (fs1, Err e) \<Rightarrow> (fs1, store, Err e)
     | (fs1, Ok onion_secret) \<Rightarrow>
         (fs1, r_set (sg_redis E) store bootstrap_key (to_text (sg_json E) (relay_bootstrap_json C cfg onion_secret)),
          Ok onion_secret))"

lemma relay_record_bootstrap: "relay_record_of (relay_bootstrap_json C cfg s) = Some (ascii (relay_addr cfg), x25519_public C s)"
  by (simp add: relay_record_of_def relay_bootstrap_json_def json_field_def ascii_def del: as_byte_vec.simps)

lemma relay_start_stored:
  assumes "sig_ok E view" "relay_start E C cfg i fs store = (fs1, store1, Ok s)" "sig_store st = store1"
  shows "load_relay_bootstrap E st = Ok (Some (ascii (relay_addr cfg), x25519_public C s))"
    and "secret_present RELAY_IDENTITY_PATH s fs1"
proof -
  have l: "load_or_create_onion_identity (fst i) (snd i) RELAY_IDENTITY_PATH fs = (fs1, Ok s)"
    and st: "store1 = r_set (sg_redis E) store bootstrap_key (to_text (sg_json E) (relay_bootstrap_json C cfg s))"
    using assms(2) by (auto simp: relay_start_def split: prod.splits result.splits)
  show "secret_present RELAY_IDENTITY_PATH s fs1" by (rule oi.loaded [OF l])
  have "redis_ok (sg_redis E) view" "json_ok (sg_json E)" using assms(1) by (simp_all add: sig_ok_def)
  then show "load_relay_bootstrap E st = Ok (Some (ascii (relay_addr cfg), x25519_public C s))"
    by (simp add: load_relay_bootstrap_def assms(3) st redis_okD json_okD read_json_def relay_record_bootstrap)
qed


section \<open>TLS certificates\<close>

text \<open>What a path names when it is looked at.  A file that may not be read can still be found.\<close>

datatype file_state = NotFound | StatError | Unreadable | Readable bytes

record ('cert, 'key, 'cfg) tls_lib =
  pem_certs :: "bytes \<Rightarrow> 'cert option list"
  pem_private_key :: "bytes \<Rightarrow> 'key option result"
  with_single_cert :: "'cert list \<Rightarrow> 'key \<Rightarrow> 'cfg result"

definition tls_err :: "'a result \<Rightarrow> string \<Rightarrow> 'a result" where
  "tls_err x m = (case x of Ok y \<Rightarrow> Ok y | Err _ \<Rightarrow> Err (Transport m))"

definition open_file :: "file_state \<Rightarrow> string \<Rightarrow> bytes result" where
  "open_file f m = (case f of Readable data \<Rightarrow> Ok data | _ \<Rightarrow> Err (Transport m))"

definition make_server_config_from_pem ::
  "('cert, 'key, 'cfg) tls_lib \<Rightarrow> (string \<Rightarrow> file_state) \<Rightarrow> string \<Rightarrow> string \<Rightarrow> 'cfg result" where
  "make_server_config_from_pem L disk cert_path key_path =
    and_then (open_file (disk cert_path) ''failed to open cert'') (\<lambda>cert_file.
    and_then (open_file (disk key_path) ''failed to open key'') (\<lambda>key_file.
      let certs = List.map_filter (\<lambda>c. c) (pem_certs L cert_file) in
      if certs = [] then Err (Transport ''no certificates found in PEM file'')
      else and_then (tls_err (pem_private_key L key_file) ''failed to read private key'') (\<lambda>k.
           and_then (ok_or k (Transport ''no private key found in PEM file'')) (\<lambda>key.
             tls_err (with_single_cert L certs key) ''TLS server config error''))))"

text \<open>The loop over the attempts; the disk may change between them.  The result carries the number of pauses.\<close>

primrec pem_attempts ::
  "('cert, 'key, 'cfg) tls_lib \<Rightarrow> (nat \<Rightarrow> string \<Rightarrow> file_state) \<Rightarrow> string \<Rightarrow> string \<Rightarrow> nat \<Rightarrow> nat \<Rightarrow> cerror option \<Rightarrow> nat \<times> 'cfg result" where
  "pem_attempts L disk cert_path key_path max_attempts 0 last_err =
    (0, Err (case last_err of Some e \<Rightarrow> e | None \<Rightarrow> Transport ''no retry attempts made''))"
| "pem_attempts L disk cert_path key_path max_attempts (Suc n) last_err =
    (let attempt = max_attempts - n in
     if disk attempt cert_path = StatError \<or> disk attempt key_path = StatError then (0, Err (Transport ''permanent I/O error''))
     else case make_server_config_from_pem L (disk attempt) cert_path key_path of
       Ok cfg \<Rightarrow> (0, Ok cfg)
     | Err e \<Rightarrow>
         if attempt < max_attempts
         then (let (pauses, r) = pem_attempts L disk cert_path key_path max_attempts n (Some e) in (Suc pauses, r))
         else (0, Err (Transport ''failed to load TLS certs'')))"

definition load_pem_with_retry ::
  "('cert, 'key, 'cfg) tls_lib \<Rightarrow> (nat \<Rightarrow> string \<Rightarrow> file_state) \<Rightarrow> string \<Rightarrow> string \<Rightarrow> nat \<Rightarrow> nat \<times> 'cfg result" where
  "load_pem_with_retry L disk cert_path key_path max_attempts =
    pem_attempts L disk cert_path key_path max_attempts max_attempts None"

text \<open>The choice the gateway and the relay make at their start.\<close>

definition choose_tls ::
  "('cert, 'key, 'cfg) tls_lib \<Rightarrow> (nat \<Rightarrow> string \<Rightarrow> file_state) \<Rightarrow> 'cfg result \<Rightarrow> AppConfig \<Rightarrow> nat \<times> 'cfg result" where
  "choose_tls L disk self_signed cfg =
    (case (tls_cert_path cfg, tls_key_path cfg) of
       (Some cert, Some key) \<Rightarrow>
         if cert \<noteq> [] \<and> key \<noteq> [] then load_pem_with_retry L disk cert key 30 else (0, self_signed)
     | _ \<Rightarrow> (0, self_signed))"

lemma pem_attempts_finds:
  assumes "m < n" "n \<le> mx"
    and early: "\<And>a. mx - n < a \<Longrightarrow> a \<le> mx - n + m \<Longrightarrow> disk a c \<noteq> StatError \<and> disk a k \<noteq> StatError
         \<and> \<not> is_ok (make_server_config_from_pem L (disk a) c k)"
    and good: "disk (mx - n + Suc m) c \<noteq> StatError" "disk (mx - n + Suc m) k \<noteq> StatError"
      "make_server_config_from_pem L (disk (mx - n + Suc m)) c k = Ok cfg"
  shows "pem_attempts L disk c k mx n le = (m, Ok cfg)"
  using assms
proof (induction m arbitrary: n le)
  case 0
  then obtain n0 where "n = Suc n0" by (cases n) auto
  with 0 have "mx - n0 = mx - n + 1" by simp
  with 0 \<open>n = Suc n0\<close> show ?case by simp
next
  case (Suc m)
  then obtain n0 where n: "n = Suc n0" by (cases n) auto
  with Suc.prems have a: "mx - n0 = mx - n + 1" "mx - n0 < mx" by simp_all
  have f: "disk (mx - n0) c \<noteq> StatError" "disk (mx - n0) k \<noteq> StatError"
    "\<not> is_ok (make_server_config_from_pem L (disk (mx - n0)) c k)"
    using Suc.prems(3) [of "mx - n0"] a by simp_all
  then obtain e where e: "make_server_config_from_pem L (disk (mx - n0)) c k = Err e"
    by (cases "make_server_config_from_pem L (disk (mx - n0)) c k") auto
  have i: "mx - n0 + Suc m = mx - n + Suc (Suc m)" using a(1) by simp
  have "pem_attempts L disk c k mx n0 (Some e) = (m, Ok cfg)"
  proof (rule Suc.IH)
    show "m < n0" "n0 \<le> mx" using Suc.prems(1,2) n by simp_all
    show "disk b c \<noteq> StatError \<and> disk b k \<noteq> StatError \<and> \<not> is_ok (make_server_config_from_pem L (disk b) c k)"
      if "mx - n0 < b" "b \<le> mx - n0 + m" for b
      by (rule Suc.prems(3)) (use that a(1) in simp_all)
  qed (simp_all only: i Suc.prems(4-6) not_False_eq_True)
  with f e a n show ?case by simp
qed


section \<open>Secrets in log lines\<close>

primrec find_sub :: "string \<Rightarrow> string \<Rightarrow> nat option" where
  "find_sub p [] = (if p = [] then Some 0 else None)"
| "find_sub p (c # cs) = (if take (length p) (c # cs) = p then Some 0 else map_option Suc (find_sub p cs))"

definition redact_secret_url :: "string \<Rightarrow> string" where
  "redact_secret_url raw =
    (case find_sub ''://'' raw of
       None \<Rightarrow> raw
     | Some scheme_sep \<Rightarrow>
         let authority_start = scheme_sep + 3 in
         (case find_sub ''@'' (drop authority_start raw) of
            None \<Rightarrow> raw
          | Some m \<Rightarrow>
              let authority_end = authority_start + m; userinfo = take m (drop authority_start raw) in
              (case find_sub '':'' userinfo of
                 None \<Rightarrow> raw
               | Some password_sep \<Rightarrow>
                   take authority_start raw @ take password_sep userinfo @ '':***'' @ drop authority_end raw)))"

lemma find_sub_char: "c \<notin> set xs \<Longrightarrow> find_sub [c] (xs @ c # ys) = Some (length xs)"
  by (induction xs) auto

lemma find_sub_scheme: "CHR '':'' \<notin> set xs \<Longrightarrow> find_sub ''://'' (xs @ ''://'' @ ys) = Some (length xs)"
  by (induction xs) auto

text \<open>The password of a URL is replaced in the log, up to its first at sign; what follows an at sign inside the password is
  written out.\<close>

theorem redacted_password:
  assumes "CHR '':'' \<notin> set scheme" "CHR '':'' \<notin> set user" "CHR ''@'' \<notin> set user" "CHR ''@'' \<notin> set secret1"
  shows "redact_secret_url (scheme @ ''://'' @ user @ '':'' @ secret1 @ ''@'' @ rest) = scheme @ ''://'' @ user @ '':***@'' @ rest"
proof -
  let ?auth = "user @ CHR '':'' # secret1"
  have 1: "find_sub ''://'' (scheme @ ''://'' @ ?auth @ CHR ''@'' # rest) = Some (length scheme)" by (rule find_sub_scheme [OF assms(1)])
  have 2: "find_sub ''@'' (?auth @ CHR ''@'' # rest) = Some (length ?auth)" by (rule find_sub_char) (use assms in auto)
  have 3: "find_sub '':'' ?auth = Some (length user)" by (rule find_sub_char [OF assms(2)])
  have "redact_secret_url (scheme @ ''://'' @ ?auth @ CHR ''@'' # rest) = scheme @ ''://'' @ user @ '':***@'' @ rest"
    unfolding redact_secret_url_def 1 using 2 3 by (simp add: Let_def eval_nat_numeral)
  then show ?thesis by simp
qed

theorem redacted_password_witness:
  "redact_secret_url ''redis://:pass@word@redis:6379'' = ''redis://:***@word@redis:6379''"
  using redacted_password [of "''redis''" "[]" "''pass''" "''word@redis:6379''"] by simp

section \<open>Restarts\<close>

text \<open>C8. A signaling service that is started again, with its key files readable, has the same keys: it accepts the claim tokens
  it gave out before, and clients that know its verifying key accept its signatures.\<close>

theorem secrets_survive_restarts:
  assumes "crypto_ok C" "load_or_create_default i1 i2 fs = (fs1, Ok sr)" "io_read (fst j1)" "io_read (fst j2)"
    and "t \<le> now" "unat now \<le> unat t + unat age" "unat now + 60 < 2 ^ 64"
  shows "\<exists>sr'. load_or_create_default j1 j2 fs1 = (fs1, Ok sr')
     \<and> verify_claim_token C sr' now i (generate_claim_token C sr i t) age
     \<and> ed_verify C (signer_verifying_key C sr) (signed_inbox_data blob n i now) (sign_inbox_response C sr' blob n i now)"
proof -
  have "load_or_create_default j1 j2 fs1 = (fs1, Ok sr)"
    using load_or_create_stable [OF assms(2) [unfolded load_or_create_default_def] _ _ assms(3,4)]
    by (simp add: load_or_create_default_def temp_path_def)
  moreover have "ed_verify C (signer_verifying_key C sr) (signed_inbox_data blob n i now) (sign_inbox_response C sr blob n i now)"
    using assms(1) by (simp add: signer_verifying_key_def sign_inbox_response_def crypto_ok_def)
  ultimately show ?thesis using verify_own_token [OF assms(1,5-7)] by blast
qed

definition good_io :: key_io where
  "good_io = \<lparr>io_read = True, io_mkdir = True, io_open = True, io_write = None, io_sync = True, io_chmod = True,
     io_rename = True, io_remove = True, io_reread = True\<rparr>"

theorem secrets_survive_restarts_witness:
  "let fs1 = fst (load_or_create_default (good_io, replicate 32 1) (good_io, replicate 32 2) (\<lambda>_. None)) in
   \<exists>sr'. load_or_create_default (good_io, []) (good_io, []) fs1 = (fs1, Ok sr')
     \<and> verify_claim_token demo_crypto sr' 105 [7]
          (generate_claim_token demo_crypto \<lparr>signing_seed = replicate 32 1, hmac_secret = replicate 32 2\<rparr> [7] 100) 300
     \<and> ed_verify demo_crypto (signer_verifying_key demo_crypto \<lparr>signing_seed = replicate 32 1, hmac_secret = replicate 32 2\<rparr>)
          (signed_inbox_data [] 0 [7] 105) (sign_inbox_response demo_crypto sr' [] 0 [7] 105)"
proof -
  let ?fs1 = "fst (load_or_create_default (good_io, replicate 32 1) (good_io, replicate 32 2) (\<lambda>_. None))"
  have "load_or_create_default (good_io, replicate 32 1) (good_io, replicate 32 2) (\<lambda>_. None)
      = (?fs1, Ok \<lparr>signing_seed = replicate 32 1, hmac_secret = replicate 32 2\<rparr>)"
    by (simp add: load_or_create_default_def load_or_create_def load_or_create_secret_def read_secret_def good_io_def Let_def
        rename_or_reuse_def temp_path_def)
  from secrets_survive_restarts [OF demo_crypto_ok this, of "(good_io, [])" "(good_io, [])" 100 105 300 "[7]" "[]" 0]
  show ?thesis by (simp add: good_io_def Let_def)
qed

text \<open>C9. All starts of a service that succeed have the same secret.  But a first start that fails after it has created the
  temporary file leaves that file behind, and then no later start succeeds.\<close>

theorem failed_creation_blocks:
  assumes "load = load_or_create_secret \<or> load = load_or_create_onion_identity"
  shows "(Ok s1 \<in> set (snd (starts load path is fs)) \<and> Ok s2 \<in> set (snd (starts load path is fs)) \<longrightarrow> s1 = s2)
    \<and> (fs path = None \<and> io_mkdir io \<and> io_open io \<and> (io_write io \<noteq> None \<or> \<not> io_sync io \<or> \<not> io_chmod io \<or> \<not> io_rename io)
       \<longrightarrow> list_all (\<lambda>r. \<not> is_ok r) (snd (starts load path ((io, r) # is) fs)))"
proof (intro conjI impI)
  have l: "load = load_or_create_secret" using assms onion_identity_same by blast
  show "s1 = s2" if "Ok s1 \<in> set (snd (starts load path is fs)) \<and> Ok s2 \<in> set (snd (starts load path is fs))"
    using that sk.starts_agree unfolding l by blast
  assume a: "fs path = None \<and> io_mkdir io \<and> io_open io \<and> (io_write io \<noteq> None \<or> \<not> io_sync io \<or> \<not> io_chmod io \<or> \<not> io_rename io)"
  obtain fs1 res where e: "load_or_create_secret io r path fs = (fs1, res)" by fastforce
  have "half_created path fs1 \<and> \<not> is_ok res"
  proof (cases "fs (temp_path path) = None")
    case True
    with a e show ?thesis
      by (auto simp: load_or_create_secret_def read_secret_def Let_def rename_or_reuse_def temp_path_other half_created_def
          split: option.splits if_splits)
  next
    case False
    with a e show ?thesis by (auto simp: load_or_create_secret_def read_secret_def Let_def half_created_def)
  qed
  with sk.stuck_forever [of path fs1 "is"] e show "list_all (\<lambda>r. \<not> is_ok r) (snd (starts load path ((io, r) # is) fs))"
    by (simp add: l Let_def case_prod_beta)
qed

theorem failed_creation_blocks_witness:
  "list_all (\<lambda>r. \<not> is_ok r) (snd (starts load_or_create_secret ''k'' [(good_io\<lparr>io_sync := False\<rparr>, replicate 32 1), (good_io, replicate 32 2)]
     (\<lambda>_. None)))
   \<and> snd (starts load_or_create_secret ''k'' [(good_io, replicate 32 1), (good_io, replicate 32 2)] (\<lambda>_. None))
     = [Ok (replicate 32 1), Ok (replicate 32 1)]"
proof
  show "list_all (\<lambda>r. \<not> is_ok r) (snd (starts load_or_create_secret ''k''
      [(good_io\<lparr>io_sync := False\<rparr>, replicate 32 1), (good_io, replicate 32 2)] (\<lambda>_. None)))"
    using failed_creation_blocks [of load_or_create_secret "[]" "''k''" "[(good_io, replicate 32 2)]" "\<lambda>_. None" "[]"
        "good_io\<lparr>io_sync := False\<rparr>" "replicate 32 1"] by (simp add: good_io_def)
  show "snd (starts load_or_create_secret ''k'' [(good_io, replicate 32 1), (good_io, replicate 32 2)] (\<lambda>_. None))
     = [Ok (replicate 32 1), Ok (replicate 32 1)]"
    by (simp add: load_or_create_secret_def read_secret_def good_io_def Let_def rename_or_reuse_def temp_path_def)
qed


section \<open>What clients learn about the relay\<close>

text \<open>C24. Through every restart the relay keeps its onion key, and the signaling service hands exactly that key to the clients that
  ask for it, with the address the relay is configured to listen on.\<close>

theorem relay_key_reaches_clients:
  assumes "sig_ok E view" "relay_start E C cfg i fs store = (fs1, store1, Ok s)"
    and "relay_start E C cfg j fs1 store1 = (fs2, store2, Ok s')" "sig_store st = store2" "sg_pub_ok E (session_subject sid)"
  shows "s' = s \<and> handle_message E C sr inp ''signaling.transport_bootstrap'' (bus_msg E sid TransportBootstrap) st
    = (st\<lparr>sig_sent := sig_sent st @ [(session_subject sid, serialize (TransportBootstrapInfo (ascii (relay_addr cfg))
         (x25519_public C s) (signer_verifying_key C sr) 3))]\<rparr>, Ok ())"
proof -
  have l2: "load_or_create_onion_identity (fst j) (snd j) RELAY_IDENTITY_PATH fs1 = (fs2, Ok s')"
    using assms(3) by (auto simp: relay_start_def split: prod.splits result.splits)
  have "secret_present RELAY_IDENTITY_PATH s fs1"
    using relay_start_stored(2) [OF assms(1,2), where st = "\<lparr>sig_store = store1, sig_sent = []\<rparr>"] by simp
  from oi.kept [OF this, of "fst j" "snd j"] l2 have s: "s' = s" by simp
  have o: "open_envelope E (bus_msg E sid TransportBootstrap) = Ok (sid, serialize TransportBootstrap, TransportBootstrap)"
    by (rule open_bus_msg [OF assms(1)]) (simp add: msg_wf_def)
  have "or CAPABILITY_SIGNED_INBOX CAPABILITY_RELAY = 3" by (simp add: CAPABILITY_SIGNED_INBOX_def CAPABILITY_RELAY_def)
  with s show ?thesis
    by (simp add: handle_message_def handle_transport_bootstrap_def o relay_start_stored(1) [OF assms(1,3,4)] sig_publish_def
        assms(5) Let_def)
qed

theorem relay_key_reaches_clients_witness:
  "let (fs1, store1, r1) = relay_start demo_sig demo_crypto default_config (good_io, replicate 32 5) (\<lambda>_. None) (\<lambda>_. None);
       (fs2, store2, r2) = relay_start demo_sig demo_crypto default_config (good_io, replicate 32 6) fs1 store1
   in snd (handle_message demo_sig demo_crypto demo_signer \<lparr>in_now = 0, in_reply = None, in_link = []\<rparr>
        ''signaling.transport_bootstrap'' (bus_msg demo_sig 7 TransportBootstrap) (empty_state\<lparr>sig_store := store2\<rparr>)) = Ok ()
      \<and> sig_sent (fst (handle_message demo_sig demo_crypto demo_signer \<lparr>in_now = 0, in_reply = None, in_link = []\<rparr>
        ''signaling.transport_bootstrap'' (bus_msg demo_sig 7 TransportBootstrap) (empty_state\<lparr>sig_store := store2\<rparr>)))
      = [(session_subject 7, serialize (TransportBootstrapInfo (ascii ''0.0.0.0:9300'')
           (x25519_public demo_crypto (replicate 32 5)) (signer_verifying_key demo_crypto demo_signer) 3))]"
proof -
  let ?set = "\<lambda>s. r_set (sg_redis demo_sig) s bootstrap_key (to_text (sg_json demo_sig)
    (relay_bootstrap_json demo_crypto default_config (replicate 32 5)))"
  let ?fs = "(\<lambda>_. None)(RELAY_IDENTITY_PATH \<mapsto> replicate 32 5)" and ?e = "\<lambda>_. None"
  have l1: "load_or_create_onion_identity good_io (replicate 32 5) RELAY_IDENTITY_PATH ?e = (?fs, Ok (replicate 32 5))"
    by (simp add: onion_identity_same load_or_create_secret_def read_secret_def good_io_def Let_def rename_or_reuse_def temp_path_other fun_upd_twist)
  have l2: "load_or_create_onion_identity good_io (replicate 32 6) RELAY_IDENTITY_PATH ?fs = (?fs, Ok (replicate 32 5))"
    by (rule oi.readable) (simp_all add: secret_present_def good_io_def)
  have r: "relay_start demo_sig demo_crypto default_config (good_io, replicate 32 5) ?e ?e = (?fs, ?set ?e, Ok (replicate 32 5))"
    "relay_start demo_sig demo_crypto default_config (good_io, replicate 32 6) ?fs (?set ?e) = (?fs, ?set (?set ?e), Ok (replicate 32 5))"
    by (simp_all add: relay_start_def l1 l2)
  have "relay_addr default_config = ''0.0.0.0:9300''" "sg_pub_ok demo_sig (session_subject 7)"
    by (simp_all add: default_config_def demo_sig_def)
  with relay_key_reaches_clients [OF demo_sig_ok r, where st = "empty_state\<lparr>sig_store := ?set (?set ?e)\<rparr>" and sid = 7
      and sr = demo_signer and inp = "\<lparr>in_now = 0, in_reply = None, in_link = []\<rparr>"]
  show ?thesis by (simp add: r empty_state_def)
qed

section \<open>Waiting for certificates\<close>

text \<open>The certificate files may appear late: the loader pauses between the attempts and takes the files of the first attempt
  that finds them complete.  A file that exists but may not be read is not a permanent error for it: it is tried again
  until the attempts are used up.\<close>

theorem certificates_awaited:
  "(m < mx \<and> (\<forall>a\<in>{1..m}. disk a c \<noteq> StatError \<and> disk a k \<noteq> StatError \<and> \<not> is_ok (make_server_config_from_pem L (disk a) c k))
      \<and> disk (Suc m) c \<noteq> StatError \<and> disk (Suc m) k \<noteq> StatError \<and> make_server_config_from_pem L (disk (Suc m)) c k = Ok cfg
    \<longrightarrow> load_pem_with_retry L disk c k mx = (m, Ok cfg))
   \<and> ((\<forall>a. disk a c = Unreadable \<and> disk a k \<noteq> StatError) \<and> 0 < mx \<longrightarrow>
        load_pem_with_retry L disk c k mx = (mx - 1, Err (Transport ''failed to load TLS certs'')))"
proof (intro conjI impI)
  show "load_pem_with_retry L disk c k mx = (m, Ok cfg)"
    if a: "m < mx \<and> (\<forall>a\<in>{1..m}. disk a c \<noteq> StatError \<and> disk a k \<noteq> StatError \<and> \<not> is_ok (make_server_config_from_pem L (disk a) c k))
      \<and> disk (Suc m) c \<noteq> StatError \<and> disk (Suc m) k \<noteq> StatError \<and> make_server_config_from_pem L (disk (Suc m)) c k = Ok cfg"
    unfolding load_pem_with_retry_def by (rule pem_attempts_finds) (use a in \<open>simp_all add: Suc_le_eq\<close>)
  assume u: "(\<forall>a. disk a c = Unreadable \<and> disk a k \<noteq> StatError) \<and> 0 < mx"
  then have e: "make_server_config_from_pem L (disk a) c k = Err (Transport ''failed to open cert'')" for a
    by (simp add: make_server_config_from_pem_def open_file_def)
  have "pem_attempts L disk c k mx (Suc n) le = (n, Err (Transport ''failed to load TLS certs''))" if "n < mx" for n le
    using that by (induction n arbitrary: le) (use u e in simp_all)
  from this [of "mx - 1"] u show "load_pem_with_retry L disk c k mx = (mx - 1, Err (Transport ''failed to load TLS certs''))"
    by (simp add: load_pem_with_retry_def)
qed

definition demo_tls :: "(nat, nat, nat) tls_lib" where
  "demo_tls = \<lparr>pem_certs = (\<lambda>b. [Some (length b)]), pem_private_key = (\<lambda>b. Ok (Some (length b))),
     with_single_cert = (\<lambda>cs k. Ok (k + sum_list cs))\<rparr>"

theorem certificates_awaited_witness:
  "load_pem_with_retry demo_tls (\<lambda>a p. if a < 3 then NotFound else Readable [1, 2]) ''c'' ''k'' 30 = (2, Ok 4)
   \<and> load_pem_with_retry demo_tls (\<lambda>a p. if p = ''c'' then Unreadable else Readable [1]) ''c'' ''k'' 30
       = (29, Err (Transport ''failed to load TLS certs''))"
proof -
  let ?d = "\<lambda>a p. if a < (3 :: nat) then NotFound else Readable [1, 2]"
  have "\<forall>a\<in>{1..2}. \<not> is_ok (make_server_config_from_pem demo_tls (?d a) ''c'' ''k'')"
    by (simp add: make_server_config_from_pem_def open_file_def)
  moreover have "make_server_config_from_pem demo_tls (?d 3) ''c'' ''k'' = Ok 4"
    by (simp add: make_server_config_from_pem_def open_file_def demo_tls_def tls_err_def ok_or_def)
  ultimately show ?thesis
    using certificates_awaited [of 2 30 ?d "''c''" "''k''" demo_tls 4]
      certificates_awaited [of 0 30 "\<lambda>a p. if p = ''c'' then Unreadable else Readable [1]" "''c''" "''k''" demo_tls 4]
    by (simp add: eval_nat_numeral)
qed

end
