(* ===== verification/Pwa_Wire.thy ===== *)
theory Pwa_Wire
  imports Proto_Wire Service_Common
begin

text \<open>
  The wire format of the web client (\<^verbatim>\<open>clients/pwa/src/api/proto.ts\<close>), a second implementation of the protocol in TypeScript.
  A string of JavaScript is a list of UTF-16 code units; \<^verbatim>\<open>TextEncoder\<close> and \<^verbatim>\<open>TextDecoder\<close> convert it from and to UTF-8, replacing
  what is not well formed.  A number is a natural number, which is exact below \<^verbatim>\<open>2\<^sup>53\<close>.  An exception is \<^verbatim>\<open>None\<close>.
  The encoders agree with the serializer of the services, and the reader understands what the services write.
\<close>

section \<open>Strings\<close>

type_synonym jsstring = "u16 list"

definition REPLACEMENT :: nat where "REPLACEMENT = 0xFFFD"

definition high_surrogate :: "u16 \<Rightarrow> bool" where
  "high_surrogate u \<longleftrightarrow> 0xD800 \<le> unat u \<and> unat u < 0xDC00"

definition low_surrogate :: "u16 \<Rightarrow> bool" where
  "low_surrogate u \<longleftrightarrow> 0xDC00 \<le> unat u \<and> unat u < 0xE000"

fun code_points :: "jsstring \<Rightarrow> nat list" where
  "code_points [] = []"
| "code_points [u] = [if high_surrogate u \<or> low_surrogate u then REPLACEMENT else unat u]"
| "code_points (u # v # us) =
    (if high_surrogate u \<and> low_surrogate v
     then (0x10000 + (unat u - 0xD800) * 0x400 + (unat v - 0xDC00)) # code_points us
     else (if high_surrogate u \<or> low_surrogate u then REPLACEMENT else unat u) # code_points (v # us))"

definition code_units :: "nat list \<Rightarrow> jsstring" where
  "code_units cps = concat (map (\<lambda>c. if c < 0x10000 then [word_of_nat c]
     else [word_of_nat (0xD800 + (c - 0x10000) div 0x400), word_of_nat (0xDC00 + (c - 0x10000) mod 0x400)]) cps)"

definition utf8_bytes :: "nat \<Rightarrow> bytes" where
  "utf8_bytes c =
    (if c < 0x80 then [word_of_nat c]
     else if c < 0x800 then [word_of_nat (0xC0 + c div 64), word_of_nat (0x80 + c mod 64)]
     else if c < 0x10000 then [word_of_nat (0xE0 + c div 4096), word_of_nat (0x80 + c div 64 mod 64), word_of_nat (0x80 + c mod 64)]
     else [word_of_nat (0xF0 + c div 262144), word_of_nat (0x80 + c div 4096 mod 64), word_of_nat (0x80 + c div 64 mod 64),
           word_of_nat (0x80 + c mod 64)])"

definition text_encode :: "jsstring \<Rightarrow> bytes" where
  "text_encode s = concat (map utf8_bytes (code_points s))"

text \<open>The decoder of the encoding standard: how many bytes are still needed, the code point so far, and the range of the next
  byte.  A byte out of range ends the sequence with a replacement character and is looked at again.\<close>

function utf8_decode :: "nat \<Rightarrow> nat \<Rightarrow> nat \<Rightarrow> nat \<Rightarrow> bytes \<Rightarrow> nat list" where
  "utf8_decode needed cp lo hi [] = (if needed = 0 then [] else [REPLACEMENT])"
| "utf8_decode needed cp lo hi (b # bs) =
    (let n = unat b in
     if needed = 0 then
       if n < 0x80 then n # utf8_decode 0 0 0 0 bs
       else if 0xC2 \<le> n \<and> n \<le> 0xDF then utf8_decode 1 (n - 0xC0) 0x80 0xBF bs
       else if 0xE0 \<le> n \<and> n \<le> 0xEF then utf8_decode 2 (n - 0xE0) (if n = 0xE0 then 0xA0 else 0x80) (if n = 0xED then 0x9F else 0xBF) bs
       else if 0xF0 \<le> n \<and> n \<le> 0xF4 then utf8_decode 3 (n - 0xF0) (if n = 0xF0 then 0x90 else 0x80) (if n = 0xF4 then 0x8F else 0xBF) bs
       else REPLACEMENT # utf8_decode 0 0 0 0 bs
     else if n < lo \<or> hi < n then REPLACEMENT # utf8_decode 0 0 0 0 (b # bs)
     else if needed = 1 then (cp * 64 + (n - 0x80)) # utf8_decode 0 0 0 0 bs
     else utf8_decode (needed - 1) (cp * 64 + (n - 0x80)) 0x80 0xBF bs)"
  by pat_completeness auto

termination utf8_decode
  by (relation "measures [\<lambda>(needed, cp, lo, hi, bs). length bs, \<lambda>(needed, cp, lo, hi, bs). needed]") auto

text \<open>A byte order mark at the beginning is dropped.\<close>

definition text_decode :: "bytes \<Rightarrow> jsstring" where
  "text_decode bs = (let cps = utf8_decode 0 0 0 0 bs in
     code_units (if cps \<noteq> [] \<and> hd cps = 0xFEFF then tl cps else cps))"


subsection \<open>Text survives the wire\<close>

fun well_formed :: "jsstring \<Rightarrow> bool" where
  "well_formed [] \<longleftrightarrow> True"
| "well_formed [u] \<longleftrightarrow> \<not> high_surrogate u \<and> \<not> low_surrogate u"
| "well_formed (u # v # us) \<longleftrightarrow>
    (if high_surrogate u then low_surrogate v \<and> well_formed us else \<not> low_surrogate u \<and> well_formed (v # us))"

definition scalar :: "nat \<Rightarrow> bool" where
  "scalar c \<longleftrightarrow> c < 0xD800 \<or> 0xE000 \<le> c \<and> c < 0x110000"

lemma code_units_points: "well_formed s \<Longrightarrow> code_units (code_points s) = s"
proof (induction s rule: code_points.induct)
  case (2 u)
  have "unat u < 0x10000" using unsigned_less [of u, where ?'a = nat] by simp
  with 2 show ?case by (simp add: code_units_def)
next
  case (3 u v us)
  have b: "unat u < 0x10000" "unat v < 0x10000"
    using unsigned_less [of u, where ?'a = nat] unsigned_less [of v, where ?'a = nat] by simp_all
  show ?case
  proof (cases "high_surrogate u")
    case True
    with 3 have "code_units (code_points us) = us" "low_surrogate v" by simp_all
    then obtain k l where kl: "unat u = 0xD800 + k" "unat v = 0xDC00 + l" "l < 0x400"
      using True that [of "unat u - 0xD800" "unat v - 0xDC00"] unfolding high_surrogate_def low_surrogate_def by linarith
    have "word_of_nat (unat u) = u" "word_of_nat (unat v) = v" by simp_all
    then have "word_of_nat (0xD800 + k) = u" "word_of_nat (0xDC00 + l) = v" by (simp_all only: kl(1,2))
    with True kl \<open>low_surrogate v\<close> \<open>code_units (code_points us) = us\<close> show ?thesis
      by (simp add: code_units_def)
  next
    case False
    with 3 b show ?thesis by (simp add: code_units_def)
  qed
qed (simp add: code_units_def)

lemma code_points_scalar: "\<forall>c\<in>set (code_points s). scalar c"
proof (induction s rule: code_points.induct)
  case (2 u)
  then show ?case using unsigned_less [of u, where ?'a = nat]
    by (auto simp: scalar_def REPLACEMENT_def high_surrogate_def low_surrogate_def)
next
  case (3 u v us)
  show ?case
  proof (cases "high_surrogate u \<and> low_surrogate v")
    case True
    then have "scalar (0x10000 + (unat u - 0xD800) * 0x400 + (unat v - 0xDC00))"
      unfolding scalar_def high_surrogate_def low_surrogate_def by linarith
    with True 3(1) show ?thesis by simp
  next
    case False
    have "scalar (if high_surrogate u \<or> low_surrogate u then REPLACEMENT else unat u)"
      using unsigned_less [of u, where ?'a = nat] by (auto simp: scalar_def REPLACEMENT_def high_surrogate_def low_surrogate_def)
    with False 3(2) show ?thesis by (auto simp del: de_Morgan_disj)
  qed
qed simp

lemma unat_byte: "k < 256 \<Longrightarrow> unat (word_of_nat k :: u8) = k"
  by (simp add: unsigned_of_nat take_bit_eq_mod)

lemma utf8_decode_2:
  assumes "2 \<le> x" "x < 32" "b < 64" "unat p = 0xC0 + x" "unat q = 0x80 + b"
  shows "utf8_decode 0 cp lo hi (p # q # r) = (x * 64 + b) # utf8_decode 0 0 0 0 r"
  using assms by (simp add: Let_def)

lemma utf8_decode_3:
  assumes "y < 16" "a < 64" "b < 64" "y = 0 \<Longrightarrow> 32 \<le> a" "y = 13 \<Longrightarrow> a < 32"
    and "unat p = 0xE0 + y" "unat q = 0x80 + a" "unat s = 0x80 + b"
  shows "utf8_decode 0 cp lo hi (p # q # s # r) = ((y * 64 + a) * 64 + b) # utf8_decode 0 0 0 0 r"
proof -
  have "\<not> 0x80 + a < (if 0xE0 + y = 0xE0 then 0xA0 else 0x80)" "\<not> (if 0xE0 + y = 0xED then 0x9F else 0xBF) < 0x80 + a"
    using assms by auto
  with assms(1-3,6-) show ?thesis by (simp add: Let_def)
qed

lemma utf8_decode_4:
  assumes "z < 5" "a < 64" "b < 64" "d < 64" "z = 0 \<Longrightarrow> 16 \<le> a" "z = 4 \<Longrightarrow> a < 16"
    and "unat p = 0xF0 + z" "unat q = 0x80 + a" "unat s = 0x80 + b" "unat t = 0x80 + d"
  shows "utf8_decode 0 cp lo hi (p # q # s # t # r) = (((z * 64 + a) * 64 + b) * 64 + d) # utf8_decode 0 0 0 0 r"
proof -
  have "\<not> 0x80 + a < (if 0xF0 + z = 0xF0 then 0x90 else 0x80)" "\<not> (if 0xF0 + z = 0xF4 then 0x8F else 0xBF) < 0x80 + a"
    using assms by auto
  with assms(1-4,7-) show ?thesis by (simp add: Let_def)
qed


lemma utf8_decode_bytes:
  assumes "scalar c"
  shows "utf8_decode 0 cp lo hi (utf8_bytes c @ r) = c # utf8_decode 0 0 0 0 r"
proof -
  have cs: "c < 0x80 \<or> 0x80 \<le> c \<and> c < 0x800 \<or> 0x800 \<le> c \<and> c < 0x10000 \<or> 0x10000 \<le> c \<and> c < 0x110000"
    using assms unfolding scalar_def by linarith
  consider "c < 0x80" | "0x80 \<le> c" "c < 0x800" | "0x800 \<le> c" "c < 0x10000" | "0x10000 \<le> c" "c < 0x110000"
    using cs by blast
  note split = this
  define x y z a b d where defs: "x = c div 64" "y = x div 64" "z = y div 64" "a = y mod 64" "b = x mod 64" "d = c mod 64"
  have e: "c = 64 * x + d" "x = 64 * y + b" "y = 64 * z + a" and l: "d < 64" "b < 64" "a < 64" by (simp_all add: defs)
  have u: "c div 4096 = y" "c div 262144 = z" "c div 64 = x" "c mod 64 = d" "x mod 64 = b" "y mod 64 = a"
    by (simp_all add: defs div_mult2_eq [symmetric])
  from split show ?thesis
  proof cases
    case 1
    then show ?thesis by (simp add: utf8_bytes_def unat_byte Let_def)
  next
    case 2
    then have x: "2 \<le> x" "x < 32" using e l by linarith+
    have "utf8_bytes c = [word_of_nat (0xC0 + x), word_of_nat (0x80 + d)]" using 2 by (simp add: utf8_bytes_def u)
    moreover have "x * 64 + d = c" using e(1) by linarith
    ultimately show ?thesis using utf8_decode_2 [OF x l(1) unat_byte unat_byte, of cp lo hi r] x(2) l(1) by (simp del: utf8_decode.simps of_nat_add)
  next
    case 3
    have y: "y < 16" "y = 0 \<Longrightarrow> 32 \<le> b" using 3 e l by linarith+
    have "y = 13 \<Longrightarrow> b < 32" using 3 e l assms unfolding scalar_def by linarith
    note dec = utf8_decode_3 [OF y(1) l(2,1) y(2) this unat_byte unat_byte unat_byte, of cp lo hi r]
    have "utf8_bytes c = [word_of_nat (0xE0 + y), word_of_nat (0x80 + b), word_of_nat (0x80 + d)]"
      using 3 by (simp add: utf8_bytes_def u)
    moreover have "(y * 64 + b) * 64 + d = c" using e(1,2) by (simp add: algebra_simps)
    ultimately show ?thesis using dec y(1) l by (simp del: utf8_decode.simps of_nat_add)
  next
    case 4
    have z: "z < 5" "z = 0 \<Longrightarrow> 16 \<le> a" "z = 4 \<Longrightarrow> a < 16" using 4 e l by linarith+
    have "utf8_bytes c = [word_of_nat (0xF0 + z), word_of_nat (0x80 + a), word_of_nat (0x80 + b), word_of_nat (0x80 + d)]"
      using 4 by (simp add: utf8_bytes_def u)
    moreover have "((z * 64 + a) * 64 + b) * 64 + d = c" using e by (simp add: algebra_simps)
    ultimately show ?thesis using utf8_decode_4 [OF z(1) l(3,2,1) z(2,3) unat_byte unat_byte unat_byte unat_byte, of cp lo hi r] z(1) l
      by (simp del: utf8_decode.simps of_nat_add)
  qed
qed

lemma utf8_decode_encode: "\<forall>c\<in>set cps. scalar c \<Longrightarrow> utf8_decode 0 a b d (concat (map utf8_bytes cps)) = cps"
  by (induction cps arbitrary: a b d) (simp_all add: utf8_decode_bytes)

lemma text_decode_encode:
  assumes "well_formed s" "s \<noteq> [] \<Longrightarrow> hd s \<noteq> 0xFEFF"
  shows "text_decode (text_encode s) = s"
proof -
  have d: "utf8_decode 0 0 0 0 (text_encode s) = code_points s"
    unfolding text_encode_def by (rule utf8_decode_encode [OF code_points_scalar])
  have "code_points s = [] \<or> hd (code_points s) \<noteq> 0xFEFF"
  proof (cases s rule: code_points.cases)
    case (2 u)
    then show ?thesis using assms by (auto simp: REPLACEMENT_def word_unat_eq_iff)
  next
    case (3 u v us)
    then show ?thesis using assms by (auto simp: REPLACEMENT_def word_unat_eq_iff)
  qed simp
  then show ?thesis using code_units_points [OF assms(1)] by (auto simp: text_decode_def d Let_def)
qed


section \<open>Writing\<close>

record Writer =
  parts :: "bytes list"
  wlen :: nat

definition writer_new :: Writer where
  "writer_new = \<lparr>parts = [], wlen = 0\<rparr>"

definition w_push :: "bytes \<Rightarrow> Writer \<Rightarrow> Writer" where
  "w_push b w = w\<lparr>parts := parts w @ [b], wlen := wlen w + length b\<rparr>"

definition w_u32 :: "nat \<Rightarrow> Writer \<Rightarrow> Writer" where
  "w_u32 v = w_push (u32_le (word_of_nat v))"

text \<open>Two halves; the bitwise conjunction yields the low half as a signed number, which is stored modulo \<^verbatim>\<open>2\<^sup>32\<close>.\<close>

definition w_u64 :: "nat \<Rightarrow> Writer \<Rightarrow> Writer" where
  "w_u64 v = w_push (u32_le (word_of_int (signed_take_bit 31 (int v))) @ u32_le (word_of_nat (v div 0x100000000)))"

definition w_bytes :: "bytes \<Rightarrow> Writer \<Rightarrow> Writer" where
  "w_bytes data w =
    (let w1 = w_push data (w_u32 (length data) w); pad = (4 - length data mod 4) mod 4
     in if pad > 0 then w_push (replicate pad 0) w1 else w1)"

definition w_string :: "jsstring \<Rightarrow> Writer \<Rightarrow> Writer" where
  "w_string s = w_bytes (text_encode s)"

text \<open>The parts are copied one after the other into an array of zeros.\<close>

definition w_build :: "Writer \<Rightarrow> bytes" where
  "w_build w = fst (fold (\<lambda>p (out, offset). (take offset out @ p @ drop (offset + length p) out, offset + length p)) (parts w)
     (replicate (wlen w) 0, 0))"

definition encodeSessionInit :: "bytes \<Rightarrow> bytes \<Rightarrow> bytes" where
  "encodeSessionInit clientId nonce = w_build (w_bytes nonce (w_bytes clientId (w_u32 0xA1000001 writer_new)))"

definition encodeSignalRequestPeer :: "jsstring \<Rightarrow> bytes" where
  "encodeSignalRequestPeer linkId = w_build (w_string linkId (w_u32 0xB1000001 writer_new))"

definition encodeKeysGetPrekeys :: "bytes \<Rightarrow> bytes" where
  "encodeKeysGetPrekeys peerId = w_build (w_bytes peerId (w_u32 0xB2000002 writer_new))"

definition encodeChatSend :: "bytes \<Rightarrow> bytes \<Rightarrow> bytes \<Rightarrow> nat \<Rightarrow> bytes" where
  "encodeChatSend peerId ciphertext ratchetKey msgNo =
    w_build (w_u32 msgNo (w_bytes ratchetKey (w_bytes ciphertext (w_bytes peerId (w_u32 0xC1000001 writer_new)))))"

definition encodeFileOffer :: "bytes \<Rightarrow> bytes \<Rightarrow> jsstring \<Rightarrow> nat \<Rightarrow> nat \<Rightarrow> bytes \<Rightarrow> nat \<Rightarrow> bytes" where
  "encodeFileOffer peerId fileId name fsize chunks hash compressed =
    w_build (w_u32 compressed (w_bytes hash (w_u32 chunks (w_u64 fsize (w_string name (w_bytes fileId (w_bytes peerId
      (w_u32 0xD1000001 writer_new))))))))"

definition encodeFileAccept :: "bytes \<Rightarrow> bytes \<Rightarrow> bytes" where
  "encodeFileAccept peerId fileId = w_build (w_bytes fileId (w_bytes peerId (w_u32 0xD1000002 writer_new)))"

definition encodeFileChunk :: "bytes \<Rightarrow> bytes \<Rightarrow> nat \<Rightarrow> bytes \<Rightarrow> bytes \<Rightarrow> bytes \<Rightarrow> nat \<Rightarrow> bytes" where
  "encodeFileChunk peerId fileId index data hash ratchetKey msgNo =
    w_build (w_u32 msgNo (w_bytes ratchetKey (w_bytes hash (w_bytes data (w_u32 index (w_bytes fileId (w_bytes peerId
      (w_u32 0xD1000003 writer_new))))))))"

definition encodeFileComplete :: "bytes \<Rightarrow> bytes \<Rightarrow> bytes" where
  "encodeFileComplete peerId fileId = w_build (w_bytes fileId (w_bytes peerId (w_u32 0xD1000004 writer_new)))"

definition encodeInboxFetch :: "bytes \<Rightarrow> bytes" where
  "encodeInboxFetch inboxId = w_build (w_bytes inboxId (w_u32 0xC2000002 writer_new))"

definition encodeInboxStore :: "bytes \<Rightarrow> bytes \<Rightarrow> bytes" where
  "encodeInboxStore inboxId ciphertext = w_build (w_bytes ciphertext (w_bytes inboxId (w_u32 0xC2000001 writer_new)))"

definition encodeFileChunkAck :: "bytes \<Rightarrow> bytes \<Rightarrow> nat \<Rightarrow> bytes" where
  "encodeFileChunkAck peerId fileId index =
    w_build (w_u32 index (w_bytes fileId (w_bytes peerId (w_u32 0xD1000005 writer_new))))"

section \<open>Reading\<close>

text \<open>The state of a reader is the data from its offset on.  Reading a number beyond the end throws; a slice beyond the end is
  shorter than asked for.\<close>

definition rd_u32 :: "bytes \<Rightarrow> (nat \<times> bytes) option" where
  "rd_u32 r = (if length r < 4 then None else Some (unat (from_le (take 4 r) :: u32), drop 4 r))"

definition rd_u64 :: "bytes \<Rightarrow> (nat \<times> bytes) option" where
  "rd_u64 r = (if length r < 8 then None
    else Some (unat (from_le (take 4 (drop 4 r)) :: u32) * 0x100000000 + unat (from_le (take 4 r) :: u32), drop 8 r))"

definition rd_bytes :: "bytes \<Rightarrow> (bytes \<times> bytes) option" where
  "rd_bytes r = Option.bind (rd_u32 r) (\<lambda>(len, r1). Some (take len r1, drop (len + (4 - len mod 4) mod 4) r1))"

definition rd_string :: "bytes \<Rightarrow> (jsstring \<times> bytes) option" where
  "rd_string r = map_option (\<lambda>(b, r1). (text_decode b, r1)) (rd_bytes r)"

datatype ProtoMessage =
    PSessionInit bytes bytes
  | PSessionAck bytes nat
  | PSignalRequestPeer jsstring
  | PChatSend bytes bytes bytes nat
  | PFileOffer bytes bytes jsstring nat nat bytes nat
  | PFileAccept bytes bytes
  | PFileChunk bytes bytes nat bytes bytes bytes nat
  | PFileComplete bytes bytes
  | PFileChunkAck bytes bytes nat
  | PInboxMessages bytes nat
  | PUnknown nat

definition pwa_dispatch :: "bytes \<Rightarrow> ProtoMessage option" where
  "pwa_dispatch data =
    (if length data < 4 then Some (PUnknown 0)
     else Option.bind (rd_u32 data) (\<lambda>(cid, r).
      if cid = 0xA1000001 then
        Option.bind (rd_bytes r) (\<lambda>(a, r). Option.bind (rd_bytes r) (\<lambda>(b, r). Some (PSessionInit a b)))
      else if cid = 0xA1000002 then
        Option.bind (rd_bytes r) (\<lambda>(a, r). Option.bind (rd_u64 r) (\<lambda>(t, r). Some (PSessionAck a t)))
      else if cid = 0xB1000001 then Option.bind (rd_string r) (\<lambda>(s, r). Some (PSignalRequestPeer s))
      else if cid = 0xC1000001 then
        Option.bind (rd_bytes r) (\<lambda>(p, r). Option.bind (rd_bytes r) (\<lambda>(c, r). Option.bind (rd_bytes r) (\<lambda>(k, r).
        Option.bind (rd_u32 r) (\<lambda>(n, r). Some (PChatSend p c k n)))))
      else if cid = 0xD1000001 then
        Option.bind (rd_bytes r) (\<lambda>(p, r). Option.bind (rd_bytes r) (\<lambda>(f, r). Option.bind (rd_string r) (\<lambda>(n, r).
        Option.bind (rd_u64 r) (\<lambda>(s, r). Option.bind (rd_u32 r) (\<lambda>(c, r). Option.bind (rd_bytes r) (\<lambda>(h, r).
        Option.bind (rd_u32 r) (\<lambda>(z, r). Some (PFileOffer p f n s c h z))))))))
      else if cid = 0xD1000002 then
        Option.bind (rd_bytes r) (\<lambda>(p, r). Option.bind (rd_bytes r) (\<lambda>(f, r). Some (PFileAccept p f)))
      else if cid = 0xD1000003 then
        Option.bind (rd_bytes r) (\<lambda>(p, r). Option.bind (rd_bytes r) (\<lambda>(f, r). Option.bind (rd_u32 r) (\<lambda>(i, r).
        Option.bind (rd_bytes r) (\<lambda>(d, r). Option.bind (rd_bytes r) (\<lambda>(h, r). Option.bind (rd_bytes r) (\<lambda>(k, r).
        Option.bind (rd_u32 r) (\<lambda>(n, r). Some (PFileChunk p f i d h k n))))))))
      else if cid = 0xD1000004 then
        Option.bind (rd_bytes r) (\<lambda>(p, r). Option.bind (rd_bytes r) (\<lambda>(f, r). Some (PFileComplete p f)))
      else if cid = 0xD1000005 then
        Option.bind (rd_bytes r) (\<lambda>(p, r). Option.bind (rd_bytes r) (\<lambda>(f, r). Option.bind (rd_u32 r) (\<lambda>(i, r).
        Some (PFileChunkAck p f i))))
      else if cid = 0xC2000003 then
        Option.bind (rd_bytes r) (\<lambda>(b, r). Option.bind (rd_u32 r) (\<lambda>(n, r). Some (PInboxMessages b n)))
      else Some (PUnknown cid)))"


section \<open>The writer agrees with the services\<close>

definition w_contents :: "Writer \<Rightarrow> bytes" where
  "w_contents w = concat (parts w)"

definition writer_ok :: "Writer \<Rightarrow> bool" where
  "writer_ok w \<longleftrightarrow> wlen w = length (w_contents w)"

lemma fold_parts:
  "n = length (concat ps) \<Longrightarrow>
   fst (fold (\<lambda>p (out, offset). (take offset out @ p @ drop (offset + length p) out, offset + length p)) ps (pre @ replicate n (0 :: u8), length pre))
    = pre @ concat ps"
proof (induction ps arbitrary: pre n)
  case (Cons p ps)
  have "take (length pre) (pre @ replicate n 0) @ p @ drop (length pre + length p) (pre @ replicate n 0)
      = (pre @ p) @ replicate (length (concat ps)) (0 :: u8)"
    using Cons.prems by simp
  with Cons.IH [OF refl, of "pre @ p"] show ?case by simp
qed simp

lemma w_build_contents: "writer_ok w \<Longrightarrow> w_build w = w_contents w"
  using fold_parts [of "wlen w" "parts w" "[]"] by (simp add: w_build_def writer_ok_def w_contents_def)

lemma push_contents [simp]: "w_contents (w_push b w) = w_contents w @ b" "writer_ok w \<Longrightarrow> writer_ok (w_push b w)"
  by (simp_all add: w_push_def w_contents_def writer_ok_def)

lemma new_contents [simp]: "w_contents writer_new = []" "writer_ok writer_new"
  by (simp_all add: writer_new_def w_contents_def writer_ok_def)

lemma u32_contents [simp]: "w_contents (w_u32 v w) = w_contents w @ u32_le (word_of_nat v)" "writer_ok w \<Longrightarrow> writer_ok (w_u32 v w)"
  by (simp_all add: w_u32_def)

lemma bytes_contents [simp]: "w_contents (w_bytes b w) = w_contents w @ encode_bytes [] b" "writer_ok w \<Longrightarrow> writer_ok (w_bytes b w)"
  by (simp_all add: w_bytes_def Let_def encode_bytes_def pad4_def)

lemma string_contents [simp]: "w_contents (w_string s w) = w_contents w @ encode_string [] (text_encode s)" "writer_ok w \<Longrightarrow> writer_ok (w_string s w)"
  by (simp_all add: w_string_def encode_string_def)

lemma nat_le_split: "nat_le (m + n) k = nat_le m k @ nat_le n (k div 256 ^ m)"
  by (induction m arbitrary: k) (simp_all add: div_mult2_eq)

lemma nat_le_mod: "nat_le n (k mod 256 ^ n) = nat_le n k"
proof (induction n arbitrary: k)
  case (Suc n)
  have "k mod (256 * 256 ^ n) div 256 = k div 256 mod 256 ^ n" by (simp add: mod_mult2_eq)
  moreover have "word_of_nat (k mod (256 * 256 ^ n)) = (word_of_nat k :: u8)"
    by (simp add: word_of_nat_eq_iff take_bit_eq_mod mod_mod_cancel)
  ultimately show ?case using Suc.IH by simp
qed simp

lemma u64_halves: "u64_le (word_of_nat v) = u32_le (word_of_nat v) @ u32_le (word_of_nat (v div 0x100000000))"
proof -
  have "u64_le (word_of_nat v) = nat_le (4 + 4) v"
    using nat_le_mod [of 8 v] by (simp add: to_le_def unsigned_of_nat take_bit_eq_mod)
  moreover have "u32_le (word_of_nat k) = nat_le 4 k" for k
    using nat_le_mod [of 4 k] by (simp add: to_le_def unsigned_of_nat take_bit_eq_mod)
  ultimately show ?thesis unfolding nat_le_split by simp
qed

lemma u64_contents [simp]: "w_contents (w_u64 v w) = w_contents w @ u64_le (word_of_nat v)" "writer_ok w \<Longrightarrow> writer_ok (w_u64 v w)"
proof -
  have "(word_of_int (signed_take_bit 31 (int v)) :: u32) = word_of_nat v"
  proof (rule bit_word_eqI)
    fix n
    assume "n < LENGTH(32)"
    then have "min n 31 = n" by simp
    then show "bit (word_of_int (signed_take_bit 31 (int v)) :: u32) n = bit (word_of_nat v :: u32) n"
      by (simp add: bit_simps bit_of_nat_iff_bit)
  qed
  then show "w_contents (w_u64 v w) = w_contents w @ u64_le (word_of_nat v)" by (simp add: w_u64_def u64_halves)
  show "writer_ok w \<Longrightarrow> writer_ok (w_u64 v w)" by (simp add: w_u64_def)
qed

lemma pwa_encoders:
  "encodeSessionInit a b = serialize (SessionInit a b)"
  "encodeSignalRequestPeer s = serialize (SignalRequestPeer (text_encode s))"
  "encodeKeysGetPrekeys a = serialize (KeysGetPrekeys a)"
  "encodeChatSend a b c n = serialize (ChatSend a b c (word_of_nat n))"
  "encodeFileOffer a b s sz n c z = serialize (FileOffer a b (text_encode s) (word_of_nat sz) (word_of_nat n) c (word_of_nat z))"
  "encodeFileAccept a b = serialize (FileAccept a b)"
  "encodeFileChunk a b n d h c z = serialize (FileChunk a b (word_of_nat n) d h c (word_of_nat z))"
  "encodeFileComplete a b = serialize (FileComplete a b)"
  "encodeInboxFetch a = serialize (InboxFetch a)"
  "encodeInboxStore a b = serialize (InboxStore a b)"
  "encodeFileChunkAck a b n = serialize (FileChunkAck a b (word_of_nat n))"
  by (simp_all add: encodeSessionInit_def encodeSignalRequestPeer_def encodeKeysGetPrekeys_def encodeChatSend_def encodeFileOffer_def
      encodeFileAccept_def encodeFileChunk_def encodeFileComplete_def encodeInboxFetch_def encodeInboxStore_def encodeFileChunkAck_def
      w_build_contents serialize_def serialize_struct_def)

section \<open>The reader understands the services\<close>

lemma rd_u32_put: "rd_u32 (u32_le v @ r) = Some (unat v, r)"
  using u32le.dec_take [of v r] by (simp add: rd_u32_def)

lemma rd_bytes_put: "fits_u32 b \<Longrightarrow> rd_bytes (encode_bytes [] b @ r) = Some (b, r)"
  by (simp add: rd_bytes_def encode_bytes_def rd_u32_put fits_u32_def unsigned_of_nat take_bit_eq_mod pad4_def)

lemma rd_string_put: "fits_u32 s \<Longrightarrow> rd_string (encode_string [] s @ r) = Some (text_decode s, r)"
  by (simp add: rd_string_def encode_string_def rd_bytes_put)

lemma rd_u64_put: "rd_u64 (u64_le v @ r) = Some (unat v, r)"
proof -
  have l: "unat v < 2 ^ 64" using unsigned_less [of v, where ?'a = nat] by simp
  have h: "u64_le v = u32_le (word_of_nat (unat v)) @ u32_le (word_of_nat (unat v div 0x100000000))"
    using u64_halves [of "unat v"] by simp
  have "unat (from_le (take 4 (u64_le v @ r)) :: u32) = unat v mod 2 ^ 32"
    "unat (from_le (take 4 (drop 4 (u64_le v @ r))) :: u32) = unat v div 2 ^ 32"
    using l unfolding h by (simp_all add: u32le.dec_enc unsigned_of_nat unsigned_ucast_eq take_bit_eq_mod less_mult_imp_div_less)
  then show ?thesis by (simp add: rd_u64_def)
qed

definition pwa_view :: "Message \<Rightarrow> ProtoMessage" where
  "pwa_view m = (case m of
      SessionInit a b \<Rightarrow> PSessionInit a b
    | SessionAck a t \<Rightarrow> PSessionAck a (unat t)
    | SignalRequestPeer s \<Rightarrow> PSignalRequestPeer (text_decode s)
    | ChatSend p c k n \<Rightarrow> PChatSend p c k (unat n)
    | FileOffer p f n s c h z \<Rightarrow> PFileOffer p f (text_decode n) (unat s) (unat c) h (unat z)
    | FileAccept p f \<Rightarrow> PFileAccept p f
    | FileChunk p f i d h k n \<Rightarrow> PFileChunk p f (unat i) d h k (unat n)
    | FileComplete p f \<Rightarrow> PFileComplete p f
    | FileChunkAck p f i \<Rightarrow> PFileChunkAck p f (unat i)
    | InboxMessages b n \<Rightarrow> PInboxMessages b (unat n)
    | _ \<Rightarrow> PUnknown (unat (fst (message_fields m))))"

lemma pwa_dispatch_serialize: "msg_wf m \<Longrightarrow> pwa_dispatch (serialize m @ rest) = Some (pwa_view m)"
  by (cases m) (simp_all add: pwa_dispatch_def serialize_def serialize_struct_def rd_u32_put rd_bytes_put rd_string_put rd_u64_put
      pwa_view_def msg_wf_def)




section \<open>Hexadecimal\<close>

definition js_digit :: "nat \<Rightarrow> u16" where
  "js_digit n = word_of_nat (if n < 10 then 48 + n else 87 + n)"

definition hexEncode :: "bytes \<Rightarrow> jsstring" where
  "hexEncode data = concat (map (\<lambda>b. [js_digit (unat b div 16), js_digit (unat b mod 16)]) data)"

definition js_space :: "u16 \<Rightarrow> bool" where
  "js_space u \<longleftrightarrow> u \<in> set [9, 10, 11, 12, 13, 32, 0xA0, 0x1680, 0x2000, 0x2001, 0x2002, 0x2003, 0x2004, 0x2005, 0x2006, 0x2007,
     0x2008, 0x2009, 0x200A, 0x2028, 0x2029, 0x202F, 0x205F, 0x3000, 0xFEFF]"

definition js_hex_value :: "u16 \<Rightarrow> nat option" where
  "js_hex_value u =
    (if 48 \<le> u \<and> u \<le> 57 then Some (unat u - 48)
     else if 97 \<le> u \<and> u \<le> 102 then Some (unat u - 87)
     else if 65 \<le> u \<and> u \<le> 70 then Some (unat u - 55) else None)"

text \<open>\<^verbatim>\<open>parseInt(s, 16)\<close>: leading white space, a sign and a prefix \<^verbatim>\<open>0x\<close> are skipped, and the digits up to the first other character
  count; \<^verbatim>\<open>None\<close> is not a number.\<close>

definition parse_int16 :: "jsstring \<Rightarrow> int option" where
  "parse_int16 s0 =
    (let s1 = dropWhile js_space s0;
         neg = (s1 \<noteq> [] \<and> hd s1 = 45);
         s2 = (if s1 \<noteq> [] \<and> (hd s1 = 43 \<or> hd s1 = 45) then tl s1 else s1);
         s3 = (if take 2 s2 = [48, 120] \<or> take 2 s2 = [48, 88] then drop 2 s2 else s2);
         ds = takeWhile (\<lambda>u. js_hex_value u \<noteq> None) s3;
         v = fold (\<lambda>u a. a * 16 + int (the (js_hex_value u))) ds 0
     in if ds = [] then None else Some (if neg then - v else v))"

text \<open>A pair that is not a number is stored as zero, and an odd character at the end is dropped.\<close>

definition hexDecode :: "jsstring \<Rightarrow> bytes" where
  "hexDecode hx = map (\<lambda>i. case parse_int16 (take 2 (drop (2 * i) hx)) of None \<Rightarrow> 0 | Some v \<Rightarrow> word_of_int v) [0..<length hx div 2]"

lemma digit_facts:
  "n < 16 \<Longrightarrow> js_hex_value (js_digit n) = Some n \<and> \<not> js_space (js_digit n) \<and> js_digit n \<notin> {43, 45, 88, 120}"
proof -
  assume "n < 16"
  then have "n \<in> set [0..<16]" by simp
  moreover have "\<forall>n\<in>set [0..<16]. js_hex_value (js_digit n) = Some n" by code_simp
  moreover have "\<forall>n\<in>set [0..<16]. \<not> js_space (js_digit n)" by code_simp
  moreover have "\<forall>n\<in>set [0..<16]. js_digit n \<noteq> 43 \<and> js_digit n \<noteq> 45 \<and> js_digit n \<noteq> 88 \<and> js_digit n \<noteq> 120" by code_simp
  ultimately show ?thesis by blast
qed

lemma parse_digits: "h < 16 \<Longrightarrow> l < 16 \<Longrightarrow> parse_int16 [js_digit h, js_digit l] = Some (int (16 * h + l))"
  using digit_facts [of h] digit_facts [of l] by (simp add: parse_int16_def Let_def)

lemma drop_hexEncode: "drop (2 * i) (hexEncode d) = hexEncode (drop i d)"
proof (induction d arbitrary: i)
  case (Cons b d)
  then show ?case by (cases i) (simp_all add: hexEncode_def)
qed (simp add: hexEncode_def)

lemma length_hexEncode [simp]: "length (hexEncode d) = 2 * length d"
  by (induction d) (simp_all add: hexEncode_def)

lemma hex_roundtrip: "hexDecode (hexEncode d) = d"
proof (rule nth_equalityI)
  show "length (hexDecode (hexEncode d)) = length d" by (simp add: hexDecode_def)
  fix i
  assume "i < length (hexDecode (hexEncode d))"
  then have i: "i < length d" by (simp add: hexDecode_def)
  let ?h = "unat (d ! i) div 16" and ?l = "unat (d ! i) mod 16"
  have "unat (d ! i) < 256" using unsigned_less [of "d ! i", where ?'a = nat] by simp
  then have "parse_int16 [js_digit ?h, js_digit ?l] = Some (int (16 * ?h + ?l))" by (intro parse_digits) (simp_all add: less_mult_imp_div_less)
  moreover have "take 2 (drop (2 * i) (hexEncode d)) = [js_digit ?h, js_digit ?l]"
    unfolding drop_hexEncode using i by (simp add: Cons_nth_drop_Suc [symmetric] hexEncode_def)
  ultimately show "hexDecode (hexEncode d) ! i = d ! i" using i by (simp add: hexDecode_def word_of_int_uint)
qed

lemma hexEncode_inject: "hexEncode a = hexEncode b \<longleftrightarrow> a = b"
  by (metis hex_roundtrip)

text \<open>An answer in JSON is never taken for a message: its first byte is not that of any constructor.\<close>

lemma json_cid: "x mod 256 = (0x7B :: nat) \<Longrightarrow> x \<noteq> 0xA1000001 \<and> x \<noteq> 0xA1000002 \<and> x \<noteq> 0xB1000001 \<and> x \<noteq> 0xC1000001 \<and> x \<noteq> 0xD1000001
    \<and> x \<noteq> 0xD1000002 \<and> x \<noteq> 0xD1000003 \<and> x \<noteq> 0xD1000004 \<and> x \<noteq> 0xD1000005 \<and> x \<noteq> 0xC2000003"
  by (intro conjI notI) simp_all

lemma pwa_dispatch_json: "\<exists>cid. pwa_dispatch (0x7B # rest) = Some (PUnknown cid)"
proof (cases "length rest < 3")
  case False
  let ?bs = "take 4 (0x7B # rest)" and ?d = "0x7B # rest"
  have "le_nat ?bs = 0x7B + 256 * le_nat (take 3 rest)" by simp
  then have "le_nat ?bs mod 256 = 0x7B" by (simp only: mod_mult_self2) simp
  moreover have "unat (from_le ?bs :: u32) = le_nat ?bs mod 2 ^ 32" by (simp only: from_le_def unsigned_of_nat take_bit_eq_mod) simp
  ultimately have "unat (from_le ?bs :: u32) mod 256 = 0x7B" by (simp add: mod_mod_cancel)
  moreover have "rd_u32 ?d = Some (unat (from_le ?bs :: u32), drop 4 ?d)" using False by (simp add: rd_u32_def)
  ultimately show ?thesis using json_cid [of "unat (from_le ?bs :: u32)"] False by (simp add: pwa_dispatch_def)
qed (simp add: pwa_dispatch_def)


section \<open>Strings of the web client are strings of the services\<close>

lemma utf8_valid_2:
  assumes "2 \<le> x" "x < 32" "b < 64" "unat p = 0xC0 + x" "unat q = 0x80 + b"
  shows "utf8_valid (p # q # r) = utf8_valid r"
  using assms by (simp add: utf8_cont_def word_le_nat_alt word_less_nat_alt)

lemma utf8_valid_3:
  assumes "y < 16" "a < 64" "b < 64" "y = 0 \<Longrightarrow> 32 \<le> a" "y = 13 \<Longrightarrow> a < 32"
    and "unat p = 0xE0 + y" "unat q = 0x80 + a" "unat s = 0x80 + b"
  shows "utf8_valid (p # q # s # r) = utf8_valid r"
proof -
  have "(p = 0xE0) = (y = 0)" "(p = 0xED) = (y = 13)" "(p = 0xEE) = (y = 14)" "(p = 0xEF) = (y = 15)"
    using assms(6) by (simp_all add: word_unat_eq_iff)
  moreover have "(0xE1 \<le> p) = (1 \<le> y)" "(p \<le> 0xEC) = (y \<le> 12)" "\<not> p < 0x80" "\<not> p \<le> 0xDF"
    using assms(1,6) by (auto simp: word_le_nat_alt word_less_nat_alt)
  moreover have "utf8_cont q" "utf8_cont s" "(0xA0 \<le> q) = (32 \<le> a)" "q \<le> 0xBF" "0x80 \<le> q" "(q \<le> 0x9F) = (a < 32)"
    using assms(2,3,7,8) by (auto simp: utf8_cont_def word_le_nat_alt)
  ultimately show ?thesis using assms(1,4,5) by auto
qed

lemma utf8_valid_4:
  assumes "z < 5" "a < 64" "b < 64" "d < 64" "z = 0 \<Longrightarrow> 16 \<le> a" "z = 4 \<Longrightarrow> a < 16"
    and "unat p = 0xF0 + z" "unat q = 0x80 + a" "unat s = 0x80 + b" "unat t = 0x80 + d"
  shows "utf8_valid (p # q # s # t # r) = utf8_valid r"
proof -
  have "(p = 0xF0) = (z = 0)" "(p = 0xF4) = (z = 4)" "p \<noteq> 0xE0" "p \<noteq> 0xED" "p \<noteq> 0xEE" "p \<noteq> 0xEF"
    using assms(7) by (simp_all add: word_unat_eq_iff)
  moreover have "(0xF1 \<le> p) = (1 \<le> z)" "(p \<le> 0xF3) = (z \<le> 3)" "\<not> p < 0x80" "\<not> p \<le> 0xDF" "\<not> p \<le> 0xEC"
    using assms(1,7) by (auto simp: word_le_nat_alt word_less_nat_alt)
  moreover have "utf8_cont q" "utf8_cont s" "utf8_cont t" "(0x90 \<le> q) = (16 \<le> a)" "q \<le> 0xBF" "0x80 \<le> q" "(q \<le> 0x8F) = (a < 16)"
    using assms(2-4,8-) by (auto simp: utf8_cont_def word_le_nat_alt)
  ultimately show ?thesis using assms(1,5,6) by auto
qed

lemma utf8_valid_bytes:
  assumes "scalar c"
  shows "utf8_valid (utf8_bytes c @ r) = utf8_valid r"
proof -
  have "c < 0x80 \<or> 0x80 \<le> c \<and> c < 0x800 \<or> 0x800 \<le> c \<and> c < 0x10000 \<or> 0x10000 \<le> c \<and> c < 0x110000"
    using assms unfolding scalar_def by linarith
  then consider "c < 0x80" | "0x80 \<le> c" "c < 0x800" | "0x800 \<le> c" "c < 0x10000" | "0x10000 \<le> c" "c < 0x110000" by blast
  note split = this
  define x y z a b d where defs: "x = c div 64" "y = x div 64" "z = y div 64" "a = y mod 64" "b = x mod 64" "d = c mod 64"
  have e: "c = 64 * x + d" "x = 64 * y + b" "y = 64 * z + a" and l: "d < 64" "b < 64" "a < 64" by (simp_all add: defs)
  have u: "c div 4096 = y" "c div 262144 = z" "c div 64 = x" "c mod 64 = d" "x mod 64 = b" "y mod 64 = a"
    by (simp_all add: defs div_mult2_eq [symmetric])
  from split show ?thesis
  proof cases
    case 1
    then show ?thesis by (simp add: utf8_bytes_def word_less_nat_alt unat_byte)
  next
    case 2
    then have x: "2 \<le> x" "x < 32" using e l by linarith+
    have "utf8_bytes c = [word_of_nat (0xC0 + x), word_of_nat (0x80 + d)]" using 2 by (simp add: utf8_bytes_def u)
    then show ?thesis using utf8_valid_2 [OF x l(1) unat_byte unat_byte, of r] x(2) l(1) by (simp del: utf8_valid.simps of_nat_add)
  next
    case 3
    have y: "y < 16" "y = 0 \<Longrightarrow> 32 \<le> b" using 3 e l by linarith+
    have "y = 13 \<Longrightarrow> b < 32" using 3 e l assms unfolding scalar_def by linarith
    note v = utf8_valid_3 [OF y(1) l(2,1) y(2) this unat_byte unat_byte unat_byte, of r]
    have "utf8_bytes c = [word_of_nat (0xE0 + y), word_of_nat (0x80 + b), word_of_nat (0x80 + d)]"
      using 3 by (simp add: utf8_bytes_def u)
    then show ?thesis using v y(1) l by (simp del: utf8_valid.simps of_nat_add)
  next
    case 4
    have z: "z < 5" "z = 0 \<Longrightarrow> 16 \<le> a" "z = 4 \<Longrightarrow> a < 16" using 4 e l by linarith+
    have "utf8_bytes c = [word_of_nat (0xF0 + z), word_of_nat (0x80 + a), word_of_nat (0x80 + b), word_of_nat (0x80 + d)]"
      using 4 by (simp add: utf8_bytes_def u)
    then show ?thesis using utf8_valid_4 [OF z(1) l(3,2,1) z(2,3) unat_byte unat_byte unat_byte unat_byte, of r] z(1) l
      by (simp del: utf8_valid.simps of_nat_add)
  qed
qed

lemma utf8_valid_text_encode: "utf8_valid (text_encode s)"
proof -
  have "\<forall>c\<in>set cps. scalar c \<Longrightarrow> utf8_valid (concat (map utf8_bytes cps))" for cps
    by (induction cps) (simp_all add: utf8_valid_bytes)
  then show ?thesis unfolding text_encode_def using code_points_scalar by blast
qed

end
