(* ===== verification/Pwa_Client.thy ===== *)
theory Pwa_Client
  imports Pwa_Wire Gateway Signaling_Invariant
begin

text \<open>
  The web client (\<^verbatim>\<open>clients/pwa/src/api/index.ts\<close>): its state, the handling of what arrives on its socket, its operations and its
  timers.  A promise is a number and the list \<^verbatim>\<open>settled\<close> holds its outcome; a callback kept in a variable is the number of
  its promise.  Timers and the continuations of digests and uploads are lists from which an entry is taken when it
  runs, so that they interleave with everything else.  The JSON functions of the language and SHA-256 are parameters.
\<close>

section \<open>State\<close>

record js_lib =
  js_parse :: "jsstring \<Rightarrow> json option"
  js_stringify :: "json \<Rightarrow> jsstring"
  js_sha256 :: "bytes \<Rightarrow> bytes"

datatype pwa_event =
    PwaConnected jsstring
  | PwaDisconnected
  | PwaPeerConnected jsstring
  | PwaMessage jsstring jsstring nat
  | PwaMessageSent jsstring jsstring nat
  | PwaFileOffered jsstring jsstring jsstring nat
  | PwaFileProgress jsstring nat nat
  | PwaFileComplete jsstring
  | PwaError jsstring
  | PwaDownload jsstring bytes

datatype outcome = ResolvedUnit | ResolvedText jsstring | ResolvedInbox "jsstring option" | Rejected string

datatype pwa_timer = FileTimer jsstring jsstring | LinkTimer | PrekeysTimer nat | JoinTimer nat | AckTimer nat

text \<open>What an upload does after a frame: its promise is resolved after the offer, and progress is reported.\<close>

datatype upload_note = UploadStarted nat jsstring | UploadEvent pwa_event

record FileBuf =
  fb_name :: jsstring
  fb_size :: nat
  fb_total :: nat
  fb_chunks :: "(nat \<times> bytes) list"
  fb_hash :: bytes
  fb_created :: nat

text \<open>A socket has the number of the promise of the call that opened it.\<close>

record Pwa =
  pw_ws :: "nat option"
  pw_open :: "nat list"
  pw_peer_id :: bytes
  pw_inbox_id :: bytes
  pw_active :: "jsstring option"
  pw_pending_link :: "nat option"
  pw_pending_prekeys :: "nat option"
  pw_joins :: "nat list"
  pw_files :: "(jsstring \<times> FileBuf) list"
  pw_next :: nat
  pw_settled :: "(nat \<times> outcome) list"
  pw_timers :: "(nat \<times> pwa_timer) list"
  pw_digests :: "(jsstring \<times> FileBuf \<times> bytes) list"
  pw_uploads :: "(bytes \<times> upload_note) list list"
  pw_sent :: "(nat \<times> bytes) list"
  pw_events :: "pwa_event list"

definition FILE_TRANSFER_TIMEOUT_MS :: nat where "FILE_TRANSFER_TIMEOUT_MS = 300000"
definition PWA_CHUNK_SIZE :: nat where "PWA_CHUNK_SIZE = 65536"
definition MAX_MSG_LEN :: nat where "MAX_MSG_LEN = 50000"

definition js :: "string \<Rightarrow> jsstring" where
  "js s = map (\<lambda>c. word_of_nat (of_char c)) s"

definition peerIdHex :: "Pwa \<Rightarrow> jsstring" where
  "peerIdHex st = hexEncode (pw_peer_id st)"

definition setPeerId :: "bytes \<Rightarrow> Pwa \<Rightarrow> Pwa" where
  "setPeerId p st = st\<lparr>pw_peer_id := p\<rparr>"

definition setInboxId :: "bytes \<Rightarrow> Pwa \<Rightarrow> Pwa" where
  "setInboxId i st = st\<lparr>pw_inbox_id := i\<rparr>"

definition setActivePeerForTransfer :: "jsstring option \<Rightarrow> Pwa \<Rightarrow> Pwa" where
  "setActivePeerForTransfer p st = st\<lparr>pw_active := p\<rparr>"

text \<open>A promise is settled once.\<close>

definition settle :: "nat \<Rightarrow> outcome \<Rightarrow> Pwa \<Rightarrow> Pwa" where
  "settle k r st = (if k \<in> fst ` set (pw_settled st) then st else st\<lparr>pw_settled := pw_settled st @ [(k, r)]\<rparr>)"

text \<open>The listeners of the joining calls run with the others and unsubscribe themselves.\<close>

definition pwa_emit :: "pwa_event \<Rightarrow> Pwa \<Rightarrow> Pwa" where
  "pwa_emit ev st0 =
    (let st = st0\<lparr>pw_events := pw_events st0 @ [ev]\<rparr> in
     case ev of
       PwaPeerConnected p \<Rightarrow> fold (\<lambda>k. settle k (ResolvedText p)) (pw_joins st) (st\<lparr>pw_joins := []\<rparr>)
     | _ \<Rightarrow> st)"

definition ws_is_open :: "Pwa \<Rightarrow> bool" where
  "ws_is_open st \<longleftrightarrow> (case pw_ws st of None \<Rightarrow> False | Some k \<Rightarrow> k \<in> set (pw_open st))"

definition send :: "bytes \<Rightarrow> Pwa \<Rightarrow> Pwa" where
  "send data st = (if ws_is_open st then st\<lparr>pw_sent := pw_sent st @ [(the (pw_ws st), data)]\<rparr> else st)"

definition set_timer :: "nat \<Rightarrow> pwa_timer \<Rightarrow> Pwa \<Rightarrow> Pwa" where
  "set_timer deadline t st = st\<lparr>pw_timers := pw_timers st @ [(deadline, t)]\<rparr>"

definition sanitizeFilename :: "jsstring \<Rightarrow> jsstring" where
  "sanitizeFilename name = map (\<lambda>u. if u \<in> set (js ''/?%*:|<>'') \<or> u = 92 \<or> u = 34 then 95 else u) name"

section \<open>What arrives\<close>

definition truncate_text :: "jsstring \<Rightarrow> jsstring" where
  "truncate_text raw = (if length raw > MAX_MSG_LEN then take MAX_MSG_LEN raw @ 0x2026 # js '' [truncated]'' else raw)"

definition assemble :: "FileBuf \<Rightarrow> bytes" where
  "assemble b = concat (map (\<lambda>i. case map_of (fb_chunks b) i of Some c \<Rightarrow> c | None \<Rightarrow> []) [0..<fb_total b])"

text \<open>A queued message that cannot be read throws, which ends the loop.\<close>

function inbox_loop :: "nat \<Rightarrow> bytes \<Rightarrow> Pwa \<Rightarrow> Pwa" where
  "inbox_loop now blob st =
    (if length blob < 4 then st
     else let len = unat (from_le (take 4 blob) :: u32); r = drop 4 blob in
       if length r < len then st
       else case pwa_dispatch (take len r) of
         None \<Rightarrow> st
       | Some (PChatSend p ct k n) \<Rightarrow>
           inbox_loop now (drop len r) (pwa_emit (PwaMessage (hexEncode p) (truncate_text (text_decode ct)) now) st)
       | Some _ \<Rightarrow> inbox_loop now (drop len r) st)"
  by pat_completeness auto

termination inbox_loop
  by (relation "measure (\<lambda>(now, blob, st). length blob)") (auto simp: diff_diff_left)

declare inbox_loop.simps [simp del]

primrec truthy :: "json \<Rightarrow> bool" where
  "truthy JNull = False" | "truthy (JBool b) = b" | "truthy (JNum n) = (n \<noteq> 0)" | "truthy (JStr s) = (s \<noteq> [])"
| "truthy (JArr xs) = True" | "truthy (JObj fs) = True"

definition truthy_field :: "json \<Rightarrow> string \<Rightarrow> bool" where
  "truthy_field j f = (case json_get j (ascii f) of None \<Rightarrow> False | Some v \<Rightarrow> truthy v)"

definition text_field :: "json \<Rightarrow> string \<Rightarrow> jsstring option" where
  "text_field j f = (case json_get j (ascii f) of Some (JStr s) \<Rightarrow> Some (text_decode s) | _ \<Rightarrow> None)"

definition mentions :: "string \<Rightarrow> jsstring \<Rightarrow> bool" where
  "mentions w s \<longleftrightarrow> list_ex (\<lambda>i. take (length w) (drop i s) = js w) [0..<Suc (length s)]"

definition is_prekeys_response :: "json \<Rightarrow> bool" where
  "is_prekeys_response j \<longleftrightarrow>
     json_get j (ascii ''identity_key'') \<noteq> None \<or> json_get j (ascii ''signed_prekey'') \<noteq> None
     \<or> (json_get j (ascii ''found'') = Some (JBool False)
        \<and> (case text_field j ''error'' of None \<Rightarrow> False | Some e \<Rightarrow> mentions ''prekeys'' e))"

definition handle_json :: "json \<Rightarrow> Pwa \<Rightarrow> Pwa" where
  "handle_json j st =
    (case (truthy_field j ''link_id'', pw_pending_link st) of
       (True, Some k) \<Rightarrow>
         (settle k (ResolvedText (case text_field j ''link_id'' of Some l \<Rightarrow> l | None \<Rightarrow> [])) st)\<lparr>pw_pending_link := None\<rparr>
     | _ \<Rightarrow>
       if json_get j (ascii ''found'') = Some (JBool True) \<and> truthy_field j ''peer_id'' \<or>
          json_get j (ascii ''peer_joined'') = Some (JBool True) \<and> truthy_field j ''peer_id''
       then pwa_emit (PwaPeerConnected (case text_field j ''peer_id'' of Some p \<Rightarrow> p | None \<Rightarrow> [])) st
       else case (is_prekeys_response j, pw_pending_prekeys st) of
         (True, Some k) \<Rightarrow> (settle k (ResolvedInbox (text_field j ''inbox_id'')) st)\<lparr>pw_pending_prekeys := None\<rparr>
       | _ \<Rightarrow> st)"

definition handleMessage :: "js_lib \<Rightarrow> nat \<Rightarrow> bytes \<Rightarrow> Pwa \<Rightarrow> Pwa" where
  "handleMessage L now data st =
    (case pwa_dispatch data of
       None \<Rightarrow> st
     | Some (PSessionAck nonce t) \<Rightarrow> pwa_emit (PwaConnected (peerIdHex st)) st
     | Some (PChatSend p ct k n) \<Rightarrow> pwa_emit (PwaMessage (hexEncode p) (truncate_text (text_decode ct)) now) st
     | Some (PFileOffer p f name sz chunks hash z) \<Rightarrow>
         let fid = hexEncode f;
             b = \<lparr>fb_name = name, fb_size = sz, fb_total = chunks, fb_chunks = [], fb_hash = hash, fb_created = now\<rparr>;
             st1 = st\<lparr>pw_files := AList.update fid b (pw_files st)\<rparr>
         in pwa_emit (PwaFileOffered (hexEncode p) fid name sz) (set_timer (now + FILE_TRANSFER_TIMEOUT_MS) (FileTimer fid name) st1)
     | Some (PFileChunk p f i d h k n) \<Rightarrow>
         let fid = hexEncode f in
         (case map_of (pw_files st) fid of
            None \<Rightarrow> st
          | Some b \<Rightarrow>
              let b1 = b\<lparr>fb_chunks := AList.update i d (fb_chunks b)\<rparr>;
                  st1 = st\<lparr>pw_files := AList.update fid b1 (pw_files st)\<rparr>
              in send (encodeFileChunkAck p f i) (pwa_emit (PwaFileProgress fid (length (fb_chunks b1)) (fb_total b1)) st1))
     | Some (PFileComplete p f) \<Rightarrow>
         let fid = hexEncode f in
         (case map_of (pw_files st) fid of
            None \<Rightarrow> st
          | Some b \<Rightarrow> st\<lparr>pw_digests := pw_digests st @ [(fid, b, assemble b)]\<rparr>)
     | Some (PInboxMessages blob n) \<Rightarrow> inbox_loop now blob st
     | Some (PUnknown cid) \<Rightarrow> (case js_parse L (text_decode data) of None \<Rightarrow> st | Some j \<Rightarrow> handle_json j st)
     | Some _ \<Rightarrow> st)"

text \<open>The continuation of a digest.\<close>

definition digest_done :: "js_lib \<Rightarrow> Pwa \<Rightarrow> Pwa" where
  "digest_done L st =
    (case pw_digests st of
       [] \<Rightarrow> st
     | (fid, b, data) # ds \<Rightarrow>
         let st1 = st\<lparr>pw_digests := ds\<rparr> in
         if fb_hash b \<noteq> [] \<and> js_sha256 L data \<noteq> fb_hash b
         then (pwa_emit (PwaError (js ''File integrity check failed '' @ 0x2014 # js '' hash mismatch'')) st1)\<lparr>pw_files := AList.delete fid (pw_files st1)\<rparr>
         else pwa_emit (PwaFileComplete fid)
                ((pwa_emit (PwaDownload (sanitizeFilename (fb_name b)) data) st1)\<lparr>pw_files := AList.delete fid (pw_files st1)\<rparr>))"


section \<open>The socket\<close>

definition ws_url :: "bool \<Rightarrow> jsstring \<Rightarrow> jsstring" where
  "ws_url https addr = (if take 2 addr = js ''ws'' then addr else js (if https then ''wss://'' else ''ws://'') @ addr)"

text \<open>The old socket is closed, which it reports later.\<close>

definition connectToGateway :: "nat \<Rightarrow> Pwa \<Rightarrow> Pwa \<times> nat" where
  "connectToGateway now st =
    (let k = pw_next st;
         st1 = (case pw_ws st of None \<Rightarrow> st | Some old \<Rightarrow> st\<lparr>pw_open := removeAll old (pw_open st)\<rparr>)
     in (set_timer (now + 10000) (AckTimer k) (st1\<lparr>pw_ws := Some k, pw_next := k + 1\<rparr>), k))"

definition on_open :: "nat \<Rightarrow> bytes \<Rightarrow> Pwa \<Rightarrow> Pwa" where
  "on_open k nonce st = (let st1 = st\<lparr>pw_open := k # pw_open st\<rparr> in send (encodeSessionInit (pw_peer_id st1) nonce) st1)"

definition is_settled :: "nat \<Rightarrow> Pwa \<Rightarrow> bool" where
  "is_settled k st \<longleftrightarrow> k \<in> fst ` set (pw_settled st)"

definition on_message :: "js_lib \<Rightarrow> nat \<Rightarrow> nat \<Rightarrow> bytes \<Rightarrow> Pwa \<Rightarrow> Pwa" where
  "on_message L k now data st =
    handleMessage L now data
      (if is_settled k st then st
       else case pwa_dispatch data of
         Some (PSessionAck nonce t) \<Rightarrow>
           let st1 = settle k ResolvedUnit st in if pw_inbox_id st1 \<noteq> [] then send (encodeInboxFetch (pw_inbox_id st1)) st1 else st1
       | _ \<Rightarrow> st)"

definition on_close :: "nat \<Rightarrow> Pwa \<Rightarrow> Pwa" where
  "on_close k st =
    pwa_emit PwaDisconnected (settle k (Rejected ''Connection closed before SessionAck'') (st\<lparr>pw_open := removeAll k (pw_open st)\<rparr>))"

definition on_error :: "nat \<Rightarrow> Pwa \<Rightarrow> Pwa" where
  "on_error k = settle k (Rejected ''WebSocket connection failed'')"

section \<open>Operations\<close>

definition createLink :: "js_lib \<Rightarrow> nat \<Rightarrow> Pwa \<Rightarrow> Pwa \<times> nat" where
  "createLink L now st =
    (let k = pw_next st;
         msg = js_stringify L (JObj [(ascii ''action'', JStr (ascii ''create_link'')), (ascii ''peer_id'', JStr (text_encode (peerIdHex st)))])
     in (set_timer (now + 10000) LinkTimer (send (text_encode msg) (st\<lparr>pw_pending_link := Some k, pw_next := k + 1\<rparr>)), k))"

definition joinLink :: "jsstring \<Rightarrow> nat \<Rightarrow> Pwa \<Rightarrow> Pwa \<times> nat" where
  "joinLink linkId now st =
    (let k = pw_next st
     in (set_timer (now + 15000) (JoinTimer k)
           (send (encodeSignalRequestPeer linkId) (st\<lparr>pw_joins := pw_joins st @ [k], pw_next := k + 1\<rparr>)), k))"

definition sendMessage :: "jsstring \<Rightarrow> jsstring \<Rightarrow> nat \<Rightarrow> Pwa \<Rightarrow> Pwa" where
  "sendMessage targetPeerId txt now st =
    pwa_emit (PwaMessageSent targetPeerId txt now) (send (encodeChatSend (hexDecode targetPeerId) (text_encode txt) [] 0) st)"

definition sendOfflineMessage :: "jsstring \<Rightarrow> jsstring \<Rightarrow> jsstring \<Rightarrow> nat \<Rightarrow> Pwa \<Rightarrow> Pwa" where
  "sendOfflineMessage targetPeerId inboxIdHex txt now st =
    pwa_emit (PwaMessageSent targetPeerId txt now)
      (send (encodeInboxStore (hexDecode inboxIdHex) (encodeChatSend (pw_peer_id st) (text_encode txt) [] 0)) st)"

definition fetchPeerInboxId :: "jsstring \<Rightarrow> nat \<Rightarrow> Pwa \<Rightarrow> Pwa \<times> nat" where
  "fetchPeerInboxId targetPeerId now st =
    (let st1 = (case pw_pending_prekeys st of None \<Rightarrow> st | Some old \<Rightarrow> settle old (Rejected ''previous prekey request superseded'') st);
         k = pw_next st1
     in (set_timer (now + 10000) (PrekeysTimer k)
           (send (encodeKeysGetPrekeys (hexDecode targetPeerId)) (st1\<lparr>pw_pending_prekeys := Some k, pw_next := k + 1\<rparr>)), k))"

definition total_chunks :: "bytes \<Rightarrow> nat" where
  "total_chunks data = (let n = (length data + PWA_CHUNK_SIZE - 1) div PWA_CHUNK_SIZE in if n = 0 then 1 else n)"

definition pwa_chunk :: "bytes \<Rightarrow> nat \<Rightarrow> bytes" where
  "pwa_chunk data i = take (min (i * PWA_CHUNK_SIZE + PWA_CHUNK_SIZE) (length data) - i * PWA_CHUNK_SIZE) (drop (i * PWA_CHUNK_SIZE) data)"

text \<open>What an upload sends, with the event after each frame.\<close>

definition upload_frames :: "js_lib \<Rightarrow> nat \<Rightarrow> bytes \<Rightarrow> bytes \<Rightarrow> jsstring \<Rightarrow> bytes \<Rightarrow> (bytes \<times> upload_note) list" where
  "upload_frames L k target fileId name data =
    (let n = total_chunks data; fid = hexEncode fileId in
     [(encodeFileOffer target fileId name (length data) n (js_sha256 L data) 0, UploadStarted k fid)]
     @ map (\<lambda>i. (encodeFileChunk target fileId i (pwa_chunk data i) (js_sha256 L (pwa_chunk data i)) [] 0,
                 UploadEvent (PwaFileProgress fid (i + 1) n))) [0..<n]
     @ [(encodeFileComplete target fileId, UploadEvent (PwaFileComplete fid))])"

definition sendFile :: "js_lib \<Rightarrow> bytes \<Rightarrow> jsstring \<Rightarrow> bytes \<Rightarrow> Pwa \<Rightarrow> Pwa \<times> nat" where
  "sendFile L fileId name data st =
    (let k = pw_next st; st1 = st\<lparr>pw_next := k + 1\<rparr> in
     case pw_active st of
       None \<Rightarrow> (settle k (Rejected ''No active peer to send to'') st1, k)
     | Some p \<Rightarrow> (st1\<lparr>pw_uploads := pw_uploads st @ [upload_frames L k (hexDecode p) fileId name data]\<rparr>, k))"

definition upload_step :: "nat \<Rightarrow> Pwa \<Rightarrow> Pwa" where
  "upload_step i st =
    (if i < length (pw_uploads st) then
       case pw_uploads st ! i of
         [] \<Rightarrow> st
       | (frame, ev) # fs \<Rightarrow>
           let st1 = send frame (st\<lparr>pw_uploads := (pw_uploads st)[i := fs]\<rparr>)
           in (case ev of UploadStarted k fid \<Rightarrow> settle k (ResolvedText fid) st1 | UploadEvent e \<Rightarrow> pwa_emit e st1)
     else st)"

section \<open>Timers\<close>

definition file_timeout :: "jsstring \<Rightarrow> jsstring \<Rightarrow> Pwa \<Rightarrow> Pwa" where
  "file_timeout fid name st =
    (case map_of (pw_files st) fid of
       None \<Rightarrow> st
     | Some b \<Rightarrow> pwa_emit (PwaError (js ''File transfer '' @ 34 # name @ 34 # js '' timed out'')) (st\<lparr>pw_files := AList.delete fid (pw_files st)\<rparr>))"

definition link_timeout :: "Pwa \<Rightarrow> Pwa" where
  "link_timeout st =
    (case pw_pending_link st of
       None \<Rightarrow> st
     | Some k \<Rightarrow> (settle k (Rejected ''create_link timeout'') st)\<lparr>pw_pending_link := None\<rparr>)"

definition prekeys_timeout :: "nat \<Rightarrow> Pwa \<Rightarrow> Pwa" where
  "prekeys_timeout k st =
    (if pw_pending_prekeys st = Some k then (settle k (Rejected ''get_prekeys timeout'') st)\<lparr>pw_pending_prekeys := None\<rparr> else st)"

definition join_timeout :: "nat \<Rightarrow> Pwa \<Rightarrow> Pwa" where
  "join_timeout k st = settle k (Rejected ''join_link timeout'') (st\<lparr>pw_joins := removeAll k (pw_joins st)\<rparr>)"

definition ack_timeout :: "nat \<Rightarrow> Pwa \<Rightarrow> Pwa" where
  "ack_timeout k st =
    (if is_settled k st then st
     else let st1 = settle k (Rejected ''SessionAck timeout'') st
          in (case pw_ws st1 of None \<Rightarrow> st1 | Some w \<Rightarrow> st1\<lparr>pw_open := removeAll w (pw_open st1)\<rparr>))"

primrec fire_timer :: "pwa_timer \<Rightarrow> Pwa \<Rightarrow> Pwa" where
  "fire_timer (FileTimer fid name) st = file_timeout fid name st"
| "fire_timer LinkTimer st = link_timeout st"
| "fire_timer (PrekeysTimer k) st = prekeys_timeout k st"
| "fire_timer (JoinTimer k) st = join_timeout k st"
| "fire_timer (AckTimer k) st = ack_timeout k st"

definition run_timer :: "nat \<Rightarrow> Pwa \<Rightarrow> Pwa" where
  "run_timer now st =
    (case find (\<lambda>(d, t). d \<le> now) (pw_timers st) of
       None \<Rightarrow> st
     | Some (d, t) \<Rightarrow> fire_timer t (st\<lparr>pw_timers := remove1 (d, t) (pw_timers st)\<rparr>))"

definition pwa_new :: "bytes \<Rightarrow> Pwa" where
  "pwa_new p = \<lparr>pw_ws = None, pw_open = [], pw_peer_id = p, pw_inbox_id = [], pw_active = None, pw_pending_link = None,
     pw_pending_prekeys = None, pw_joins = [], pw_files = [], pw_next = 0, pw_settled = [], pw_timers = [], pw_digests = [],
     pw_uploads = [], pw_sent = [], pw_events = []\<rparr>"

text \<open>Everything that can happen to a client, in any order.\<close>

inductive pwa_step :: "js_lib \<Rightarrow> Pwa \<Rightarrow> Pwa \<Rightarrow> bool" for L where
  step_peer_id: "pwa_step L st (setPeerId p st)"
| step_inbox_id: "pwa_step L st (setInboxId i st)"
| step_active: "pwa_step L st (setActivePeerForTransfer a st)"
| step_connect: "pwa_step L st (fst (connectToGateway now st))"
| step_open: "k < pw_next st \<Longrightarrow> pwa_step L st (on_open k nonce st)"
| step_message: "k < pw_next st \<Longrightarrow> pwa_step L st (on_message L k now data st)"
| step_close: "k < pw_next st \<Longrightarrow> pwa_step L st (on_close k st)"
| step_error: "k < pw_next st \<Longrightarrow> pwa_step L st (on_error k st)"
| step_link: "pwa_step L st (fst (createLink L now st))"
| step_join: "pwa_step L st (fst (joinLink l now st))"
| step_send: "pwa_step L st (sendMessage p txt now st)"
| step_offline: "pwa_step L st (sendOfflineMessage p i txt now st)"
| step_prekeys: "pwa_step L st (fst (fetchPeerInboxId p now st))"
| step_file: "pwa_step L st (fst (sendFile L f name data st))"
| step_upload: "pwa_step L st (upload_step i st)"
| step_digest: "pwa_step L st (digest_done L st)"
| step_timer: "pwa_step L st (run_timer now st)"

inductive pwa_reachable :: "js_lib \<Rightarrow> Pwa \<Rightarrow> bool" for L where
  reach_new: "pwa_reachable L (pwa_new p)"
| reach_step: "pwa_reachable L st \<Longrightarrow> pwa_step L st st' \<Longrightarrow> pwa_reachable L st'"


section \<open>What the operations leave alone\<close>

lemma settle_fields [simp]:
  "pw_ws (settle k r st) = pw_ws st" "pw_open (settle k r st) = pw_open st" "pw_peer_id (settle k r st) = pw_peer_id st"
  "pw_inbox_id (settle k r st) = pw_inbox_id st" "pw_active (settle k r st) = pw_active st"
  "pw_pending_link (settle k r st) = pw_pending_link st" "pw_pending_prekeys (settle k r st) = pw_pending_prekeys st"
  "pw_joins (settle k r st) = pw_joins st" "pw_files (settle k r st) = pw_files st" "pw_next (settle k r st) = pw_next st"
  "pw_timers (settle k r st) = pw_timers st" "pw_digests (settle k r st) = pw_digests st" "pw_uploads (settle k r st) = pw_uploads st"
  "pw_sent (settle k r st) = pw_sent st" "pw_events (settle k r st) = pw_events st"
  by (simp_all add: settle_def)

lemma fold_settle_fields [simp]:
  "pw_ws (fold (\<lambda>k. settle k r) ks st) = pw_ws st" "pw_open (fold (\<lambda>k. settle k r) ks st) = pw_open st"
  "pw_peer_id (fold (\<lambda>k. settle k r) ks st) = pw_peer_id st" "pw_inbox_id (fold (\<lambda>k. settle k r) ks st) = pw_inbox_id st"
  "pw_active (fold (\<lambda>k. settle k r) ks st) = pw_active st" "pw_pending_link (fold (\<lambda>k. settle k r) ks st) = pw_pending_link st"
  "pw_pending_prekeys (fold (\<lambda>k. settle k r) ks st) = pw_pending_prekeys st" "pw_joins (fold (\<lambda>k. settle k r) ks st) = pw_joins st"
  "pw_files (fold (\<lambda>k. settle k r) ks st) = pw_files st" "pw_next (fold (\<lambda>k. settle k r) ks st) = pw_next st"
  "pw_timers (fold (\<lambda>k. settle k r) ks st) = pw_timers st" "pw_digests (fold (\<lambda>k. settle k r) ks st) = pw_digests st"
  "pw_uploads (fold (\<lambda>k. settle k r) ks st) = pw_uploads st" "pw_sent (fold (\<lambda>k. settle k r) ks st) = pw_sent st"
  "pw_events (fold (\<lambda>k. settle k r) ks st) = pw_events st"
  by (induction ks arbitrary: st) simp_all

lemma pwa_emit_fields [simp]:
  "pw_ws (pwa_emit e st) = pw_ws st" "pw_open (pwa_emit e st) = pw_open st" "pw_peer_id (pwa_emit e st) = pw_peer_id st"
  "pw_inbox_id (pwa_emit e st) = pw_inbox_id st" "pw_active (pwa_emit e st) = pw_active st" "pw_pending_link (pwa_emit e st) = pw_pending_link st"
  "pw_pending_prekeys (pwa_emit e st) = pw_pending_prekeys st" "pw_files (pwa_emit e st) = pw_files st" "pw_next (pwa_emit e st) = pw_next st"
  "pw_timers (pwa_emit e st) = pw_timers st" "pw_digests (pwa_emit e st) = pw_digests st" "pw_uploads (pwa_emit e st) = pw_uploads st"
  "pw_sent (pwa_emit e st) = pw_sent st" "pw_events (pwa_emit e st) = pw_events st @ [e]"
  by (simp_all add: pwa_emit_def Let_def split: pwa_event.split)

lemma send_fields [simp]:
  "pw_ws (send d st) = pw_ws st" "pw_open (send d st) = pw_open st" "pw_peer_id (send d st) = pw_peer_id st"
  "pw_inbox_id (send d st) = pw_inbox_id st" "pw_pending_link (send d st) = pw_pending_link st" "pw_files (send d st) = pw_files st"
  "pw_pending_prekeys (send d st) = pw_pending_prekeys st" "pw_joins (send d st) = pw_joins st" "pw_next (send d st) = pw_next st"
  "pw_settled (send d st) = pw_settled st" "pw_timers (send d st) = pw_timers st" "pw_digests (send d st) = pw_digests st"
  "pw_uploads (send d st) = pw_uploads st" "pw_events (send d st) = pw_events st"
  by (simp_all add: send_def)

lemma set_timer_fields [simp]:
  "pw_ws (set_timer d t st) = pw_ws st" "pw_open (set_timer d t st) = pw_open st" "pw_files (set_timer d t st) = pw_files st"
  "pw_sent (set_timer d t st) = pw_sent st" "pw_events (set_timer d t st) = pw_events st" "pw_settled (set_timer d t st) = pw_settled st"
  "pw_pending_link (set_timer d t st) = pw_pending_link st" "pw_joins (set_timer d t st) = pw_joins st" "pw_next (set_timer d t st) = pw_next st"
  "pw_uploads (set_timer d t st) = pw_uploads st" "pw_digests (set_timer d t st) = pw_digests st"
  by (simp_all add: set_timer_def)

section \<open>What is sent\<close>

text \<open>The frames a web client can send: messages of these kinds, or a JSON text.\<close>

definition web_message :: "Message \<Rightarrow> bool" where
  "web_message m = (case m of SessionInit _ _ \<Rightarrow> True | SignalRequestPeer _ \<Rightarrow> True | KeysGetPrekeys _ \<Rightarrow> True | ChatSend _ _ _ _ \<Rightarrow> True
     | FileOffer _ _ _ _ _ _ _ \<Rightarrow> True | FileChunk _ _ _ _ _ _ _ \<Rightarrow> True | FileComplete _ _ \<Rightarrow> True | InboxFetch _ \<Rightarrow> True
     | InboxStore _ _ \<Rightarrow> True | FileChunkAck _ _ _ \<Rightarrow> True | _ \<Rightarrow> False)"

definition web_frame :: "js_lib \<Rightarrow> bytes \<Rightarrow> bool" where
  "web_frame L d \<longleftrightarrow> (\<exists>fs. d = text_encode (js_stringify L (JObj fs))) \<or> (\<exists>m. d = serialize m \<and> web_message m)"

definition sends_web :: "js_lib \<Rightarrow> Pwa \<Rightarrow> bool" where
  "sends_web L st \<longleftrightarrow> list_all (\<lambda>(k, d). web_frame L d) (pw_sent st) \<and> list_all (list_all (\<lambda>(d, e). web_frame L d)) (pw_uploads st)"

lemma web_frames:
  "web_frame L (encodeSessionInit a b)" "web_frame L (encodeSignalRequestPeer s)" "web_frame L (encodeKeysGetPrekeys a)"
  "web_frame L (encodeChatSend a b c n)" "web_frame L (encodeFileOffer a b s sz n c z)" "web_frame L (encodeFileChunk a b n d h c z)"
  "web_frame L (encodeFileComplete a b)" "web_frame L (encodeInboxFetch a)" "web_frame L (encodeInboxStore a b)"
  "web_frame L (encodeFileChunkAck a b n)" "web_frame L (text_encode (js_stringify L (JObj fs)))"
  unfolding web_frame_def pwa_encoders by (rule disjI2, rule exI, rule conjI [OF refl], simp add: web_message_def)+ blast

lemma sends_web_send: "sends_web L st \<Longrightarrow> web_frame L d \<Longrightarrow> sends_web L (send d st)"
  by (simp add: sends_web_def send_def)

lemma sends_web_same: "pw_sent st' = pw_sent st \<Longrightarrow> pw_uploads st' = pw_uploads st \<Longrightarrow> sends_web L st \<Longrightarrow> sends_web L st'"
  by (simp add: sends_web_def)

lemma inbox_loop_fields: "pw_sent (inbox_loop now blob st) = pw_sent st \<and> pw_uploads (inbox_loop now blob st) = pw_uploads st"
proof (induction now blob st rule: inbox_loop.induct)
  case (1 now blob st)
  then show ?case
    by (subst (1 2) inbox_loop.simps) (simp add: Let_def split: option.split ProtoMessage.split)
qed


lemma handle_json_fields [simp]: "pw_sent (handle_json j st) = pw_sent st" "pw_uploads (handle_json j st) = pw_uploads st"
  by (simp_all add: handle_json_def split: bool.split option.split prod.split)

lemma handleMessage_sends: "sends_web L st \<Longrightarrow> sends_web L (handleMessage L now data st)"
proof -
  assume s: "sends_web L st"
  note same = sends_web_same [OF _ _ s]
  have chunk: "sends_web L (send (encodeFileChunkAck p f i) st1)" if "pw_sent st1 = pw_sent st" "pw_uploads st1 = pw_uploads st" for p f i st1
    by (rule sends_web_send [OF same [OF that] web_frames(10)])
  show ?thesis
  proof (cases "pwa_dispatch data")
    case None
    with s show ?thesis by (simp add: handleMessage_def)
  next
    case (Some m)
    then show ?thesis using s inbox_loop_fields
      by (cases m) (auto simp: handleMessage_def Let_def split: option.split intro: same chunk)
  qed
qed

lemma upload_frames_web: "list_all (\<lambda>(d, e). web_frame L d) (upload_frames L k target f name data)"
  by (simp add: upload_frames_def Let_def web_frames list_all_iff)

lemma upload_step_sends: "sends_web L st \<Longrightarrow> sends_web L (upload_step i st)"
proof -
  assume s: "sends_web L st"
  show ?thesis
  proof (cases "i < length (pw_uploads st) \<and> pw_uploads st ! i \<noteq> []")
    case True
    then obtain d e fs where u: "i < length (pw_uploads st)" "pw_uploads st ! i = (d, e) # fs" by (cases "pw_uploads st ! i") auto
    have "list_all (\<lambda>(d, e). web_frame L d) (pw_uploads st ! i)"
      using s u(1) unfolding sends_web_def by (auto simp del: split_paired_All simp: list_all_iff dest: nth_mem)
    then have "web_frame L d" "list_all (\<lambda>(d, e). web_frame L d) fs"
      by (simp_all add: u(2))
    then have "sends_web L (send d (st\<lparr>pw_uploads := (pw_uploads st)[i := fs]\<rparr>))"
      using s by (intro sends_web_send) (simp_all add: sends_web_def list_all_iff, blast dest: set_update_subset_insert [THEN subsetD])
    then show ?thesis using u by (auto simp: upload_step_def Let_def split: upload_note.split intro: sends_web_same [rotated 2])
  next
    case False
    with s show ?thesis by (auto simp: upload_step_def split: list.split)
  qed
qed

lemma pwa_step_sends:
  assumes "pwa_step L st st'" "sends_web L st"
  shows "sends_web L st'"
  using assms
proof cases
  case (step_open k nonce)
  have "sends_web L (st\<lparr>pw_open := k # pw_open st\<rparr>)" using assms(2) by (simp add: sends_web_def)
  then show ?thesis using step_open by (simp add: on_open_def Let_def sends_web_send web_frames)
next
  case (step_message k now data)
  have "sends_web L (settle k r st)" for r
    by (rule sends_web_same [OF _ _ assms(2)]) simp_all
  then have "sends_web L (if is_settled k st then st else case pwa_dispatch data of
      Some (PSessionAck nonce t) \<Rightarrow>
        let st1 = settle k ResolvedUnit st in if pw_inbox_id st1 \<noteq> [] then send (encodeInboxFetch (pw_inbox_id st1)) st1 else st1
    | _ \<Rightarrow> st)"
    using assms(2) by (simp add: Let_def sends_web_send web_frames split: option.split ProtoMessage.split)
  then show ?thesis unfolding step_message on_message_def by (rule handleMessage_sends)
next
  case (step_upload i)
  then show ?thesis using upload_step_sends [OF assms(2)] by simp
next
  case (step_timer now)
  have "pw_sent (fire_timer t st) = pw_sent st \<and> pw_uploads (fire_timer t st) = pw_uploads st" for t st
    by (cases t) (simp_all add: file_timeout_def link_timeout_def prekeys_timeout_def join_timeout_def ack_timeout_def Let_def split: option.split)
  then show ?thesis using step_timer assms(2) by (auto simp: run_timer_def sends_web_def split: option.split prod.split)
next
  case (step_file f name data)
  then show ?thesis using assms(2) upload_frames_web [of L _ _ f name data]
    by (auto simp: sendFile_def Let_def sends_web_def split: option.split)
qed (use assms(2) in \<open>auto simp: sends_web_def web_frames setPeerId_def setInboxId_def setActivePeerForTransfer_def connectToGateway_def
       on_close_def on_error_def createLink_def joinLink_def sendMessage_def sendOfflineMessage_def fetchPeerInboxId_def digest_done_def
       send_def Let_def split: option.split list.split\<close>)

lemma pwa_reachable_sends: "pwa_reachable L st \<Longrightarrow> sends_web L st"
proof (induction rule: pwa_reachable.induct)
  case (reach_new p)
  show ?case by (simp add: sends_web_def pwa_new_def)
qed (rule pwa_step_sends)


section \<open>What the services never hear\<close>

definition writes_objects :: "js_lib \<Rightarrow> bool" where
  "writes_objects L \<longleftrightarrow> (\<forall>fs. \<exists>r. js_stringify L (JObj fs) = 0x7B # r)"

lemma text_encode_brace: "\<exists>r'. text_encode (0x7B # r) = 0x7B # r'"
  by (cases r) (simp_all add: text_encode_def utf8_bytes_def high_surrogate_def low_surrogate_def)

lemma dispatch_cid: "dispatch data = Ok m \<Longrightarrow> take 4 data = u32_le (fst (message_fields m))"
proof -
  assume d: "dispatch data = Ok m"
  then obtain c xs where c: "find (\<lambda>c. ctor_id c = from_le (slice_of 0 4 data)) core_schema = Some c"
    and xs: "deserialize_struct c data = Ok xs" and m: "m = message_of (from_le (slice_of 0 4 data)) xs" and l: "4 \<le> length data"
    by (auto simp: dispatch_def Let_def split: if_splits option.splits)
  from c have s: "c \<in> set core_schema" "ctor_id c = from_le (slice_of 0 4 data)" by (auto simp: find_Some_iff)
  have t: "list_all2 has_type xs (map field_ty (ctor_fields c))"
    using xs by (auto simp: deserialize_struct_def dest: deserialize_fields_type split: if_splits)
  have "fst (message_fields m) = from_le (slice_of 0 4 data)" using message_fields_of [OF s(1) t] s(2) m by simp
  then show ?thesis using l to_le_from_le [of "take 4 data", where 'w = 32] by (simp add: slice_of_def min_absorb2)
qed

lemma serialize_cid: "take 4 (serialize m) = u32_le (fst (message_fields m))"
  by (simp add: serialize_def serialize_struct_def split: prod.split)

lemma web_frame_dispatch:
  assumes "web_frame L d" "writes_objects L" "dispatch d = Ok m"
  shows "m \<noteq> InboxAck i t \<and> m \<noteq> KeysUploadPrekeys a b c"
proof -
  have cid: "take 4 d = u32_le (fst (message_fields m))" by (rule dispatch_cid [OF assms(3)])
  have kind: "fst (message_fields m') \<noteq> 0xC2000005 \<and> fst (message_fields m') \<noteq> 0xB2000001" if "web_message m'" for m'
    using that by (cases m') (simp_all add: web_message_def)
  from assms(1) consider (json) fs where "d = text_encode (js_stringify L (JObj fs))" | (msg) m' where "d = serialize m'" "web_message m'"
    unfolding web_frame_def by blast
  then show ?thesis
  proof cases
    case json
    obtain r where "js_stringify L (JObj fs) = 0x7B # r" using assms(2) unfolding writes_objects_def by blast
    then have "hd d = 0x7B" "d \<noteq> []" using text_encode_brace [of r] unfolding json by auto
    then have "hd (serialize m) = 0x7B"
      using arg_cong [OF cid, of hd] arg_cong [OF serialize_cid [of m], of hd] by (simp add: hd_take)
    then show ?thesis using serialize_not_json [of m] by simp
  next
    case msg
    then have "u32_le (fst (message_fields m')) = u32_le (fst (message_fields m))" using cid serialize_cid [of m'] by simp
    then have "fst (message_fields m') = fst (message_fields m)" by (simp only: u32le.enc_inject)
    then show ?thesis using kind [OF msg(2)] by auto
  qed
qed


lemma published_touch [simp]: "published (touch now sid g) = published g"
  by (simp add: touch_def)

lemma ascii_eq_iff: "ascii s = ascii t \<longleftrightarrow> s = t"
proof -
  have "unat (word_of_nat (of_char c) :: u8) = of_char c" for c :: char
    by (simp add: unsigned_of_nat take_bit_eq_mod)
  then have "inj (\<lambda>c. word_of_nat (of_char c) :: u8)" by (metis injI of_char_eq_iff)
  then show ?thesis by (simp add: ascii_def inj_map_eq_map)
qed

definition private_subject :: "rstring \<Rightarrow> bool" where
  "private_subject s \<longleftrightarrow> s = ascii ''signaling.inbox_ack'' \<or> s = ascii ''signaling.upload_prekeys''"

lemma route_message_subject:
  assumes "route_message sid fr m g = (g1, sub, target)" "\<forall>i t. m \<noteq> InboxAck i t" "\<forall>a b c. m \<noteq> KeysUploadPrekeys a b c"
  shows "published g1 = published g \<and> \<not> private_subject sub"
proof -
  have "[] \<noteq> ascii ''signaling.inbox_ack''" "[] \<noteq> ascii ''signaling.upload_prekeys''" by (simp_all add: ascii_def)
  with assms show ?thesis
    by (cases m) (auto simp: route_message_def try_direct_or_subject_def Let_def private_subject_def ascii_eq_iff split: option.splits)
qed

lemma route_frame_published:
  assumes "\<forall>i t. dispatch (payload fr) \<noteq> Ok (InboxAck i t)" "\<forall>a b c. dispatch (payload fr) \<noteq> Ok (KeysUploadPrekeys a b c)"
    and "private_subject sub"
  shows "(sub, x) \<in> set (published (fst (route_frame J ok sid fr g))) \<longleftrightarrow> (sub, x) \<in> set (published g)"
proof (cases "if hd (payload fr) = 0x7B then from_slice J (payload fr) else None")
  case (Some j)
  with assms(3) show ?thesis by (auto simp: route_frame_def Let_def private_subject_def ascii_eq_iff)
next
  case None
  show ?thesis
  proof (cases "dispatch (payload fr)")
    case (Err e)
    with None assms(3) show ?thesis by (auto simp: route_frame_def Let_def private_subject_def ascii_eq_iff)
  next
    case (Ok m)
    obtain g1 s target where r: "route_message sid fr m g = (g1, s, target)" by (metis prod_cases3)
    then have "published g1 = published g" "sub \<noteq> s" using route_message_subject [OF r] assms Ok by auto
    with None Ok r show ?thesis by (simp add: route_frame_def Let_def split: option.split)
  qed
qed

text \<open>C21. The web client keeps two things from the services.  Whatever it does and receives, no frame it ever sent makes a gateway
  publish an acknowledgement of an inbox fetch, or an upload of prekeys.  What the signaling service handed out for its inbox thus
  stays claimed until the claim expires and is then delivered again, and no other client can learn its inbox identifier from
  the prekey store.\<close>

theorem web_client_never_acknowledges:
  assumes "pwa_reachable L st" "writes_objects L" "(k, d) \<in> set (pw_sent st)" "private_subject sub"
  shows "(sub, x) \<in> set (published (fst (read_step J sid e (ws_frame d) b g))) \<longleftrightarrow> (sub, x) \<in> set (published g)"
proof -
  have "web_frame L d" using pwa_reachable_sends [OF assms(1)] assms(3) by (auto simp: sends_web_def list_all_iff)
  then have w: "dispatch d \<noteq> Ok (InboxAck i t)" "dispatch d \<noteq> Ok (KeysUploadPrekeys a b c)" for i t a b c
    using web_frame_dispatch [OF _ assms(2)] by blast+
  have "payload (ws_frame d) = d" by (simp add: ws_frame_def Let_def)
  then have r: "(sub, x) \<in> set (published (fst (route_frame J ok sid (ws_frame d) g'))) \<longleftrightarrow> (sub, x) \<in> set (published g')" for ok g'
    using w by (intro route_frame_published assms(4)) auto
  have i: "(sub, x) \<in> set (published (fst (handle_session_init J ok n u sid d' g'))) \<longleftrightarrow> (sub, x) \<in> set (published g')" for ok n u d' g'
    using assms(4) by (auto simp add: handle_session_init_def Let_def private_subject_def ascii_eq_iff split: result.split Message.split)
  let ?g = "touch (env_now e) sid g"
  have "fst (read_step J sid e (ws_frame d) b g)
      \<in> {?g, enqueue sid [] PONG ?g, fst (handle_session_init J (env_pub_ok e) (env_nonce e) (env_unix e) sid (payload (ws_frame d)) ?g),
         fst (route_frame J (env_pub_ok e) sid (ws_frame d) ?g)}"
    by (simp add: read_step_def Let_def split: prod.split result.split)
  then show ?thesis using r [of "env_pub_ok e" ?g] i [of "env_pub_ok e" "env_nonce e" "env_unix e" "payload (ws_frame d)" ?g]
    by (elim insertE) simp_all
qed

definition demo_js :: js_lib where
  "demo_js = \<lparr>js_parse = (\<lambda>s. None), js_stringify = (\<lambda>j. [0x7B, 0x7D]), js_sha256 = (\<lambda>bs. [word_of_nat (sum_list (map unat bs))])\<rparr>"

theorem web_client_never_acknowledges_witness:
  "(ascii ''signaling.inbox_ack'', [1]) \<notin>
     set (published (fst (read_step demo_json 1 \<lparr>env_now = 0, env_pub_ok = True, env_nonce = [9], env_unix = 5\<rparr>
       (ws_frame (encodeSessionInit [7] [1])) (rate_limiter_new 0) gateway_new)))"
proof -
  let ?st = "on_open 0 [1] (fst (connectToGateway 0 (pwa_new [7])))"
  have "pwa_reachable demo_js (fst (connectToGateway 0 (pwa_new [7])))" by (rule reach_step [OF reach_new step_connect])
  then have r: "pwa_reachable demo_js ?st"
    by (rule reach_step) (simp add: step_open connectToGateway_def pwa_new_def)
  have o: "writes_objects demo_js" by (simp add: writes_objects_def demo_js_def)
  have s: "(0, encodeSessionInit [7] [1]) \<in> set (pw_sent ?st)"
    by (simp add: on_open_def connectToGateway_def pwa_new_def send_def ws_is_open_def set_timer_def)
  have "private_subject (ascii ''signaling.inbox_ack'')" by (simp add: private_subject_def)
  note n = web_client_never_acknowledges [OF r o s this, of "[1]" demo_json 1
      "\<lparr>env_now = 0, env_pub_ok = True, env_nonce = [9], env_unix = 5\<rparr>" "rate_limiter_new 0" gateway_new]
  show ?thesis unfolding n by (simp add: gateway_new_def)
qed


section \<open>Chat\<close>

lemma length_text_encode: "length (text_encode s) \<le> 3 * length s"
proof -
  have u: "length (utf8_bytes c) \<le> (if c < 0x10000 then 3 else 4)" for c by (simp add: utf8_bytes_def)
  have "sum_list (map (\<lambda>c. length (utf8_bytes c)) (code_points s)) \<le> 3 * length s"
  proof (induction s rule: code_points.induct)
    case (2 x)
    then show ?case using u [of "unat x"] u [of REPLACEMENT] unsigned_less [of x, where ?'a = nat] by (auto simp: REPLACEMENT_def)
  next
    case (3 x y us)
    show ?case
    proof (cases "high_surrogate x \<and> low_surrogate y")
      case True
      with 3(1) u [of "0x10000 + (unat x - 0xD800) * 0x400 + (unat y - 0xDC00)"] show ?thesis by simp
    next
      case False
      define v where "v = (if high_surrogate x \<or> low_surrogate x then REPLACEMENT else unat x)"
      have "length (utf8_bytes v) \<le> 3"
        using u [of "unat x"] u [of REPLACEMENT] unsigned_less [of x, where ?'a = nat] by (auto simp: v_def REPLACEMENT_def)
      moreover have "code_points (x # y # us) = v # code_points (y # us)" using False by (simp only: code_points.simps if_False v_def)
      ultimately show ?thesis using 3(2) [OF False] by simp
    qed
  qed simp
  then show ?thesis by (simp add: text_encode_def length_concat comp_def)
qed

lemma on_message_chat:
  assumes "well_formed body" "body \<noteq> [] \<longrightarrow> hd body \<noteq> 0xFEFF" "length body \<le> MAX_MSG_LEN" "fits_u32 p"
  shows "on_message L k now (serialize (ChatSend p (text_encode body) [] 0)) r = pwa_emit (PwaMessage (hexEncode p) body now) r"
proof -
  have "fits_u32 (text_encode body)" using length_text_encode [of body] assms(3) by (simp add: fits_u32_def MAX_MSG_LEN_def)
  then have "msg_wf (ChatSend p (text_encode body) [] 0)" using assms(4) by (simp add: msg_wf_def) (simp add: fits_u32_def)
  then have "pwa_dispatch (serialize (ChatSend p (text_encode body) [] 0)) = Some (PChatSend p (text_encode body) [] 0)"
    using pwa_dispatch_serialize [of _ "[]"] by (simp add: pwa_view_def)
  then show ?thesis
    using text_decode_encode [of body] assms by (simp add: on_message_def handleMessage_def truncate_text_def)
qed

text \<open>C20. Chat between two web clients: what one of them sends to the identifier it shows for the other passes through a gateway on
  which both are registered and is shown by the other with the same text and the identifier the sender
  registered.  The text is not encrypted: the gateway reads it from the frame it receives.\<close>

theorem web_chat_end_to_end:
  assumes "pw_ws st = Some k" "k \<in> set (pw_open st)" "local_session g p = Some s" "map_of (connections g) sid = Some c"
    and "well_formed body" "body \<noteq> [] \<longrightarrow> hd body \<noteq> 0xFEFF" "length body \<le> MAX_MSG_LEN" "fits_u32 p" "fits_u32 (conn_peer_id c)"
  shows "\<exists>d d'. pw_sent (sendMessage (hexEncode p) body now st) = pw_sent st @ [(k, d)]
    \<and> dispatch d = Ok (ChatSend p (text_encode body) [] 0)
    \<and> route_frame J ok sid (ws_frame d) g = (enqueue s d' NONE g, Ok ())
    \<and> on_message L k' now' d' r = pwa_emit (PwaMessage (hexEncode (conn_peer_id c)) body now') r"
proof (intro exI conjI)
  let ?d = "serialize (ChatSend p (text_encode body) [] 0)"
  have "fits_u32 (text_encode body)" using length_text_encode [of body] assms(7) by (simp add: fits_u32_def MAX_MSG_LEN_def)
  then have wf: "msg_wf (ChatSend p (text_encode body) [] 0)" using assms(8) by (simp add: msg_wf_def) (simp add: fits_u32_def)
  have w: "payload (ws_frame ?d) = ?d" by (simp add: ws_frame_def Let_def)
  show "pw_sent (sendMessage (hexEncode p) body now st) = pw_sent st @ [(k, ?d)]"
    using assms(1,2) by (simp add: sendMessage_def send_def ws_is_open_def pwa_encoders hex_roundtrip)
  show "dispatch ?d = Ok (ChatSend p (text_encode body) [] 0)" using dispatch_serialize [OF wf, of "[]"] by simp
  show "route_frame J ok sid (ws_frame ?d) g = (enqueue s (serialize (ChatSend (conn_peer_id c) (text_encode body) [] 0)) NONE g, Ok ())"
    using route_frame_chat [OF w wf] assms(3,4) by (simp add: peer_of_session_def)
  show "on_message L k' now' (serialize (ChatSend (conn_peer_id c) (text_encode body) [] 0)) r
      = pwa_emit (PwaMessage (hexEncode (conn_peer_id c)) body now') r"
    by (rule on_message_chat [OF assms(5-7,9)])
qed

theorem web_chat_end_to_end_witness:
  "\<exists>d d'. pw_sent (sendMessage (hexEncode [7]) [0x68, 0x69] 5 ((pwa_new [8])\<lparr>pw_ws := Some 0, pw_open := [0]\<rparr>)) = [(0, d)]
    \<and> dispatch d = Ok (ChatSend [7] (text_encode [0x68, 0x69]) [] 0)
    \<and> on_message demo_js 0 6 d' (pwa_new [7]) = pwa_emit (PwaMessage (hexEncode [8]) [0x68, 0x69] 6) (pwa_new [7])"
proof -
  let ?g = "gateway_new\<lparr>connections := [(1, \<lparr>conn_session_id = 1, conn_peer_id = [8], last_activity = 0\<rparr>),
      (2, \<lparr>conn_session_id = 2, conn_peer_id = [7], last_activity = 0\<rparr>)], peers := [([7], 2), ([8], 1)]\<rparr>"
  have "well_formed [0x68, 0x69]" by (simp add: high_surrogate_def low_surrogate_def)
  with web_chat_end_to_end [of "(pwa_new [8])\<lparr>pw_ws := Some 0, pw_open := [0]\<rparr>" 0 ?g "[7]" 2 1
      "\<lparr>conn_session_id = 1, conn_peer_id = [8], last_activity = 0\<rparr>" "[0x68, 0x69]" 5 demo_json True demo_js 0 6 "pwa_new [7]"]
  show ?thesis by (simp add: local_session_def MAX_MSG_LEN_def fits_u32_def pwa_new_def) blast
qed


section \<open>Files\<close>

lemma total_chunks_bound: "length data \<le> total_chunks data * PWA_CHUNK_SIZE"
  unfolding total_chunks_def PWA_CHUNK_SIZE_def Let_def by auto

lemma pwa_chunk_eq: "pwa_chunk data i = take PWA_CHUNK_SIZE (drop (i * PWA_CHUNK_SIZE) data)"
  by (simp add: pwa_chunk_def min_def take_all_iff)

lemma concat_pwa_chunks: "concat (map (pwa_chunk data) [0..<n]) = take (n * PWA_CHUNK_SIZE) data"
proof (induction n)
  case (Suc n)
  have "Suc n * PWA_CHUNK_SIZE = n * PWA_CHUNK_SIZE + PWA_CHUNK_SIZE" by simp
  with Suc show ?case by (simp only: take_add) (simp add: pwa_chunk_eq)
qed simp

lemma pwa_chunks_all: "concat (map (pwa_chunk data) [0..<total_chunks data]) = data"
  using total_chunks_bound by (simp add: concat_pwa_chunks)

lemma pwa_view_dispatch: "msg_wf m \<Longrightarrow> pwa_dispatch (serialize m) = Some (pwa_view m)"
  using pwa_dispatch_serialize [of m "[]"] by simp

lemma unat_u32: "n < 2 ^ 32 \<Longrightarrow> unat (word_of_nat n :: u32) = n"
  by (simp add: unsigned_of_nat take_bit_eq_mod)

lemma handle_offer:
  assumes "fits_u32 p" "fits_u32 f" "fits_u32 h" "fits_u32 (text_encode name)" "text_decode (text_encode name) = name"
    and "sz < 2 ^ 64" "n < 2 ^ 32"
  shows "handleMessage L now (encodeFileOffer p f name sz n h 0) st =
    pwa_emit (PwaFileOffered (hexEncode p) (hexEncode f) name sz) (set_timer (now + FILE_TRANSFER_TIMEOUT_MS) (FileTimer (hexEncode f) name)
      (st\<lparr>pw_files := AList.update (hexEncode f)
         \<lparr>fb_name = name, fb_size = sz, fb_total = n, fb_chunks = [], fb_hash = h, fb_created = now\<rparr> (pw_files st)\<rparr>))"
proof -
  have "msg_wf (FileOffer p f (text_encode name) (word_of_nat sz) (word_of_nat n) h 0)" using assms by (simp add: msg_wf_def utf8_valid_text_encode)
  moreover have "unat (word_of_nat sz :: u64) = sz" using assms(6) by (simp add: unsigned_of_nat take_bit_eq_mod)
  ultimately show ?thesis using assms(5,7)
    by (simp add: handleMessage_def pwa_encoders pwa_view_dispatch pwa_view_def unat_u32 Let_def)
qed

lemma handle_chunk:
  assumes "fits_u32 p" "fits_u32 f" "fits_u32 d" "fits_u32 h" "i < 2 ^ 32" "map_of (pw_files st) (hexEncode f) = Some b"
  shows "handleMessage L now (encodeFileChunk p f i d h [] 0) st =
    send (encodeFileChunkAck p f i) (pwa_emit (PwaFileProgress (hexEncode f) (length (AList.update i d (fb_chunks b))) (fb_total b))
      (st\<lparr>pw_files := AList.update (hexEncode f) (b\<lparr>fb_chunks := AList.update i d (fb_chunks b)\<rparr>) (pw_files st)\<rparr>))"
proof -
  have "msg_wf (FileChunk p f (word_of_nat i) d h [] 0)" using assms by (simp add: msg_wf_def fits_u32_def)
  then show ?thesis using assms(5,6)
    by (simp add: handleMessage_def pwa_encoders pwa_view_dispatch pwa_view_def unat_u32 Let_def)
qed

lemma handle_complete:
  assumes "fits_u32 p" "fits_u32 f" "map_of (pw_files st) (hexEncode f) = Some b"
  shows "handleMessage L now (encodeFileComplete p f) st = st\<lparr>pw_digests := pw_digests st @ [(hexEncode f, b, assemble b)]\<rparr>"
proof -
  have "msg_wf (FileComplete p f)" using assms by (simp add: msg_wf_def)
  then show ?thesis using assms(3) by (simp add: handleMessage_def pwa_encoders pwa_view_dispatch pwa_view_def)
qed


lemma alist_update_new: "k \<notin> fst ` set xs \<Longrightarrow> AList.update k v xs = xs @ [(k, v)]"
  by (induction xs) auto

lemma ws_is_open_same: "pw_ws a = pw_ws b \<Longrightarrow> pw_open a = pw_open b \<Longrightarrow> ws_is_open a = ws_is_open b"
  by (simp add: ws_is_open_def split: option.split)

lemma receive_chunks:
  fixes now :: nat and data :: bytes
  assumes fits: "fits_u32 p" "fits_u32 f" "\<forall>x. fits_u32 (js_sha256 L x)" and n: "n \<le> 2 ^ 32"
    and b: "map_of (pw_files st) (hexEncode f) = Some b" "fb_chunks b = []"
  defines "st' m \<equiv> fold (handleMessage L now)
      (map (\<lambda>i. encodeFileChunk p f i (pwa_chunk data i) (js_sha256 L (pwa_chunk data i)) [] 0) [0..<m]) st"
  shows "map_of (pw_files (st' n)) (hexEncode f) = Some (b\<lparr>fb_chunks := map (\<lambda>i. (i, pwa_chunk data i)) [0..<n]\<rparr>)
    \<and> pw_digests (st' n) = pw_digests st \<and> pw_ws (st' n) = pw_ws st \<and> pw_open (st' n) = pw_open st
    \<and> pw_sent (st' n) = pw_sent st @ (if ws_is_open st then map (\<lambda>i. (the (pw_ws st), encodeFileChunkAck p f i)) [0..<n] else [])
    \<and> pw_events (st' n) = pw_events st @ map (\<lambda>i. PwaFileProgress (hexEncode f) (i + 1) (fb_total b)) [0..<n]"
  using n
proof (induction n)
  case 0
  then show ?case using b by (simp add: st'_def)
next
  case (Suc n)
  have c: "fits_u32 (pwa_chunk data n)" by (simp add: pwa_chunk_eq PWA_CHUNK_SIZE_def fits_u32_def)
  have s: "st' (Suc n) = handleMessage L now (encodeFileChunk p f n (pwa_chunk data n) (js_sha256 L (pwa_chunk data n)) [] 0) (st' n)"
    by (simp add: st'_def)
  note ih = Suc.IH [OF Suc_leD [OF Suc.prems]]
  have u: "AList.update n (pwa_chunk data n) (map (\<lambda>i. (i, pwa_chunk data i)) [0..<n]) = map (\<lambda>i. (i, pwa_chunk data i)) [0..<Suc n]"
    by (subst alist_update_new) auto
  have "handleMessage L now (encodeFileChunk p f n (pwa_chunk data n) (js_sha256 L (pwa_chunk data n)) [] 0) (st' n) =
    send (encodeFileChunkAck p f n) (pwa_emit (PwaFileProgress (hexEncode f) (n + 1) (fb_total b))
      ((st' n)\<lparr>pw_files := AList.update (hexEncode f) (b\<lparr>fb_chunks := map (\<lambda>i. (i, pwa_chunk data i)) [0..<Suc n]\<rparr>) (pw_files (st' n))\<rparr>))"
    using handle_chunk [OF fits(1,2) c spec [OF fits(3), of "pwa_chunk data n"] _ conjunct1 [OF ih], where L = L and i = n and now = now] Suc.prems
    by (simp add: u del: upt_Suc)
  moreover have "ws_is_open (pwa_emit ev ((st' n)\<lparr>pw_files := F\<rparr>)) = ws_is_open st" for ev F
    by (rule ws_is_open_same) (simp_all add: ih)
  ultimately show ?case using ih unfolding s by (simp add: send_def update_conv')
qed

text \<open>C28. A file sent by one web client and received by another: when the frames of the upload arrive in order, the receiver reports
  the offer, one step of progress per chunk, and offers for download exactly the bytes of the file under its name
  without the characters a path could use, and forgets the buffer.  Every chunk is acknowledged to the
  identifier in the chunk, which is the receiver's own.\<close>

theorem web_file_transfer:
  fixes now k :: nat
  assumes "fits_u32 p" "fits_u32 f" "\<forall>x. fits_u32 (js_sha256 L x)" "total_chunks data < 2 ^ 32"
    and "well_formed name" "name \<noteq> [] \<longrightarrow> hd name \<noteq> 0xFEFF" "fits_u32 (text_encode name)" "pw_digests r = []"
  defines "r' \<equiv> digest_done L (fold (handleMessage L now) (map fst (upload_frames L k p f name data)) r)"
    and "fid \<equiv> hexEncode f" and "n \<equiv> total_chunks data"
  shows "pw_events r' = pw_events r @ [PwaFileOffered (hexEncode p) fid name (length data)]
      @ map (\<lambda>i. PwaFileProgress fid (i + 1) n) [0..<n] @ [PwaDownload (sanitizeFilename name) data, PwaFileComplete fid]
    \<and> map_of (pw_files r') fid = None
    \<and> pw_sent r' = pw_sent r @ (if ws_is_open r then map (\<lambda>i. (the (pw_ws r), encodeFileChunkAck p f i)) [0..<n] else [])"
proof -
  have dec: "text_decode (text_encode name) = name" using text_decode_encode assms(5,6) by blast
  have "length data \<le> n * PWA_CHUNK_SIZE" unfolding n_def by (rule total_chunks_bound)
  also have "\<dots> < 2 ^ 64" using assms(4) by (simp add: n_def PWA_CHUNK_SIZE_def)
  finally have l: "length data < 2 ^ 64" .
  define b where "b = \<lparr>fb_name = name, fb_size = length data, fb_total = n, fb_chunks = [], fb_hash = js_sha256 L data, fb_created = now\<rparr>"
  define r1 where "r1 = handleMessage L now (encodeFileOffer p f name (length data) n (js_sha256 L data) 0) r"
  have r1: "map_of (pw_files r1) fid = Some b" "pw_digests r1 = []" "pw_sent r1 = pw_sent r" "pw_ws r1 = pw_ws r" "pw_open r1 = pw_open r"
    "pw_events r1 = pw_events r @ [PwaFileOffered (hexEncode p) fid name (length data)]"
    using handle_offer [OF assms(1,2) spec [OF assms(3), of data] assms(7) dec l assms(4), of L now r] assms(8)
    by (simp_all add: r1_def b_def n_def fid_def update_conv')
  have w: "ws_is_open r1 = ws_is_open r" by (rule ws_is_open_same [OF r1(4,5)])
  define r2 where "r2 = fold (handleMessage L now)
      (map (\<lambda>i. encodeFileChunk p f i (pwa_chunk data i) (js_sha256 L (pwa_chunk data i)) [] 0) [0..<n]) r1"
  define b2 where "b2 = b\<lparr>fb_chunks := map (\<lambda>i. (i, pwa_chunk data i)) [0..<n]\<rparr>"
  have "n \<le> 2 ^ 32" "fb_chunks b = []" using assms(4) by (simp_all add: n_def b_def)
  then have r2: "map_of (pw_files r2) fid = Some b2" "pw_digests r2 = pw_digests r1"
    "pw_sent r2 = pw_sent r1 @ (if ws_is_open r1 then map (\<lambda>i. (the (pw_ws r1), encodeFileChunkAck p f i)) [0..<n] else [])"
    "pw_events r2 = pw_events r1 @ map (\<lambda>i. PwaFileProgress fid (i + 1) (fb_total b)) [0..<n]"
    using receive_chunks [OF assms(1-3) _ r1(1) [unfolded fid_def], where n = n and now = now and data = data]
    unfolding r2_def b2_def fid_def by blast+
  have "assemble b2 = concat (map (pwa_chunk data) [0..<n])"
    unfolding assemble_def by (rule arg_cong [of _ _ concat]) (simp add: b2_def b_def map_of_map_restrict)
  then have a: "assemble b2 = data" using pwa_chunks_all by (simp add: n_def)
  have "r' = digest_done L (handleMessage L now (encodeFileComplete p f) r2)"
    by (simp add: r'_def r2_def r1_def upload_frames_def Let_def n_def comp_def)
  also have "\<dots> = digest_done L (r2\<lparr>pw_digests := [(fid, b2, data)]\<rparr>)"
    using handle_complete [OF assms(1,2) r2(1) [unfolded fid_def]] a r2(2) r1(2) by (simp add: fid_def)
  finally have r': "r' = digest_done L (r2\<lparr>pw_digests := [(fid, b2, data)]\<rparr>)" .
  have "fb_hash b2 = js_sha256 L data" "fb_name b2 = name" "fb_total b = n" by (simp_all add: b2_def b_def)
  then show ?thesis unfolding r' by (simp add: digest_done_def Let_def delete_conv' r2 r1 w)
qed


theorem web_file_transfer_witness:
  "pw_events (digest_done demo_js (fold (handleMessage demo_js 5) (map fst (upload_frames demo_js 0 [7] [9] (js ''a/b'') [1, 2, 3])) (pwa_new [7])))
    = [PwaFileOffered (hexEncode [7]) (hexEncode [9]) (js ''a/b'') 3, PwaFileProgress (hexEncode [9]) 1 1, PwaDownload (js ''a_b'') [1, 2, 3],
       PwaFileComplete (hexEncode [9])]"
proof -
  have n: "js ''a/b'' = [97, 47, 98]" "js ''a_b'' = [97, 95, 98]" by (simp_all add: js_def)
  have "text_encode [97, 47, 98] = [97, 47, 98]" by (simp add: text_encode_def utf8_bytes_def high_surrogate_def low_surrogate_def)
  moreover have "well_formed [97, 47, 98]" by (simp add: high_surrogate_def low_surrogate_def)
  moreover have "total_chunks [1, 2, 3] = 1" by (simp add: total_chunks_def PWA_CHUNK_SIZE_def)
  moreover have "sanitizeFilename [97, 47, 98] = [97, 95, 98]" by (simp add: sanitizeFilename_def js_def)
  ultimately show ?thesis
    using web_file_transfer [of "[7]" "[9]" demo_js "[1, 2, 3]" "[97, 47, 98]" "pwa_new [7]" 5 0] unfolding n
    by (simp add: fits_u32_def demo_js_def pwa_new_def)
qed

section \<open>Timers\<close>

text \<open>The timer of a link request is not tied to the request that set it: after a first request was answered, its timer
  still fires and rejects a second one that was made in the meantime, before the second one's own ten seconds
  are over.\<close>

theorem stale_link_timer:
  assumes "createLink L t1 st = (st1, k1)" "pw_timers st = []" "\<forall>k r. (k, r) \<in> set (pw_settled st) \<longrightarrow> k < pw_next st"
    and "text_field j ''link_id'' = Some l" "truthy_field j ''link_id''"
    and "createLink L t2 (handle_json j st1) = (st3, k2)" "t1 < t2" "t2 < t1 + 10000"
  defines "st4 \<equiv> run_timer (t1 + 10000) st3"
  shows "(k1, ResolvedText l) \<in> set (pw_settled st4) \<and> (k2, Rejected ''create_link timeout'') \<in> set (pw_settled st4)
    \<and> t1 + 10000 < t2 + 10000 \<and> k1 \<noteq> k2"
proof -
  have k: "k1 = pw_next st" "pw_pending_link st1 = Some k1" "pw_settled st1 = pw_settled st" "pw_next st1 = k1 + 1"
    "pw_timers st1 = [(t1 + 10000, LinkTimer)]"
    using assms(1,2) by (auto simp: createLink_def Let_def set_timer_def)
  have fresh: "k1 \<notin> fst ` set (pw_settled st)" using assms(3) k(1) by fastforce
  have a: "pw_settled (handle_json j st1) = pw_settled st @ [(k1, ResolvedText l)]" "pw_next (handle_json j st1) = k1 + 1"
    "pw_timers (handle_json j st1) = [(t1 + 10000, LinkTimer)]"
    using assms(4,5) k fresh by (simp_all add: handle_json_def settle_def)
  have k2: "k2 = k1 + 1" "pw_pending_link st3 = Some k2" "pw_settled st3 = pw_settled st @ [(k1, ResolvedText l)]"
    "pw_timers st3 = [(t1 + 10000, LinkTimer), (t2 + 10000, LinkTimer)]"
    using assms(6) a by (auto simp: createLink_def Let_def set_timer_def)
  have "k2 \<notin> fst ` set (pw_settled st3)" using assms(3) k(1) k2(1,3) by fastforce
  then show ?thesis using k2 assms(7,8) by (simp add: st4_def run_timer_def link_timeout_def settle_def)
qed

theorem stale_link_timer_witness:
  "let j = JObj [(ascii ''link_id'', JStr [97])];
       st1 = fst (createLink demo_js 0 (pwa_new [7])); st3 = fst (createLink demo_js 9000 (handle_json j st1))
   in (1, Rejected ''create_link timeout'') \<in> set (pw_settled (run_timer 10000 st3))"
proof -
  let ?j = "JObj [(ascii ''link_id'', JStr [97])]"
  have j: "text_field ?j ''link_id'' = Some (text_decode [97])" "truthy_field ?j ''link_id''"
    by (simp_all add: text_field_def truthy_field_def)
  let ?st1 = "fst (createLink demo_js 0 (pwa_new [7]))"
  have k: "snd (createLink demo_js 9000 (handle_json ?j ?st1)) = 1" "snd (createLink demo_js 0 (pwa_new [7])) = 0"
    using j by (simp_all add: createLink_def Let_def handle_json_def pwa_new_def)
  have e: "createLink demo_js 0 (pwa_new [7]) = (?st1, 0)"
    "createLink demo_js 9000 (handle_json ?j ?st1) = (fst (createLink demo_js 9000 (handle_json ?j ?st1)), 1)"
    using k by (metis prod.collapse)+
  show ?thesis using stale_link_timer [OF e(1) _ _ j e(2)] by (simp add: pwa_new_def Let_def)
qed

end
