(* ===== verification/Spec2Isabelle.thy ===== *)
theory Spec2Isabelle
  imports Onion_Relay Transfer_Sender Gateway Signaling_Invariant Client_Fetch Desktop_App Dtls_Session Relay_Pairing Schema_Parser
    Service_Setup Pwa_Client
begin

text \<open>
  A verification development for Cypher, an end-to-end encrypted messenger and file transfer system (a Rust
  workspace under \<^verbatim>\<open>src/\<close>).

  \<^bold>\<open>The program.\<close>  A client (\<^verbatim>\<open>crates/cypher-client-core\<close>) keeps a connection to a \<^emph>\<open>gateway\<close>
  (\<^verbatim>\<open>services/gateway\<close>) that carries length-delimited frames (\<^verbatim>\<open>crates/cypher-transport\<close>) with binary messages
  (\<^verbatim>\<open>crates/cypher-proto\<close>).  The gateway delivers to peers connected to it and hands everything else over a
  message bus to the \<^emph>\<open>signaling\<close> service (\<^verbatim>\<open>services/signaling\<close>), which keeps routes, links, prekeys and blind inboxes in
  Redis.  Messages are encrypted with X3DH and the Double Ratchet (\<^verbatim>\<open>crates/cypher-crypto\<close>); files are cut into
  chunks, sent with a window and put together (\<^verbatim>\<open>crates/cypher-transfer\<close>).  Peers look for a direct path with STUN, ICE
  and hole punching and protect it with an HMAC session (\<^verbatim>\<open>crates/cypher-nat\<close>), or use the \<^emph>\<open>relay\<close>
  (\<^verbatim>\<open>services/relay\<close>), which pairs two connections or, in onion mode, forwards sealed requests to signaling.  The desktop
  application (\<^verbatim>\<open>clients/desktop/src-tauri\<close>) drives a client and keeps its identity and history.  The web client
  (\<^verbatim>\<open>clients/pwa\<close>) is a second client, written in TypeScript, that speaks the same protocol over a WebSocket.

  \<^bold>\<open>Theories.\<close>
  \<^item> \<^verbatim>\<open>Cypher_Prelude\<close>: machine integers, byte strings, errors and results (\<^verbatim>\<open>cypher-common/src/error.rs\<close>), slices,
    UTF-8, trimming, fixed-width integer codecs and their contract \<^verbatim>\<open>fixed_codec\<close>.
  \<^item> \<^verbatim>\<open>Common_Types\<close>: identifiers, link encoding, token bucket (\<^verbatim>\<open>cypher-common/src/types.rs\<close>, \<^verbatim>\<open>ratelimit.rs\<close>).
  \<^item> \<^verbatim>\<open>Frame_Codec\<close>: \<^verbatim>\<open>frame.rs\<close>, \<^verbatim>\<open>codec.rs\<close>, \<^verbatim>\<open>session.rs\<close> of the transport.  Frames decode to themselves, and the
    way a stream is cut into reads does not matter.
  \<^item> \<^verbatim>\<open>Proto_Wire\<close>: field codecs with their contract \<^verbatim>\<open>cursor_codec\<close>, the code \<^verbatim>\<open>build.rs\<close> emits, the schema
    \<^verbatim>\<open>core.p2p\<close>.  Dispatch inverts serialization.
  \<^item> \<^verbatim>\<open>Crypto_Base\<close>, \<^verbatim>\<open>Crypto_Identity\<close>, \<^verbatim>\<open>Double_Ratchet\<close>: the primitives as a parameter, \<^verbatim>\<open>aead.rs\<close>,
    \<^verbatim>\<open>identity.rs\<close>, \<^verbatim>\<open>x3dh.rs\<close>, \<^verbatim>\<open>ratchet.rs\<close>.  Both sides agree on a secret, conversations decrypt in any order
    within the limits, stored keys are bounded, and a replay desynchronises the receiver.
  \<^item> \<^verbatim>\<open>Onion_Client\<close>, \<^verbatim>\<open>Onion_Relay\<close>: \<^verbatim>\<open>onion/{padding,circuit,encoder,decoder}.rs\<close> of the client and \<^verbatim>\<open>onion.rs\<close> of
    the relay.  A request and its response pass end to end; replays are refused on one connection only.
  \<^item> \<^verbatim>\<open>File_Transfer\<close>, \<^verbatim>\<open>Transfer_Sender\<close>: chunker, assembler, receiver and windowed sender.
  \<^item> \<^verbatim>\<open>Service_Common\<close>, \<^verbatim>\<open>Gateway\<close>: JSON values, hexadecimal, envelopes; the gateway's tables, read loop, routing,
    removal and heartbeat.  The tables keep their invariant and refine a directory of peers.
  \<^item> \<^verbatim>\<open>Signaling\<close>, \<^verbatim>\<open>Signaling_Inbox\<close>, \<^verbatim>\<open>Signaling_Invariant\<close>: all handlers, the Lua scripts, signed two-phase inbox
    fetch, and the invariant of the store.
  \<^item> \<^verbatim>\<open>Nat_Stun\<close>, \<^verbatim>\<open>Dtls_Session\<close>: the STUN server of signaling, the STUN client, candidates, hole punching, the ICE
    agent, and the authenticated UDP session.
  \<^item> \<^verbatim>\<open>Relay_Pairing\<close>: the pairing table and the forwarding tasks of the relay, as interleaved steps.
  \<^item> \<^verbatim>\<open>Client_Store\<close>: the message database \<^verbatim>\<open>persistence/*.rs\<close> and the identity file \<^verbatim>\<open>identity_store.rs\<close>.  The tables
    implement a log of messages and a store of sessions (contracts \<^verbatim>\<open>message_log\<close>, \<^verbatim>\<open>session_store\<close>); scrolling through the
    history delivers what was saved; an identity survives with its passphrase.
  \<^item> \<^verbatim>\<open>Client_Core\<close>, \<^verbatim>\<open>Client_Runtime\<close>: \<^verbatim>\<open>crypto.rs\<close>, the state of \<^verbatim>\<open>api.rs\<close>, \<^verbatim>\<open>api/{messaging,files}.rs\<close> and the background
    task \<^verbatim>\<open>api/runtime.rs\<close>.
  \<^item> \<^verbatim>\<open>Client_Inbox\<close>, \<^verbatim>\<open>Client_Fetch\<close>: \<^verbatim>\<open>onion/{bootstrap,fetcher}.rs\<close>.  However the jobs are shuffled and distributed, a
    fetch returns every batch once and acknowledges it.
  \<^item> \<^verbatim>\<open>Client_Connect\<close>: \<^verbatim>\<open>connection.rs\<close>, \<^verbatim>\<open>signaling.rs\<close>, \<^verbatim>\<open>onion/{shadow,relay_client,pool,service,cover,jitter}.rs\<close>,
    \<^verbatim>\<open>do_connect\<close>, \<^verbatim>\<open>api/network.rs\<close>, \<^verbatim>\<open>p2p.rs\<close>.  Connecting succeeds against the services' answers and fails when a
    message overtakes them; the pool is not bounded by its target; direct connections are not tried.
  \<^item> \<^verbatim>\<open>Desktop_App\<close>: the application \<^verbatim>\<open>clients/desktop/src-tauri\<close>.  What a restart restores, and what it loses.
  \<^item> \<^verbatim>\<open>Schema_Parser\<close>: the parser of \<^verbatim>\<open>build.rs\<close>.  A schema file is read as its declarations, and \<^verbatim>\<open>core.p2p\<close> as the schema of
    \<^verbatim>\<open>Proto_Wire\<close>.
  \<^item> \<^verbatim>\<open>Service_Setup\<close>: secret files of the services (\<^verbatim>\<open>key_store.rs\<close>, \<^verbatim>\<open>identity.rs\<close>, contract \<^verbatim>\<open>persistent_secret\<close>), configuration,
    the relay's announcement, loading of certificates.  What survives a restart, and when a start is blocked for good.
  \<^item> \<^verbatim>\<open>Pwa_Wire\<close>, \<^verbatim>\<open>Pwa_Client\<close>: \<^verbatim>\<open>api/proto.ts\<close> and \<^verbatim>\<open>api/index.ts\<close> of the web client, with strings as UTF-16 code units and the text
    encoder and decoder of the platform.  Its codec agrees with the one of the services; chat and files pass between
    two web clients; it never acknowledges an inbox fetch; an old timer rejects a new request.
  \<^item> This theory composes clients, gateway, relay and signaling service.

  \<^bold>\<open>State and effects.\<close>  A Rust struct is a record, an enumeration a datatype, a method a function that returns the state
  it leaves behind, also on the error path.  A hash map is an association list with distinct keys.  What is put on a
  queue, published on the bus or emitted as an event is appended to a list in the state.  Tasks that run concurrently
  (gateway sessions, relay tasks) are steps that interleave freely.  A call that waits for a reply is split where it
  waits.  Random bytes, the clock, the outcome of a socket or bus operation and the contents of files are arguments.
  Integers keep their width; sequence numbers and counters wrap.  Promises of the web client are numbers with a list of
  their outcomes, and its timers and continuations are lists from which any step may take an entry.

  \<^bold>\<open>Parameters.\<close>  The cryptographic primitives (\<^verbatim>\<open>crypto\<close>, laws \<^verbatim>\<open>crypto_ok\<close>), the JSON text codec (\<^verbatim>\<open>json_lib\<close>,
  \<^verbatim>\<open>json_ok\<close>), the Redis server (\<^verbatim>\<open>redis\<close>, \<^verbatim>\<open>redis_ok\<close>), the compressor, the serializer of sessions and Argon2 (\<^verbatim>\<open>client_env\<close>, \<^verbatim>\<open>codecs_ok\<close>)
  and the JSON functions and SHA-256 of the browser (\<^verbatim>\<open>js_lib\<close>) are records of functions with the documented
  behaviour as named hypotheses; each has a concrete instance that satisfies them.  No secrecy is claimed: the
  laws only say that opening inverts sealing, that agreement commutes, that a signature verifies under its own key.

  \<^bold>\<open>Bounds and fuel.\<close>  Definitions terminate without fuel except \<^verbatim>\<open>strip_many\<close>, whose fuel is the length of the string and is
  shown to be enough (\<^verbatim>\<open>strip_many_stops\<close>).  The loops over sockets and channels run over the finite list of what they
  deliver.  The limits of the code (256 skipped keys per message and 2048 in total, frame and chunk sizes, 256 messages of a
  first burst, the limit on skipped keys) appear with the code's values.

  \<^bold>\<open>Not modelled.\<close>  Sockets, the TLS protocol and task scheduling; metrics and logging; the SQL engine, represented by its
  tables; the Tor transport, an optional feature; the views of the desktop and web front ends, and the stores of the web
  client, which wrap the browser's database and cryptography; the load test; expiry of Redis keys; the capacity of
  channels; floating-point rounding in the token bucket.  Texts of errors are shortened where the code includes the
  text of another error in them.  A number where the web client expects a text in a JSON answer is read as the empty text.
\<close>

section \<open>Composition\<close>

text \<open>The frames of one session, routed one after the other by the gateway.\<close>

primrec gw_route_all :: "json_lib \<Rightarrow> bool \<Rightarrow> u64 \<Rightarrow> bytes list \<Rightarrow> Gateway \<Rightarrow> Gateway" where
  "gw_route_all J ok sid [] g = g"
| "gw_route_all J ok sid (b # bs) g =
    gw_route_all J ok sid bs (fst (route_frame J ok sid \<lparr>seq_no = 0, ack = 0, flags = NONE, payload = b\<rparr> g))"

lemma gw_route_all_chat:
  "local_session g b = Some s \<Longrightarrow> \<forall>(c, rk, n)\<in>set ms. msg_wf (ChatSend b c rk n) \<Longrightarrow>
    queued (gw_route_all J ok sid (map (chat_frame b) ms) g)
      = queued g @ map (\<lambda>m. (s, chat_frame (peer_of_session g sid) m, NONE)) ms"
proof (induction ms arbitrary: g)
  case (Cons m ms)
  obtain c rk n where m: "m = (c, rk, n)" by (cases m)
  let ?fr = "\<lparr>seq_no = 0, ack = 0, flags = NONE, payload = chat_frame b m\<rparr>"
  have r: "fst (route_frame J ok sid ?fr g) = enqueue s (serialize (ChatSend (peer_of_session g sid) c rk n)) NONE g"
    using Cons.prems m by (subst route_frame_chat [of _ b c rk n]) (simp_all add: chat_frame_def)
  have "peer_of_session (enqueue s d fl g) sid = peer_of_session g sid" for d fl
    by (simp add: peer_of_session_def enqueue_def)
  moreover have "queued (enqueue s d fl g) = queued g @ [(s, d, fl)]" for d fl by (simp add: enqueue_def)
  ultimately show ?case using Cons.IH [of "fst (route_frame J ok sid ?fr g)"] Cons.prems r m
    by (simp add: chat_frame_def)
qed simp

lemma prekeys_found_answer:
  "prekey_answer (prekeys_found_json \<lparr>pb_identity_key = ik, pb_signed_prekey = spk, pb_inbox_id = i\<rparr>) ik spk"
  by (simp add: prekey_answer_def prekeys_found_json_def json_bytes_field_def json_field_def ascii_def of_bytes_def
      as_byte_vec_of_bytes [unfolded of_bytes_def] del: as_byte_vec.simps)


definition demo_two_peers :: Gateway where
  "demo_two_peers = \<lparr>connections = [(1, \<lparr>conn_session_id = 1, conn_peer_id = fit 32 [1], last_activity = 0\<rparr>),
       (2, \<lparr>conn_session_id = 2, conn_peer_id = fit 32 [2], last_activity = 0\<rparr>)],
     peers = [(fit 32 [1], 1), (fit 32 [2], 2)], next_session_id = 3, published = [], queued = []\<rparr>"

lemma demo_two_peers_tables:
  "local_session demo_two_peers (fit 32 [2]) = Some 2" "peer_of_session demo_two_peers 1 = fit 32 [1]"
  by (simp_all add: demo_two_peers_def local_session_def peer_of_session_def fit_def)


section \<open>Inbox delivery\<close>

lemma inbox_blob_batch: "[] \<notin> set raws \<Longrightarrow> inbox_blob (map hex_encode raws) = batch_blob raws"
  by (induction raws) (auto simp: inbox_blob_def batch_blob_def Let_def)

lemma length_batch_blob: "m \<in> set ms \<Longrightarrow> length m \<le> length (batch_blob ms)"
  by (induction ms) (auto simp: batch_blob_def)

lemma fetch_body_verified:
  assumes ok: "sig_ok E view" "st_inv E view st" "crypto_ok C" "msg_wf (InboxFetch i)" "sg_pub_ok E (reply_subject reply sid)"
    and stored: "inbox_of view st i = map hex_encode raws" "[] \<notin> set raws" "length (batch_blob raws) < 2 ^ 32"
    and sent: "sig_sent (fst (handle_inbox_fetch E C sr t reply (bus_msg E sid (InboxFetch i)) st))
      = sig_sent st @ [(subject, body)]"
  shows "\<exists>resp n. parse_inbox_response body = Ok resp
    \<and> verify_inbox_response C (signer_verifying_key C sr) i resp = Ok ()
    \<and> claim_token resp = Some (generate_claim_token C sr i t)
    \<and> dispatch (proto_payload resp) = Ok (InboxMessages (batch_blob raws) n)
    \<and> inbox_batch (batch_blob raws) 0 = raws"
proof -
  let ?b = "batch_blob raws" and ?n = "word_of_nat (length raws) :: u32" and ?tok = "generate_claim_token C sr i t"
  let ?sig = "sign_inbox_response C sr ?b ?n i t"
  let ?resp = "\<lparr>proto_payload = serialize (InboxMessages ?b ?n), claim_token = Some ?tok, server_sig = Some ?sig\<rparr>"
  have body: "body = serialize (InboxMessages ?b ?n) @ ?tok @ ?sig"
    using inbox_fetch_effect(2) [OF ok(1,2,4), of reply sid C sr t] ok(5) sent stored(1) inbox_blob_batch [OF stored(2)]
    by (simp add: inbox_of_def)
  have wf: "msg_wf (InboxMessages ?b ?n)" using stored(3) by (simp add: msg_wf_def fits_u32_def)
  have tok: "?tok = u64_le t @ hmac C (hmac_secret sr) (i @ u64_le t)" by (simp add: generate_claim_token_def)
  have "length ?tok = 40" "length ?sig = 64" "length (hmac C (hmac_secret sr) (i @ u64_le t)) = 32"
    by (simp_all add: tok sign_inbox_response_def hmac_length [OF ok(3)] ed_sign_length [OF ok(3)])
  note l = this
  have "parse_inbox_response body = Ok ?resp" unfolding body by (rule parse_signed [OF wf l(1,2)])
  moreover have "verify_inbox_response C (signer_verifying_key C sr) i ?resp = Ok ()"
    by (subst verify_signed [OF wf tok l(3)])
       (simp add: signer_verifying_key_def sign_inbox_response_def signed_inbox_data_def
          ed_verify_sign [OF ok(3), of "signing_seed sr" "?b @ u32_le ?n @ i @ u64_le t", simplified])
  moreover have "dispatch (proto_payload ?resp) = Ok (InboxMessages ?b ?n)" using dispatch_serialize [OF wf, of "[]"] by simp
  moreover have "inbox_batch ?b 0 = raws"
    using inbox_batch_blob [of raws "[]"] stored(3) length_batch_blob le_less_trans by (metis append_Nil list.size(3))
  ultimately show ?thesis by (metis SignedInboxResponse.select_convs(2))
qed

text \<open>Inbox fetch, from the server to the client.  Whatever the signaling service holds for an inbox, the body it
  publishes in answer to a fetch parses on the client as a signed response, passes the client's check against the
  server's verifying key, carries the claim token of that fetch, and its payload decodes to a batch from which
  the client's loop recovers exactly the stored messages in their order.\<close>

theorem inbox_fetch_verified:
  assumes ok: "sig_ok E view" "st_inv E view st" "crypto_ok C" "msg_wf (InboxFetch i)" "sg_pub_ok E (reply_subject reply sid)"
    and stored: "inbox_of view st i = map hex_encode raws" "[] \<notin> set raws" "length (batch_blob raws) < 2 ^ 32"
    and sent: "sig_sent (fst (handle_inbox_fetch E C sr t reply (bus_msg E sid (InboxFetch i)) st))
      = sig_sent st @ [(subject, body)]"
  shows "\<exists>resp n. parse_inbox_response body = Ok resp
    \<and> verify_inbox_response C (signer_verifying_key C sr) i resp = Ok ()
    \<and> claim_token resp = Some (generate_claim_token C sr i t)
    \<and> dispatch (proto_payload resp) = Ok (InboxMessages (batch_blob raws) n)
    \<and> inbox_batch (batch_blob raws) 0 = raws"
  by (rule fetch_body_verified [OF assms])

theorem inbox_fetch_verified_witness:
  "let st = fst (handle_inbox_store demo_sig (bus_msg demo_sig 1 (InboxStore [7] [1, 2])) empty_state);
       st1 = fst (handle_inbox_fetch demo_sig demo_crypto demo_signer 1000 None (bus_msg demo_sig 2 (InboxFetch [7])) st)
   in \<exists>subject body resp n. sig_sent st1 = sig_sent st @ [(subject, body)] \<and> parse_inbox_response body = Ok resp
      \<and> verify_inbox_response demo_crypto (signer_verifying_key demo_crypto demo_signer) [7] resp = Ok ()
      \<and> dispatch (proto_payload resp) = Ok (InboxMessages (batch_blob [[1, 2]]) n)
      \<and> inbox_batch (batch_blob [[1, 2]]) 0 = [[1, 2]]"
proof -
  let ?st = "fst (handle_inbox_store demo_sig (bus_msg demo_sig 1 (InboxStore [7] [1, 2])) empty_state)"
  have wf: "msg_wf (InboxFetch [7])" by (simp add: msg_wf_def fits_u32_def)
  have i: "inbox_of (\<lambda>s. s) ?st [7] = map hex_encode [[1, 2]]" by (simp add: inbox_of_def demo_inbox_state(2))
  have p: "sg_pub_ok demo_sig s" for s by (simp add: demo_sig_def)
  note s = inbox_fetch_effect(2) [where view = "\<lambda>s. s", OF demo_sig_ok demo_inbox_state(1) wf p,
      where C = demo_crypto and sr = demo_signer and t = 1000 and reply = None and sid = 2]
  from inbox_fetch_verified [where view = "\<lambda>s. s", OF demo_sig_ok demo_inbox_state(1) demo_crypto_ok wf p i _ _ s]
  show ?thesis unfolding Let_def using s by (fastforce simp: batch_blob_def)
qed

section \<open>Anonymous inbox fetch\<close>

text \<open>A request of the relay on the bus, served by the signaling service: the first message on the reply subject is the
  answer, and a request that nobody answers times out.\<close>

definition sig_serve :: "'r sig_env \<Rightarrow> crypto \<Rightarrow> ServerSigner \<Rightarrow> u64 \<Rightarrow> rstring \<Rightarrow> string \<Rightarrow> envelope \<Rightarrow> 'r sig_state \<Rightarrow> 'r sig_state" where
  "sig_serve E C sr now reply subject env st =
    fst (handle_message E C sr \<lparr>in_now = now, in_reply = Some reply, in_link = []\<rparr> subject
      (to_text (sg_json E) (envelope_json (env_session_id env) (env_payload env))) st)"

definition sig_request :: "'r sig_env \<Rightarrow> crypto \<Rightarrow> ServerSigner \<Rightarrow> u64 \<Rightarrow> rstring \<Rightarrow> 'r sig_state \<Rightarrow> nats_request" where
  "sig_request E C sr now reply st subject env =
    (case map_of (drop (length (sig_sent st)) (sig_sent (sig_serve E C sr now reply subject env st))) reply of
       Some data \<Rightarrow> Ok data
     | None \<Rightarrow> Err Timeout)"

lemma serve_fetch:
  "sig_serve E C sr t reply ''signaling.inbox_fetch'' \<lparr>env_session_id = 0, env_payload = serialize (InboxFetch i)\<rparr> st
    = fst (handle_inbox_fetch E C sr t (Some reply) (bus_msg E 0 (InboxFetch i)) st)"
  by (simp add: sig_serve_def handle_message_def bus_msg_def)

lemma serve_ack:
  "sig_serve E C sr t reply ''signaling.inbox_ack'' \<lparr>env_session_id = 0, env_payload = serialize (InboxAck i k)\<rparr> st
    = fst (handle_inbox_ack E C sr t (Some reply) (bus_msg E 0 (InboxAck i k)) st)"
  by (simp add: sig_serve_def handle_message_def bus_msg_def)

lemma ack_answered:
  assumes "sig_ok E view" "msg_wf (InboxAck i k)" "verify_claim_token C sr t i k INBOX_CLAIM_TTL_SECS" "sg_pub_ok E reply"
  shows "sig_sent (fst (handle_inbox_ack E C sr t (Some reply) (bus_msg E 0 (InboxAck i k)) st))
    = sig_sent st @ [(reply, serialize (InboxMessages [] 0))]"
  unfolding handle_inbox_ack_def open_bus_msg [OF assms(1,2)]
  by (simp only: result.case prod.case Message.case assms(3,4) Let_def sig_publish_def reply_subject_def option.case
      not_True_eq_False if_True if_False fst_conv) simp

lemma exchange_new_circuit:
  assumes "crypto_ok C" "\<forall>q\<in>set qs. inbox_request (fst q) \<and> small_reply (bus_reply (snd q) (fst q))"
    and "length rid = 16" "length cs < MAX_CIRCUITS" "map_of cs (x25519_public C ek, rid) = None" "length qs < 2 ^ 64"
  shows "exchange C rs qs (circuit_new C ek rid (x25519_public C rs)) cs = map (\<lambda>(m, nats). bus_reply nats m) qs"
  by (rule exchange_replies [OF assms(1,2)])
     (use assms in \<open>simp_all add: circuit_new_def admits_def derive_circuit_key_eq x25519_public_length x25519_commute [of C ek rs]\<close>)

lemma inbox_requests:
  assumes "crypto_ok C" "length i < 2 ^ 16"
  shows "inbox_request (InboxFetch i)" "inbox_request (InboxAck i (generate_claim_token C sr i t))"
  using assms claim_token_length [OF assms(1), of sr i t]
  by (simp_all add: inbox_request_def subject_for_def msg_wf_def fits_u32_def serialize_def serialize_struct_def encode_bytes_def pad4_def)

text \<open>C7. Anonymous inbox fetch, through client, relay and signaling service.  The client's onion request passes the relay, which
  asks the signaling service and seals the answer; the client gets a response that verifies under the server's key and holds
  exactly the stored messages.  Its acknowledgement on the same circuit removes the claim, so that the messages
  are neither in the inbox nor can be recovered into it.\<close>

theorem anonymous_fetch_end_to_end:
  assumes ok: "sig_ok E view" "st_inv E view st" "crypto_ok C" "length i < 2 ^ 16" "sg_pub_ok E reply"
    and stored: "inbox_of view st i = map hex_encode raws" "[] \<notin> set raws" "length (batch_blob raws) < 2 ^ 31"
    and circ: "length rid = 16" "length cs < MAX_CIRCUITS" "map_of cs (x25519_public C ek, rid) = None"
    and t: "t \<le> a" "unat a \<le> unat t + 300" "unat a + 60 < 2 ^ 64"
  shows "let tok = generate_claim_token C sr i t;
      st1 = sig_serve E C sr t reply ''signaling.inbox_fetch'' \<lparr>env_session_id = 0, env_payload = serialize (InboxFetch i)\<rparr> st;
      st2 = sig_serve E C sr a reply ''signaling.inbox_ack'' \<lparr>env_session_id = 0, env_payload = serialize (InboxAck i tok)\<rparr> st1
    in \<exists>body ackbody resp n.
      exchange C rs [(InboxFetch i, sig_request E C sr t reply st), (InboxAck i tok, sig_request E C sr a reply st1)]
        (circuit_new C ek rid (x25519_public C rs)) cs = [Ok body, Ok ackbody]
      \<and> parse_inbox_response body = Ok resp \<and> verify_inbox_response C (signer_verifying_key C sr) i resp = Ok ()
      \<and> claim_token resp = Some tok
      \<and> dispatch (proto_payload resp) = Ok (InboxMessages (batch_blob raws) n) \<and> inbox_batch (batch_blob raws) 0 = raws
      \<and> inbox_of view st2 i = [] \<and> view (sig_store st2) (claim_key tok) = None"
proof -
  let ?tok = "generate_claim_token C sr i t"
  let ?st1 = "fst (handle_inbox_fetch E C sr t (Some reply) (bus_msg E 0 (InboxFetch i)) st)"
  let ?st2 = "fst (handle_inbox_ack E C sr a (Some reply) (bus_msg E 0 (InboxAck i ?tok)) ?st1)"
  let ?b = "batch_blob raws" and ?n = "word_of_nat (length raws) :: u32"
  let ?body = "serialize (InboxMessages ?b ?n) @ ?tok @ sign_inbox_response C sr ?b ?n i t"
  note req = inbox_requests(1) [OF ok(3,4)] inbox_requests(2) [OF ok(3,4), of sr t]
  then have wf: "msg_wf (InboxFetch i)" "msg_wf (InboxAck i ?tok)" by (simp_all add: inbox_request_def)
  have i1: "st_inv E view ?st1" by (rule handle_inbox_fetch_inv [OF ok(1,2)])
  have ver: "verify_claim_token C sr a i ?tok INBOX_CLAIM_TTL_SECS"
    using t by (intro verify_own_token [OF ok(3)]) (simp_all add: INBOX_CLAIM_TTL_SECS_def)
  have pub: "sg_pub_ok E (reply_subject (Some reply) 0)" using ok(5) by (simp add: reply_subject_def)
  have s1: "sig_sent ?st1 = sig_sent st @ [(reply, ?body)]"
    using inbox_fetch_effect(2) [OF ok(1,2) wf(1) pub, of C sr t] stored(1) inbox_blob_batch [OF stored(2)]
    by (simp add: inbox_of_def reply_subject_def)
  have s2: "sig_sent ?st2 = sig_sent ?st1 @ [(reply, serialize (InboxMessages [] 0))]"
    by (rule ack_answered [OF ok(1) wf(2) ver ok(5)])
  have r: "bus_reply (sig_request E C sr t reply st) (InboxFetch i) = Ok ?body"
      "bus_reply (sig_request E C sr a reply ?st1) (InboxAck i ?tok) = Ok (serialize (InboxMessages [] 0))"
    by (simp_all add: bus_reply_def subject_for_def sig_request_def serve_fetch serve_ack s1 s2)
  have "length ?body < 2 ^ 32" "length (serialize (InboxMessages [] 0)) < 2 ^ 32"
    using stored(3) claim_token_length [OF ok(3), of sr i t] ed_sign_length [OF ok(3)]
    by (simp_all add: serialize_def serialize_struct_def encode_bytes_def pad4_def sign_inbox_response_def)
  then have "\<forall>q\<in>set [(InboxFetch i, sig_request E C sr t reply st), (InboxAck i ?tok, sig_request E C sr a reply ?st1)].
      inbox_request (fst q) \<and> small_reply (bus_reply (snd q) (fst q))"
    using req r by (simp add: small_reply_def)
  from exchange_new_circuit [OF ok(3) this circ, of rs, simplified list.size]
  have x: "exchange C rs [(InboxFetch i, sig_request E C sr t reply st), (InboxAck i ?tok, sig_request E C sr a reply ?st1)]
      (circuit_new C ek rid (x25519_public C rs)) cs = [Ok ?body, Ok (serialize (InboxMessages [] 0))]"
    by (simp only: list.map prod.case r) (simp del: exchange.simps)
  have e: "inbox_of view ?st2 i = []" "view (sig_store ?st2) (claim_key ?tok) = None"
    using inbox_ack_effect [OF ok(1) i1 wf(2) ver, of "Some reply" 0] inbox_fetch_effect(1) [OF ok(1,2) wf(1), of C sr t "Some reply" 0]
    by (simp_all add: inbox_of_def)
  from stored(3) have "length ?b < 2 ^ 32" by simp
  from fetch_body_verified [OF ok(1-3) wf(1) pub stored(1,2) this s1] x e show ?thesis
    unfolding Let_def serve_fetch serve_ack by blast
qed

theorem anonymous_fetch_end_to_end_witness:
  "let st = fst (handle_inbox_store demo_sig (bus_msg demo_sig 1 (InboxStore [7] [1, 2])) empty_state);
       tok = generate_claim_token demo_crypto demo_signer [7] 1000;
       st1 = sig_serve demo_sig demo_crypto demo_signer 1000 [5] ''signaling.inbox_fetch''
               \<lparr>env_session_id = 0, env_payload = serialize (InboxFetch [7])\<rparr> st
   in \<exists>body ackbody resp n.
     exchange demo_crypto [5] [(InboxFetch [7], sig_request demo_sig demo_crypto demo_signer 1000 [5] st),
         (InboxAck [7] tok, sig_request demo_sig demo_crypto demo_signer 1010 [5] st1)]
       (circuit_new demo_crypto [6] (replicate 16 9) (x25519_public demo_crypto [5])) [] = [Ok body, Ok ackbody]
     \<and> parse_inbox_response body = Ok resp
     \<and> verify_inbox_response demo_crypto (signer_verifying_key demo_crypto demo_signer) [7] resp = Ok ()
     \<and> dispatch (proto_payload resp) = Ok (InboxMessages (batch_blob [[1, 2]]) n) \<and> inbox_batch (batch_blob [[1, 2]]) 0 = [[1, 2]]"
proof -
  let ?st = "fst (handle_inbox_store demo_sig (bus_msg demo_sig 1 (InboxStore [7] [1, 2])) empty_state)"
  have i: "inbox_of (\<lambda>s. s) ?st [7] = map hex_encode [[1, 2]]" by (simp add: inbox_of_def demo_inbox_state(2))
  have p: "sg_pub_ok demo_sig [5]" by (simp add: demo_sig_def)
  have l: "length [7 :: u8] < 2 ^ 16" "[] \<notin> set [[1, 2 :: u8]]" "length (batch_blob [[1, 2]]) < 2 ^ 31"
      "length (replicate 16 (9 :: u8)) = 16" "length ([] :: CircuitCache) < MAX_CIRCUITS"
      "map_of ([] :: CircuitCache) (x25519_public demo_crypto [6], replicate 16 9) = None"
      "(1000 :: u64) \<le> 1010" "unat (1010 :: u64) \<le> unat (1000 :: u64) + 300" "unat (1010 :: u64) + 60 < 2 ^ 64"
    by (simp_all add: batch_blob_def MAX_CIRCUITS_def)
  from anonymous_fetch_end_to_end [where view = "\<lambda>s. s", OF demo_sig_ok demo_inbox_state(1) demo_crypto_ok l(1) p i l(2-9),
      where sr = demo_signer and rs = "[5]"]
  show ?thesis unfolding Let_def by blast
qed

section \<open>Files\<close>

lemma route_file_offer:
  assumes wf: "msg_wf (FileOffer b fid nm sz ch h z)" and l: "local_session g b = Some s"
  shows "queued (gw_route_all J ok sid [serialize (FileOffer b fid nm sz ch h z)] g)
    = queued g @ [(s, serialize (FileOffer b fid nm sz ch h z), NONE)]"
  using l by (simp add: route_frame_message [OF _ wf] route_message_def try_direct_or_subject_def enqueue_def)

lemma prepare_send_meta:
  assumes "prepare_send E contents nm = Ok (meta, ch)"
  shows "meta_name meta = nm \<and> meta_file_id meta = ce_fresh_file E
    \<and> meta_hash meta = sha256 (ce_crypto E) (concat (blocks contents))"
  using assms by (auto simp: prepare_send_def Let_def chunker_meta_def chunker_new_def split: if_splits)

lemma send_file_queues:
  assumes "send_file E pid contents nm A = (A1, Ok meta)" "cl_outbound A = Some q" "cl_io_alive A"
  shows "cl_outbound A1 = Some (q @ [(serialize (FileOffer (peer_bytes pid) (file_id_bytes (meta_file_id meta)) (meta_name meta)
      (meta_size meta) (meta_chunk_count meta) (meta_hash meta) (if meta_compressed meta then 1 else 0)), NONE)])
    \<and> (\<exists>ch. prepare_send E contents nm = Ok (meta, ch))"
  using assms by (auto simp: send_file_def send_raw_def Let_def split: result.splits)

text \<open>C39. A file offer is attributed to its recipient.  The gateway replaces the peer identifier of a chat message by that
  of its sender but passes a file offer through unchanged, so the offer arrives with the recipient's own
  identifier: the recipient reports a file offered by itself, and accepting it sends a \<^verbatim>\<open>FileAccept\<close> addressed to itself
  that the sender never sees.\<close>

theorem file_offer_misattributed:
  assumes C: "crypto_ok (ce_crypto EA)" and fid: "ce_fresh_file EA = FileId f" "length f = 16"
    and nm: "utf8_valid nm" "length nm < 2 ^ 32"
    and b: "cl_peer_id B = PeerId b" "length b = 32" "cl_outbound B = Some q" "cl_io_alive B"
    and offered: "send_file EA (PeerId b) contents nm A = (A1, Ok meta)" "cl_outbound A = Some []" "cl_io_alive A"
    and g: "local_session g b = Some sb"
    and B1: "B1 = dispatch_inbound EB (fst (hd (the (cl_outbound A1)))) B"
  shows "queued (gw_route_all J ok sa (map fst (the (cl_outbound A1))) g)
      = queued g @ [(sb, fst (hd (the (cl_outbound A1))), NONE)]
    \<and> cl_events B1 = cl_events B @ [EvFileOffered (cl_peer_id B) meta]
    \<and> cl_outbound (fst (accept_file f None dest B1)) = Some (q @ [(serialize (FileAccept b f), NONE)])"
proof -
  let ?z = "if meta_compressed meta then 1 else 0 :: u32"
  let ?offer = "FileOffer b f (meta_name meta) (meta_size meta) (meta_chunk_count meta) (meta_hash meta) ?z"
  obtain ch where ch: "prepare_send EA contents nm = Ok (meta, ch)"
    using send_file_queues [OF offered] by blast
  note m = prepare_send_meta [OF ch]
  have q: "cl_outbound A1 = Some [(serialize ?offer, NONE)]"
    using send_file_queues [OF offered] m fid(1) by simp
  have wf: "msg_wf ?offer"
    using m nm b(2) fid(2) by (auto simp: msg_wf_def fits_u32_def sha256_length [OF C])
  have meta: "\<lparr>meta_file_id = FileId f, meta_name = meta_name meta, meta_size = meta_size meta,
      meta_chunk_count = meta_chunk_count meta, meta_hash = meta_hash meta, meta_compressed = (?z \<noteq> 0)\<rparr> = meta"
    using m fid(1) by simp
  have "dispatch (serialize ?offer) = Ok ?offer" using dispatch_serialize [OF wf, of "[]"] by simp
  then have B1': "B1 = emit (EvFileOffered (PeerId b) meta)
      (B\<lparr>cl_pending_metas := AList.update f (meta, PeerId b) (cl_pending_metas B)\<rparr>)"
    using serialize_not_json [of ?offer] b(2) fid(2) meta
    by (simp add: B1 q dispatch_inbound_def handle_file_offer_def peer_from_bytes_def file_id_from_bytes_def)
  have "cl_outbound (fst (accept_file f None dest B1)) = Some (q @ [(serialize (FileAccept b f), NONE)])"
    using b(3,4) by (simp add: accept_file_def B1' load_state_def send_raw_def Let_def update_conv')
  then show ?thesis using route_file_offer [OF wf g, of J ok sa] b(1) q B1' by simp
qed

theorem file_offer_misattributed_witness:
  "let A1 = fst (send_file (demo_env 5) (PeerId (fit 32 [2])) [] (ascii ''a'') (demo_client 1));
       body = fst (hd (the (cl_outbound A1)));
       B1 = dispatch_inbound (demo_env 6) body (demo_client 2)
   in \<exists>meta. queued (gw_route_all demo_json True 1 (map fst (the (cl_outbound A1))) demo_two_peers) = [(2, body, NONE)]
      \<and> cl_events B1 = [EvFileOffered (cl_peer_id (demo_client 2)) meta]
      \<and> cl_outbound (fst (accept_file (replicate 16 5) None [] B1))
        = Some [(serialize (FileAccept (fit 32 [2]) (replicate 16 5)), NONE)]"
proof -
  let ?A1 = "fst (send_file (demo_env 5) (PeerId (fit 32 [2])) [] (ascii ''a'') (demo_client 1))"
  obtain meta where s: "send_file (demo_env 5) (PeerId (fit 32 [2])) [] (ascii ''a'') (demo_client 1) = (?A1, Ok meta)"
    by (simp add: send_file_def prepare_send_def chunker_new_def send_raw_def demo_client_def client_new_def
        client_build_def Let_def)
  have o: "cl_outbound (demo_client i) = Some []" "cl_io_alive (demo_client i)" "cl_events (demo_client i) = []"
      "queued demo_two_peers = []" for i
    by (simp_all add: demo_client_def client_new_def client_build_def demo_two_peers_def)
  have e: "ce_crypto (demo_env 5) = demo_crypto" "ce_fresh_file (demo_env 5) = FileId (replicate 16 5)"
    by (simp_all add: demo_env_def)
  have n: "utf8_valid (ascii ''a'')" "length (ascii ''a'') < 2 ^ 32" by (simp_all add: ascii_def)
  note t = file_offer_misattributed [where EA = "demo_env 5" and EB = "demo_env 6" and J = demo_json and ok = True
      and sa = 1 and dest = "[]", unfolded e, OF demo_crypto_ok refl _ n demo_peer_id _ o(1,2) s o(1,2) demo_two_peers_tables(1) refl,
      unfolded o demo_peer_id]
  show ?thesis unfolding Let_def demo_peer_id using t by simp
qed

section \<open>Requests the server cannot satisfy\<close>

text \<open>A request for an unknown link is never answered.  The signaling service replies to a request for a link that does
  not exist with a JSON object that says so; the client's dispatch of JSON replies recognises none of its fields,
  so the pending request is not resolved and \<^verbatim>\<open>join_link\<close> goes on waiting for a reply that it has already received.\<close>

theorem missing_link_hangs:
  assumes ok: "sig_ok E view" "msg_wf (SignalRequestPeer link)" "sg_pub_ok E (session_subject sid)"
    and none: "view (sig_store st) (link_key link) = None"
    and brace: "\<And>kvs. to_text (sg_json E) (JObj kvs) \<noteq> [] \<and> hd (to_text (sg_json E) (JObj kvs)) = 0x7B"
    and cl: "ce_json EC = sg_json E" "\<forall>(u, j)\<in>set (cl_resolved cl). u < cl_next_ticket cl"
      "cl_join_link link cl = (cl1, Ok t)"
    and answered: "sig_sent (fst (handle_request_peer E (bus_msg E sid (SignalRequestPeer link)) st))
      = sig_sent st @ [(session_subject sid, body)]"
  shows "await_reply t (dispatch_inbound EC body cl1) = None"
proof -
  have R: "redis_ok (sg_redis E) view" using ok(1) by (simp add: sig_ok_def)
  have get: "r_get (sg_redis E) (sig_store st) (link_key link) = None"
    using none redis_okD(1) [OF R, of "sig_store st" "link_key link"] by simp
  let ?j = "not_found_json ''link not found or expired''"
  have "handle_request_peer E (bus_msg E sid (SignalRequestPeer link)) st
      = sig_publish E (session_subject sid) (to_text (sg_json E) ?j) st"
    unfolding handle_request_peer_def open_bus_msg [OF ok(1,2), of sid] by (simp add: get)
  then have "body = to_text (sg_json E) ?j"
    using answered ok(3) by (simp add: sig_publish_def)
  moreover have "from_slice (sg_json E) (to_text (sg_json E) ?j) = Some ?j"
    using ok(1) json_okD by (simp add: sig_ok_def)
  moreover have "dispatch_json ?j c = c" for c
    by (simp add: dispatch_json_def not_found_json_def json_field_def json_has_def ascii_def)
  ultimately have same: "dispatch_inbound EC body cl1 = cl1"
    using brace cl(1) by (simp add: dispatch_inbound_def not_found_json_def)
  have "t = cl_next_ticket cl" "cl_resolved cl1 = cl_resolved cl" "(JoinLink, t) \<in> set (cl_pending cl1)"
    using cl(3) by (auto simp: cl_join_link_def request_def new_pending_def send_raw_def split: option.splits if_splits
        intro: map_of_SomeD [of _ JoinLink] simp: update_conv')
  moreover from this have "map_of (cl_resolved cl1) t = None" using cl(2) by (force simp: map_of_eq_None_iff)
  ultimately show ?thesis unfolding same await_reply_def by force
qed

definition brace_json :: json_lib where
  "brace_json = \<lparr>from_slice = (\<lambda>b. Some (from_nat (length b - 1))), to_text = (\<lambda>j. replicate (Suc (to_nat j)) 0x7B)\<rparr>"

theorem missing_link_hangs_witness:
  "let E = demo_sig\<lparr>sg_json := brace_json\<rparr>; link = ascii ''x''; cl1 = fst (cl_join_link link (demo_client 1));
       st1 = fst (handle_request_peer E (bus_msg E 3 (SignalRequestPeer link)) empty_state)
   in \<exists>body. sig_sent st1 = [(session_subject 3, body)]
      \<and> await_reply 0 (dispatch_inbound ((demo_env 5)\<lparr>ce_json := brace_json\<rparr>) body cl1) = None"
proof -
  let ?E = "demo_sig\<lparr>sg_json := brace_json\<rparr>" and ?link = "ascii ''x''"
  have J: "json_ok brace_json" by (simp add: json_ok_def brace_json_def)
  have ok: "sig_ok ?E (\<lambda>s. s)" using J demo_sig_ok by (simp add: sig_ok_def)
  have wf: "msg_wf (SignalRequestPeer ?link)" by (simp add: msg_wf_def fits_u32_def ascii_def)
  have p: "sg_pub_ok ?E s" for s by (simp add: demo_sig_def)
  have b: "to_text (sg_json ?E) j \<noteq> [] \<and> hd (to_text (sg_json ?E) j) = 0x7B" for j by (simp add: brace_json_def)
  have s: "sig_store empty_state k = None" "sig_sent empty_state = []" for k by (simp_all add: empty_state_def)
  have get: "r_get (sg_redis ?E) (sig_store empty_state) (link_key ?link) = None"
    using redis_okD(1) [where view = "\<lambda>s. s", of "sg_redis ?E"] ok s by (simp add: sig_ok_def)
  have "handle_request_peer ?E (bus_msg ?E 3 (SignalRequestPeer ?link)) empty_state
      = sig_publish ?E (session_subject 3) (to_text (sg_json ?E) (not_found_json ''link not found or expired'')) empty_state"
    unfolding handle_request_peer_def open_bus_msg [OF ok wf, of 3] by (simp only: result.case prod.case Message.case get option.case)
  then have sent: "sig_sent (fst (handle_request_peer ?E (bus_msg ?E 3 (SignalRequestPeer ?link)) empty_state))
      = sig_sent empty_state @ [(session_subject 3, to_text (sg_json ?E) (not_found_json ''link not found or expired''))]"
    by (simp add: sig_publish_def p [simplified])
  have cl: "cl_join_link ?link (demo_client 1) = (fst (cl_join_link ?link (demo_client 1)), Ok 0)"
      "\<forall>(u, j)\<in>set (cl_resolved (demo_client 1)). u < cl_next_ticket (demo_client 1)"
    by (simp_all add: cl_join_link_def request_def new_pending_def send_raw_def demo_client_def client_new_def client_build_def)
  show ?thesis
    using missing_link_hangs [where view = "\<lambda>s. s" and E = ?E, OF ok wf p s(1) b _ cl(2,1) sent,
        of "(demo_env 5)\<lparr>ce_json := brace_json\<rparr>"] sent s(2)
    unfolding Let_def by simp
qed


section \<open>Offline messages of the web client\<close>

text \<open>What \<^verbatim>\<open>sendOfflineMessage\<close> stores for a sender and a text, and when the text is shown unchanged.\<close>

definition web_chat :: "bytes \<times> jsstring \<Rightarrow> bytes" where
  "web_chat m = encodeChatSend (fst m) (text_encode (snd m)) [] 0"

definition web_text_ok :: "bytes \<times> jsstring \<Rightarrow> bool" where
  "web_text_ok m \<longleftrightarrow> well_formed (snd m) \<and> (snd m \<noteq> [] \<longrightarrow> hd (snd m) \<noteq> 0xFEFF) \<and> length (snd m) \<le> MAX_MSG_LEN \<and> length (fst m) < 2 ^ 16"

definition web_events :: "nat \<Rightarrow> (bytes \<times> jsstring) list \<Rightarrow> pwa_event list" where
  "web_events now ms = map (\<lambda>(p, body). PwaMessage (hexEncode p) body now) ms"

lemma web_chat_wf: "web_text_ok m \<Longrightarrow> msg_wf (ChatSend (fst m) (text_encode (snd m)) [] 0)"
  using length_text_encode [of "snd m"] by (simp add: web_text_ok_def msg_wf_def fits_u32_def MAX_MSG_LEN_def)

lemma web_chat_dispatch: "web_text_ok m \<Longrightarrow> pwa_dispatch (web_chat m) = Some (PChatSend (fst m) (text_encode (snd m)) [] 0)"
  by (simp add: web_chat_def pwa_encoders pwa_view_dispatch [OF web_chat_wf] pwa_view_def)

lemma inbox_loop_chats:
  "\<forall>m\<in>set ms. web_text_ok m \<and> length (web_chat m) < 2 ^ 32 \<Longrightarrow>
    pw_events (inbox_loop now (batch_blob (map web_chat ms)) st) = pw_events st @ web_events now ms"
proof (induction ms arbitrary: st)
  case Nil
  show ?case by (subst inbox_loop.simps) (simp add: batch_blob_def web_events_def)
next
  case (Cons m ms)
  let ?w = "web_chat m" and ?r = "batch_blob (map web_chat ms)"
  have ok: "web_text_ok m" "length ?w < 2 ^ 32" using Cons.prems by simp_all
  have b: "batch_blob (map web_chat (m # ms)) = u32_le (word_of_nat (length ?w)) @ ?w @ ?r" by (simp add: batch_blob_def)
  have u: "unat (word_of_nat (length ?w) :: u32) = length ?w" using ok(2) by (rule unat_u32)
  have t: "truncate_text (text_decode (text_encode (snd m))) = snd m"
    using ok(1) text_decode_encode [of "snd m"] by (simp add: web_text_ok_def truncate_text_def)
  have "inbox_loop now (batch_blob (map web_chat (m # ms))) st
      = inbox_loop now ?r (pwa_emit (PwaMessage (hexEncode (fst m)) (snd m) now) st)"
    unfolding b by (subst inbox_loop.simps) (simp add: Let_def u32le.dec_enc u web_chat_dispatch [OF ok(1)] t)
  then show ?case using Cons by (simp add: web_events_def case_prod_beta)
qed

lemma on_message_inbox:
  assumes "\<forall>m\<in>set ms. web_text_ok m" "length (batch_blob (map web_chat ms)) < 2 ^ 32"
  shows "pw_events (on_message L k now (serialize (InboxMessages (batch_blob (map web_chat ms)) n) @ rest) r) = pw_events r @ web_events now ms"
proof -
  have "msg_wf (InboxMessages (batch_blob (map web_chat ms)) n)" using assms(2) by (simp add: msg_wf_def fits_u32_def)
  then have "pwa_dispatch (serialize (InboxMessages (batch_blob (map web_chat ms)) n) @ rest)
      = Some (PInboxMessages (batch_blob (map web_chat ms)) (unat n))"
    by (simp add: pwa_dispatch_serialize pwa_view_def)
  moreover have "\<forall>m\<in>set ms. web_text_ok m \<and> length (web_chat m) < 2 ^ 32"
    using assms length_batch_blob [of _ "map web_chat ms"] by (auto intro: le_less_trans)
  ultimately show ?thesis by (simp add: on_message_def handleMessage_def inbox_loop_chats)
qed


lemma web_fetch_shown:
  assumes "sig_ok E view" "st_inv E view st" "msg_wf (InboxFetch i)" "sg_pub_ok E (reply_subject reply sid)"
    and "inbox_of view st i = map hex_encode (map web_chat ms)" "\<forall>m\<in>set ms. web_text_ok m" "length (batch_blob (map web_chat ms)) < 2 ^ 32"
  shows "\<exists>a. sig_sent (fst (handle_inbox_fetch E C sr t reply (bus_msg E sid (InboxFetch i)) st)) = sig_sent st @ [(reply_subject reply sid, a)]
    \<and> (\<forall>L k now r. pw_events (on_message L k now a r) = pw_events r @ web_events now ms)"
proof -
  have "web_chat m \<noteq> []" for m
    using serialize_not_json [of "ChatSend (fst m) (text_encode (snd m)) [] 0"] by (simp add: web_chat_def pwa_encoders)
  then have "[] \<notin> set (map web_chat ms)" by (metis (no_types, lifting) imageE list.set_map)
  then have b: "inbox_blob (map hex_encode (map web_chat ms)) = batch_blob (map web_chat ms)" by (rule inbox_blob_batch)
  show ?thesis
    using inbox_fetch_effect(2) [OF assms(1-4), of C sr t] on_message_inbox [OF assms(6,7)] assms(5)
    unfolding inbox_of_def by (simp add: b [simplified])
qed

text \<open>C22. Offline messages reach a web client at least once, and not at most once.  The messages stored in its inbox are shown by the
  first fetch, with sender and text; since the client does not acknowledge them, the signaling service puts them
  back when the claim has expired, and the next fetch shows all of them again.\<close>

theorem web_inbox_redelivered:
  assumes ok: "sig_ok E view" "st_inv E view st" "msg_wf (InboxFetch i)" "sg_pub_ok E (reply_subject reply sid)"
    and stored: "view (sig_store st) claims_index = None" "inbox_of view st i = map hex_encode (map web_chat ms)" "ms \<noteq> []"
      "length ms \<le> 100" "\<forall>m\<in>set ms. web_text_ok m" "length (batch_blob (map web_chat ms)) < 2 ^ 32"
    and expired: "sint (t + INBOX_CLAIM_TTL_SECS) \<le> sint now"
  shows "let st1 = fst (handle_inbox_fetch E C sr t reply (bus_msg E sid (InboxFetch i)) st);
             st2 = fst (recover_round E now st1);
             st3 = fst (handle_inbox_fetch E C sr t' reply (bus_msg E sid (InboxFetch i)) st2)
    in \<exists>a1 a2. sig_sent st3 = sig_sent st @ [(reply_subject reply sid, a1), (reply_subject reply sid, a2)]
      \<and> pw_events (on_message L k n1 a1 r) = pw_events r @ web_events n1 ms
      \<and> pw_events (on_message L k n2 a2 (on_message L k n1 a1 r)) = pw_events r @ web_events n1 ms @ web_events n2 ms"
proof -
  let ?tok = "generate_claim_token C sr i t" and ?ms = "map hex_encode (map web_chat ms)"
  define st1 where "st1 = fst (handle_inbox_fetch E C sr t reply (bus_msg E sid (InboxFetch i)) st)"
  define st2 where "st2 = fst (recover_round E now st1)"
  have "?ms \<noteq> []" using stored(3) by simp
  then have v1: "view (sig_store st1) = (view (sig_store st))(claim_key ?tok := Some (RStr (to_text (sg_json E) (claim_json (hex_encode i) ?ms))),
      claims_index := Some (RZset [(claim_key ?tok, sint (t + INBOX_CLAIM_TTL_SECS))]), inbox_key (hex_encode i) := None)"
    using inbox_fetch_effect(1) [OF ok(1-3), of C sr t reply sid] stored(1,2) unfolding st1_def inbox_of_def
    by (simp del: map_map map_is_Nil_conv)
  have i1: "st_inv E view st1" unfolding st1_def by (rule handle_inbox_fetch_inv [OF ok(1,2)])
  have "view (sig_store st2) = (view (sig_store st1))(inbox_key (hex_encode i) := Some (RList (take 100 (?ms @ []))),
      claim_key ?tok := None, claims_index := None)"
    unfolding st2_def
    using recover_single_claim [OF ok(1) i1, of ?tok _ i ?ms now] \<open>?ms \<noteq> []\<close> expired by (simp add: v1 del: map_map)
  then have o2: "inbox_of view st2 i = ?ms" using stored(4) by (simp add: inbox_of_def del: map_map)
  have i2: "st_inv E view st2" unfolding st2_def by (rule recover_round_inv [OF ok(1) i1])
  have s2: "sig_sent st2 = sig_sent st1" by (simp add: st2_def recover_round_def Let_def split: prod.split)
  from web_fetch_shown [OF ok stored(2,5,6), of C sr t] obtain a1 where a1: "sig_sent st1 = sig_sent st @ [(reply_subject reply sid, a1)]"
    "\<forall>L k now r. pw_events (on_message L k now a1 r) = pw_events r @ web_events now ms" unfolding st1_def by blast
  from web_fetch_shown [OF ok(1) i2 ok(3,4) o2 stored(5,6), of C sr t'] s2 a1 show ?thesis
    unfolding Let_def st1_def [symmetric] st2_def [symmetric] by auto
qed

theorem web_inbox_redelivered_witness:
  "let st = fst (handle_inbox_store demo_sig (bus_msg demo_sig 1 (InboxStore [7] (web_chat ([8], [0x68])))) empty_state);
       st1 = fst (handle_inbox_fetch demo_sig demo_crypto demo_signer 1000 None (bus_msg demo_sig 2 (InboxFetch [7])) st);
       st3 = fst (handle_inbox_fetch demo_sig demo_crypto demo_signer 1400 None (bus_msg demo_sig 2 (InboxFetch [7]))
               (fst (recover_round demo_sig 1300 st1)))
   in \<exists>a1 a2. sig_sent st3 = sig_sent st @ [(reply_subject None 2, a1), (reply_subject None 2, a2)]
     \<and> pw_events (on_message demo_js 0 6 a2 (on_message demo_js 0 5 a1 (pwa_new [7])))
         = [PwaMessage (hexEncode [8]) [0x68] 5, PwaMessage (hexEncode [8]) [0x68] 6]"
proof -
  let ?w = "web_chat ([8], [0x68])"
  let ?st = "fst (handle_inbox_store demo_sig (bus_msg demo_sig 1 (InboxStore [7] ?w)) empty_state)"
  have w: "web_text_ok ([8], [0x68])" by (simp add: web_text_ok_def high_surrogate_def low_surrogate_def MAX_MSG_LEN_def)
  have "length ?w = 28"
    by (simp add: web_chat_def pwa_encoders serialize_def serialize_struct_def encode_bytes_def pad4_def text_encode_def utf8_bytes_def
        high_surrogate_def low_surrogate_def)
  then have l: "fits_u32 ?w" "length (batch_blob (map web_chat [([8], [0x68])])) < 2 ^ 32" by (simp_all add: fits_u32_def batch_blob_def)
  have wf: "msg_wf (InboxStore [7] ?w)" "msg_wf (InboxFetch [7])" using l(1) by (simp_all add: msg_wf_def) (simp_all add: fits_u32_def)
  have v: "sig_store ?st = (\<lambda>_. None)(inbox_key (hex_encode [7]) := Some (RList [hex_encode ?w]))"
    using inbox_store_effect [OF demo_sig_ok empty_state_inv wf(1), of 1] by (simp add: empty_state_def)
  have "st_inv demo_sig (\<lambda>s. s) ?st" by (rule handle_inbox_store_inv [OF demo_sig_ok empty_state_inv])
  moreover have "sg_pub_ok demo_sig s" for s by (simp add: demo_sig_def)
  moreover have "sint (1000 + INBOX_CLAIM_TTL_SECS) \<le> sint (1300 :: u64)" by (simp add: INBOX_CLAIM_TTL_SECS_def)
  ultimately show ?thesis
    using web_inbox_redelivered [where view = "\<lambda>s. s", OF demo_sig_ok _ wf(2), where ms = "[([8], [0x68])]" and t = 1000 and now = 1300 and t' = 1400
        and st = ?st and reply = None and sid = 2 and C = demo_crypto and sr = demo_signer and L = demo_js and k = 0 and ?n1.0 = 5 and ?n2.0 = 6
        and r = "pwa_new [7]"] w l(2)
    by (simp add: v inbox_of_def Let_def web_events_def pwa_new_def) blast
qed

end
